(* ===== verification/Ob_Prelude.thy ===== *)
theory Ob_Prelude
  imports Main "HOL-Library.Word" "HOL-Library.Sublist"
begin

text \<open>
  The vocabulary every component shares: how a C function that has effects is written
  (\<open>prog\<close>), how it can stop without returning (\<open>halt\<close>), how an invariant of a state
  is carried through it (\<open>keeps\<close>), and the generic list lemmas of the development.

  A C function over a state \<open>'s\<close> is a function from the state to either a halted state or
  a result and a state. Halting covers undefined behaviour the C code runs into (a write
  outside an array, a call through a null pointer, ...) and a call that never returns
  (a reset of the device, a wait nobody ends). The state at that point is kept, so a
  property can speak of what had happened before.
\<close>

named_theorems keeps_intros \<open>rules that carry an invariant through a program\<close>
named_theorems returns_intros \<open>rules that show that a program returns\<close>
named_theorems cstring_simps \<open>facts on C strings and character buffers\<close>

section \<open>Programs\<close>

datatype halt =
    OutOfBounds      \<comment> \<open>a write or read outside an array\<close>
  | NullDeref        \<comment> \<open>a field of a null pointer\<close>
  | NullCall         \<comment> \<open>a call through a null function pointer\<close>
  | UseAfterFree     \<comment> \<open>a field of a freed object\<close>
  | Unterminated     \<comment> \<open>a string function on an array with no NUL\<close>
  | Uninitialised    \<comment> \<open>a variable that was given no value\<close>
  | SignedOverflow   \<comment> \<open>arithmetic on an int past its range\<close>
  | NoReturn         \<comment> \<open>a call that does not come back\<close>

type_synonym ('s, 'a) prog = "'s \<Rightarrow> (halt \<times> 's) + ('a \<times> 's)"

definition ret :: "'a \<Rightarrow> ('s, 'a) prog" where
  "ret a = (\<lambda>s. Inr (a, s))"

definition halted :: "halt \<Rightarrow> ('s, 'a) prog" where
  "halted h = (\<lambda>s. Inl (h, s))"

definition bnd :: "('s, 'a) prog \<Rightarrow> ('a \<Rightarrow> ('s, 'b) prog) \<Rightarrow> ('s, 'b) prog" where
  "bnd m f = (\<lambda>s. case m s of Inl x \<Rightarrow> Inl x | Inr (a, s') \<Rightarrow> f a s')"

definition thn :: "('s, 'a) prog \<Rightarrow> ('s, 'b) prog \<Rightarrow> ('s, 'b) prog" where
  "thn m n = bnd m (\<lambda>_. n)"

definition gets :: "('s \<Rightarrow> 'a) \<Rightarrow> ('s, 'a) prog" where
  "gets f = (\<lambda>s. Inr (f s, s))"

definition modify :: "('s \<Rightarrow> 's) \<Rightarrow> ('s, unit) prog" where
  "modify f = (\<lambda>s. Inr ((), f s))"

definition cond :: "bool \<Rightarrow> ('s, unit) prog \<Rightarrow> ('s, unit) prog" where
  "cond b m = (if b then m else ret ())"

text \<open>A condition the C code relies on without a test: where it fails, the program halts.\<close>

definition require :: "bool \<Rightarrow> halt \<Rightarrow> ('s, unit) prog" where
  "require b h = (if b then ret () else halted h)"

text \<open>Running one program for each element of a list, in order.\<close>

primrec each :: "'a list \<Rightarrow> ('a \<Rightarrow> ('s, unit) prog) \<Rightarrow> ('s, unit) prog" where
  "each [] f = ret ()"
| "each (x # xs) f = thn (f x) (each xs f)"

lemma ret_apply [simp]: "ret a s = Inr (a, s)"
  by (simp add: ret_def)

lemma halted_apply [simp]: "halted h s = Inl (h, s)"
  by (simp add: halted_def)

lemma bnd_apply [simp]:
  "bnd m f s = (case m s of Inl x \<Rightarrow> Inl x | Inr (a, s') \<Rightarrow> f a s')"
  by (simp add: bnd_def)

lemma thn_apply [simp]:
  "thn m n s = (case m s of Inl x \<Rightarrow> Inl x | Inr (a, s') \<Rightarrow> n s')"
  by (simp add: thn_def)

lemma gets_apply [simp]: "gets f s = Inr (f s, s)"
  by (simp add: gets_def)

lemma modify_apply [simp]: "modify f s = Inr ((), f s)"
  by (simp add: modify_def)

lemma cond_apply [simp]: "cond b m s = (if b then m s else Inr ((), s))"
  by (simp add: cond_def)

lemma require_apply [simp]: "require b h s = (if b then Inr ((), s) else Inl (h, s))"
  by (simp add: require_def)

text \<open>A program that returned, taken apart.\<close>

lemma bnd_Inr: "bnd m f s = Inr (b, s') \<longleftrightarrow> (\<exists>a t. m s = Inr (a, t) \<and> f a t = Inr (b, s'))"
  by (simp split: sum.split prod.split)

lemma thn_Inr: "thn m n s = Inr (b, s') \<longleftrightarrow> (\<exists>a t. m s = Inr (a, t) \<and> n t = Inr (b, s'))"
  by (simp split: sum.split prod.split)

lemma thn_last: "thn m n s = Inr (b, s') \<Longrightarrow> (\<And>t. n t = Inr (b, s') \<Longrightarrow> P) \<Longrightarrow> P"
  unfolding thn_Inr by blast

lemma bnd_last: "bnd m f s = Inr (b, s') \<Longrightarrow> (\<And>a t. f a t = Inr (b, s') \<Longrightarrow> P) \<Longrightarrow> P"
  unfolding bnd_Inr by blast

lemma if_prog_apply [simp]:
  "(if b then m else n) s = (if b then m s else n s)" for m n :: "('s, 'a) prog"
  by simp

lemma bnd_assoc: "bnd (bnd m f) g = bnd m (\<lambda>a. bnd (f a) g)"
  by (rule ext) (simp split: sum.splits)

lemma each_append: "each (xs @ ys) f = thn (each xs f) (each ys f)"
proof (induction xs)
  case Nil
  show ?case by (rule ext) simp
next
  case (Cons x xs)
  show ?case by (rule ext) (simp add: Cons.IH split: sum.split)
qed

section \<open>The state a program leaves\<close>

text \<open>
  \<open>final\<close> is the state a program leaves, whether it returns or halts.
\<close>

definition final :: "(halt \<times> 's) + ('a \<times> 's) \<Rightarrow> 's" where
  "final r = (case r of Inl (h, s) \<Rightarrow> s | Inr (a, s) \<Rightarrow> s)"

lemma final_simps [simp]: "final (Inl (h, s)) = s" "final (Inr (a, s)) = s"
  by (simp_all add: final_def)

definition keeps :: "('s \<Rightarrow> bool) \<Rightarrow> ('s, 'a) prog \<Rightarrow> bool" where
  "keeps I m \<longleftrightarrow> (\<forall>s. I s \<longrightarrow> I (final (m s)))"

lemma keepsI: "(\<And>s. I s \<Longrightarrow> I (final (m s))) \<Longrightarrow> keeps I m"
  by (simp add: keeps_def)

lemma keepsD: "keeps I m \<Longrightarrow> I s \<Longrightarrow> I (final (m s))"
  by (simp add: keeps_def)

lemma keeps_Inr: "keeps I m \<Longrightarrow> I s \<Longrightarrow> m s = Inr (a, s') \<Longrightarrow> I s'"
  by (auto simp: keeps_def dest!: spec [of _ s])

lemma keeps_Inl: "keeps I m \<Longrightarrow> I s \<Longrightarrow> m s = Inl (h, s') \<Longrightarrow> I s'"
  by (auto simp: keeps_def dest!: spec [of _ s])

lemma keeps_ret [keeps_intros]: "keeps I (ret a)"
  by (rule keepsI) simp

lemma keeps_halted [keeps_intros]: "keeps I (halted h)"
  by (rule keepsI) simp

lemma keeps_gets [keeps_intros]: "keeps I (gets f)"
  by (rule keepsI) simp

lemma keeps_bnd [keeps_intros]:
  assumes "keeps I m" and "\<And>a. keeps I (f a)"
  shows "keeps I (bnd m f)"
proof (rule keepsI)
  fix s assume "I s"
  with assms(1) have "I (final (m s))" by (rule keepsD)
  then show "I (final (bnd m f s))"
    using assms(2) by (auto simp: keeps_def split: sum.split)
qed

lemma keeps_thn [keeps_intros]: "keeps I m \<Longrightarrow> keeps I n \<Longrightarrow> keeps I (thn m n)"
  unfolding thn_def by (rule keeps_bnd)

lemma keeps_thn_Inr:
  assumes "thn m n s = Inr (b, s')" and "keeps I m" and "I s"
  obtains t where "I t" "n t = Inr (b, s')"
  using assms keeps_Inr unfolding thn_Inr by metis

lemma keeps_bnd_Inr:
  assumes "bnd m f s = Inr (b, s')" and "keeps I m" and "I s"
  obtains a t where "m s = Inr (a, t)" "I t" "f a t = Inr (b, s')"
  using assms keeps_Inr unfolding bnd_Inr by metis

lemma keeps_cond [keeps_intros]: "keeps I m \<Longrightarrow> keeps I (cond b m)"
  by (simp add: cond_def keeps_ret)

lemma keeps_require [keeps_intros]: "keeps I (require b h)"
  by (simp add: require_def keeps_ret keeps_halted)

lemma keeps_modify: "(\<And>s. I s \<Longrightarrow> I (f s)) \<Longrightarrow> keeps I (modify f)"
  by (rule keepsI) simp

lemma keeps_if [keeps_intros]:
  "(b \<Longrightarrow> keeps I m) \<Longrightarrow> (\<not> b \<Longrightarrow> keeps I n) \<Longrightarrow> keeps I (if b then m else n)"
  by simp

lemma keeps_case_option [keeps_intros]:
  "keeps I m \<Longrightarrow> (\<And>x. keeps I (f x)) \<Longrightarrow> keeps I (case v of None \<Rightarrow> m | Some x \<Rightarrow> f x)"
  by (simp split: option.split)

lemma keeps_case_prod [keeps_intros]:
  "(\<And>x y. keeps I (f x y)) \<Longrightarrow> keeps I (case v of (x, y) \<Rightarrow> f x y)"
  by (simp split: prod.split)

lemma keeps_each [keeps_intros]: "(\<And>x. keeps I (f x)) \<Longrightarrow> keeps I (each xs f)"
  by (induction xs) (auto intro: keeps_intros)

section \<open>Programs that return\<close>

text \<open>From a state with \<open>I\<close> the program comes to its end, without a halt, in a state with \<open>I\<close>.\<close>

definition returns :: "('s \<Rightarrow> bool) \<Rightarrow> ('s, 'a) prog \<Rightarrow> bool" where
  "returns I m \<longleftrightarrow> (\<forall>s. I s \<longrightarrow> (\<exists>a s'. m s = Inr (a, s') \<and> I s'))"

lemma returnsI: "(\<And>s. I s \<Longrightarrow> \<exists>a s'. m s = Inr (a, s') \<and> I s') \<Longrightarrow> returns I m"
  by (simp add: returns_def)

lemma returnsE:
  assumes "returns I m" and "I s"
  obtains a s' where "m s = Inr (a, s')" "I s'"
  using assms unfolding returns_def by blast

lemma returns_ret [returns_intros]: "returns I (ret a)"
  by (simp add: returns_def)

lemma returns_bnd [returns_intros]:
  assumes "returns I m" and "\<And>a. returns I (f a)"
  shows "returns I (bnd m f)"
proof (rule returnsI)
  fix s assume "I s"
  with assms(1) obtain a t where t: "m s = Inr (a, t)" "I t" by (rule returnsE)
  from assms(2) t(2) obtain b s' where "f a t = Inr (b, s')" "I s'" by (rule returnsE)
  with t show "\<exists>b s'. bnd m f s = Inr (b, s') \<and> I s'" by simp
qed

lemma returns_bnd_gets:
  assumes "\<And>s. I s \<Longrightarrow> returns I (f (g s))"
  shows "returns I (bnd (gets g) f)"
proof (rule returnsI)
  fix s assume "I s"
  from assms [OF this] this obtain a s' where "f (g s) s = Inr (a, s')" "I s'" by (rule returnsE)
  then show "\<exists>a s'. bnd (gets g) f s = Inr (a, s') \<and> I s'" by simp
qed

lemma returns_thn [returns_intros]: "returns I m \<Longrightarrow> returns I n \<Longrightarrow> returns I (thn m n)"
  unfolding thn_def by (rule returns_bnd)

lemma returns_modify: "(\<And>s. I s \<Longrightarrow> I (f s)) \<Longrightarrow> returns I (modify f)"
  by (simp add: returns_def)

lemma returns_cond [returns_intros]: "(b \<Longrightarrow> returns I m) \<Longrightarrow> returns I (cond b m)"
  by (simp add: cond_def returns_ret)

lemma returns_require: "b \<Longrightarrow> returns I (require b h)"
  by (simp add: require_def returns_ret)

lemma returns_if [returns_intros]:
  "(b \<Longrightarrow> returns I m) \<Longrightarrow> (\<not> b \<Longrightarrow> returns I n) \<Longrightarrow> returns I (if b then m else n)"
  by simp

lemma returns_case_option [returns_intros]:
  "returns I m \<Longrightarrow> (\<And>x. returns I (f x)) \<Longrightarrow> returns I (case v of None \<Rightarrow> m | Some x \<Rightarrow> f x)"
  by (simp split: option.split)

lemma returns_case_prod [returns_intros]:
  "(\<And>x y. returns I (f x y)) \<Longrightarrow> returns I (case v of (x, y) \<Rightarrow> f x y)"
  by (simp split: prod.split)

lemma returns_each: "(\<And>x. x \<in> set xs \<Longrightarrow> returns I (f x)) \<Longrightarrow> returns I (each xs f)"
  by (induction xs) (auto intro: returns_intros)

section \<open>Sequences of operations\<close>

text \<open>
  The states some sequence of operations leads to, each operation run to its end, whether it
  returned or halted.
\<close>

inductive reach :: "('op \<Rightarrow> ('s, 'a) prog) \<Rightarrow> 's \<Rightarrow> 's \<Rightarrow> bool" for f s0 where
  start: "reach f s0 s0"
| step: "reach f s0 s \<Longrightarrow> reach f s0 (final (f op s))"

lemma reach_keeps:
  assumes "reach f s0 s" and "\<And>op. keeps I (f op)" and "I s0"
  shows "I s"
  using assms(1)
proof induction
  case start
  show ?case by (rule assms(3))
next
  case (step s op)
  from assms(2) step.IH show ?case by (rule keepsD)
qed

lemma reach_fold: "reach f s0 (fold (\<lambda>op s. final (f op s)) ops s0)"
  by (induction ops rule: rev_induct) (auto intro: reach.intros)

section \<open>Lists\<close>

lemma takeWhile_eq_self: "(\<And>x. x \<in> set xs \<Longrightarrow> P x) \<Longrightarrow> takeWhile P xs = xs"
  by (induction xs) auto

lemma nth_append_tl [simp]: "(xs @ y # ys) ! length xs = y"
  by simp

lemma list_update_end: "n = length xs \<Longrightarrow> (xs @ y # ys)[n := z] = xs @ z # ys"
  by (induction xs arbitrary: n) auto

text \<open>The first index of a list at which a predicate holds.\<close>

primrec first_index :: "('a \<Rightarrow> bool) \<Rightarrow> 'a list \<Rightarrow> nat option" where
  "first_index P [] = None"
| "first_index P (x # xs) = (if P x then Some 0 else map_option Suc (first_index P xs))"

lemma first_index_None [simp]: "first_index P xs = None \<longleftrightarrow> (\<forall>x \<in> set xs. \<not> P x)"
  by (induction xs) auto

lemma first_index_Some:
  "first_index P xs = Some i \<longleftrightarrow> i < length xs \<and> P (xs ! i) \<and> (\<forall>j < i. \<not> P (xs ! j))"
proof (induction xs arbitrary: i)
  case Nil
  show ?case by simp
next
  case (Cons x xs)
  show ?case
    by (cases i) (auto simp: Cons.IH nth_Cons' less_Suc_eq_0_disj)
qed

lemma first_index_cong: "(\<And>x. x \<in> set xs \<Longrightarrow> P x = Q x) \<Longrightarrow> first_index P xs = first_index Q xs"
  by (induction xs) auto

lemma first_index_bound: "first_index P xs = Some i \<Longrightarrow> i < length xs"
  by (simp add: first_index_Some)

end
