(* ===== verification/Ob_CString.thy ===== *)
theory Ob_CString
  imports Ob_Prelude
begin

text \<open>
  Characters, character arrays and the string functions of the C library that the source
  calls. An array is the list of its characters; its contents as a C string stop at the
  first NUL (\<open>cstr\<close>). A C string whose bytes matter only up to its terminator is a list
  without NUL.
\<close>

section \<open>Characters\<close>

abbreviation NUL :: char where "NUL \<equiv> CHR 0x00"
abbreviation CR :: char where "CR \<equiv> CHR 0x0D"
abbreviation LF :: char where "LF \<equiv> CHR 0x0A"
abbreviation SP :: char where "SP \<equiv> CHR 0x20"
abbreviation DQ :: char where "DQ \<equiv> CHR 0x22"

definition digit_char :: "nat \<Rightarrow> char" where
  "digit_char d = char_of (48 + d)"

definition is_digit :: "char \<Rightarrow> bool" where
  "is_digit c \<longleftrightarrow> 48 \<le> (of_char c :: nat) \<and> (of_char c :: nat) \<le> 57"

definition digit_val :: "char \<Rightarrow> nat" where
  "digit_val c = of_char c - 48"

lemma digit_char_val [simp]: "d < 10 \<Longrightarrow> digit_val (digit_char d) = d"
  by (simp add: digit_val_def digit_char_def of_char_of)

lemma is_digit_char [simp]: "d < 10 \<Longrightarrow> is_digit (digit_char d)"
  by (simp add: is_digit_def digit_char_def of_char_of)

lemma is_digit_not_control [simp]:
  "is_digit c \<Longrightarrow> c \<noteq> CR" "is_digit c \<Longrightarrow> c \<noteq> LF" "is_digit c \<Longrightarrow> c \<noteq> NUL"
  by (auto simp: is_digit_def)

section \<open>Contents of an array as a C string\<close>

definition cstr :: "string \<Rightarrow> string" where
  "cstr b = takeWhile (\<lambda>c. c \<noteq> NUL) b"

definition terminated :: "string \<Rightarrow> bool" where
  "terminated b \<longleftrightarrow> NUL \<in> set b"

definition nul_free :: "string \<Rightarrow> bool" where
  "nul_free s \<longleftrightarrow> NUL \<notin> set s"

lemma cstr_Nil [simp]: "cstr [] = []"
  by (simp add: cstr_def)

lemma cstr_Cons [simp]: "cstr (c # s) = (if c = NUL then [] else c # cstr s)"
  by (simp add: cstr_def)

lemma nul_free_Nil [simp]: "nul_free []"
  by (simp add: nul_free_def)

lemma nul_free_Cons [simp]: "nul_free (c # s) \<longleftrightarrow> c \<noteq> NUL \<and> nul_free s"
  by (auto simp: nul_free_def)

lemma nul_free_append [simp]: "nul_free (s @ t) \<longleftrightarrow> nul_free s \<and> nul_free t"
  by (auto simp: nul_free_def)

lemma nul_free_cstr [simp]: "nul_free (cstr b)"
  by (induction b) auto

lemma nul_free_take [simp]: "nul_free s \<Longrightarrow> nul_free (take n s)"
  by (auto simp: nul_free_def dest: in_set_takeD)

lemma cstr_id [simp]: "nul_free s \<Longrightarrow> cstr s = s"
  by (induction s) auto

lemma cstr_cstr [simp]: "cstr (cstr b) = cstr b"
  by simp

lemma cstr_append [simp]: "nul_free s \<Longrightarrow> cstr (s @ t) = s @ cstr t"
  by (induction s) auto

lemma cstr_replicate_NUL [simp]: "cstr (replicate n NUL) = []"
  by (cases n) simp_all

lemma cstr_length_le: "length (cstr b) \<le> length b"
  by (simp add: cstr_def length_takeWhile_le)

lemma cstr_length_less: "terminated b \<Longrightarrow> length (cstr b) < length b"
  by (induction b) (auto simp: terminated_def)

section \<open>strncmp, strncpy\<close>

text \<open>
  \<open>strncmp_eq a b n\<close> is \<open>strncmp(a, b, n) == 0\<close>; \<open>strncmp_loop\<close> is the character loop
  the C standard describes (the end of a list reads as the terminator), and the two agree.
\<close>

definition strncmp_eq :: "string \<Rightarrow> string \<Rightarrow> nat \<Rightarrow> bool" where
  "strncmp_eq a b n \<longleftrightarrow> take n (cstr a) = take n (cstr b)"

definition char_at_hd :: "string \<Rightarrow> char" where
  "char_at_hd a = (case a of [] \<Rightarrow> NUL | c # _ \<Rightarrow> c)"

fun strncmp_loop :: "string \<Rightarrow> string \<Rightarrow> nat \<Rightarrow> bool" where
  "strncmp_loop a b 0 = True"
| "strncmp_loop a b (Suc n) =
     (if char_at_hd a \<noteq> char_at_hd b then False
      else if char_at_hd a = NUL then True
      else strncmp_loop (tl a) (tl b) n)"

lemma strncmp_loop_eq: "strncmp_loop a b n = strncmp_eq a b n"
proof (induction a b n rule: strncmp_loop.induct)
  case (1 a b)
  show ?case by (simp add: strncmp_eq_def)
next
  case (2 a b n)
  then show ?case
    by (cases a; cases b) (auto simp: strncmp_eq_def char_at_hd_def)
qed

lemma strncmp_eq_refl [simp]: "strncmp_eq a a n"
  by (simp add: strncmp_eq_def)

lemma strncmp_eq_sym: "strncmp_eq a b n = strncmp_eq b a n"
  by (auto simp: strncmp_eq_def)

text \<open>With the length of the first string as the bound, it is the prefix order.\<close>

lemma strncmp_eq_prefix:
  "nul_free a \<Longrightarrow> strncmp_eq a b (length a) \<longleftrightarrow> prefix a (cstr b)"
  by (auto simp: strncmp_eq_def prefix_def)
    (metis append_take_drop_id)

text \<open>With a bound past both strings, it is equality.\<close>

lemma strncmp_eq_long:
  "length (cstr a) \<le> n \<Longrightarrow> length (cstr b) \<le> n \<Longrightarrow> strncmp_eq a b n \<longleftrightarrow> cstr a = cstr b"
  by (simp add: strncmp_eq_def)

text \<open>The \<open>n\<close> bytes \<open>strncpy(dst, src, n)\<close> writes: padded with NUL, cut without one.\<close>

definition strncpy_buf :: "nat \<Rightarrow> string \<Rightarrow> string" where
  "strncpy_buf n src = take n (cstr src @ replicate n NUL)"

lemma length_strncpy_buf [simp]: "length (strncpy_buf n src) = n"
  by (simp add: strncpy_buf_def)

lemma cstr_strncpy_buf [simp]: "cstr (strncpy_buf n src) = take n (cstr src)"
  by (simp add: strncpy_buf_def)

lemma terminated_strncpy_buf:
  "terminated (strncpy_buf n src) \<longleftrightarrow> length (cstr src) < n"
proof -
  have "NUL \<notin> set (cstr src)" using nul_free_cstr [of src] by (simp add: nul_free_def)
  then show ?thesis
    by (auto simp: terminated_def strncpy_buf_def dest: in_set_takeD)
qed

section \<open>Stores into an array\<close>

definition put_char :: "string \<Rightarrow> nat \<Rightarrow> char \<Rightarrow> string option" where
  "put_char b i c = (if i < length b then Some (b[i := c]) else None)"

lemma put_char_Some [simp]: "i < length b \<Longrightarrow> put_char b i c = Some (b[i := c])"
  by (simp add: put_char_def)

lemma put_char_None [simp]: "length b \<le> i \<Longrightarrow> put_char b i c = None"
  by (simp add: put_char_def)

lemma put_char_length: "put_char b i c = Some b' \<Longrightarrow> length b' = length b"
  by (auto simp: put_char_def split: if_splits)

section \<open>Numbers printed and read\<close>

fun dec_nat :: "nat \<Rightarrow> string" where
  "dec_nat n = (if n < 10 then [digit_char n] else dec_nat (n div 10) @ [digit_char (n mod 10)])"

declare dec_nat.simps [simp del]

definition dec_int :: "int \<Rightarrow> string" where
  "dec_int z = (if z < 0 then CHR ''-'' # dec_nat (nat (- z)) else dec_nat (nat z))"

definition dec_read :: "nat \<Rightarrow> string \<Rightarrow> nat" where
  "dec_read v s = fold (\<lambda>c v. v * 10 + digit_val c) s v"

lemma dec_nat_digits: "c \<in> set (dec_nat n) \<Longrightarrow> is_digit c"
proof (induction n rule: dec_nat.induct)
  case (1 n)
  then show ?case
    by (cases "n < 10") (auto simp: dec_nat.simps [of n])
qed

lemma dec_nat_nonempty: "dec_nat n \<noteq> []"
  by (subst dec_nat.simps) simp

lemma nul_free_dec_nat [simp]: "nul_free (dec_nat n)"
  using dec_nat_digits [of NUL n] by (auto simp: nul_free_def is_digit_def)

lemma dec_read_dec_nat: "dec_read 0 (dec_nat n) = n"
proof (induction n rule: dec_nat.induct)
  case (1 n)
  then show ?case
    by (cases "n < 10") (simp_all add: dec_nat.simps [of n] dec_read_def)
qed

lemma dec_nat_length: "n < 10 ^ k \<Longrightarrow> 0 < k \<Longrightarrow> length (dec_nat n) \<le> k"
proof (induction n arbitrary: k rule: dec_nat.induct)
  case (1 n)
  show ?case
  proof (cases "n < 10")
    case True
    with "1.prems" show ?thesis by (simp add: dec_nat.simps [of n])
  next
    case False
    with "1.prems" obtain j where k: "k = Suc j" "0 < j"
      by (cases k) (auto, metis One_nat_def gr0I power_one_right power_0 mult.right_neutral)
    with "1.prems" have "n div 10 < 10 ^ j" by (simp add: less_mult_imp_div_less)
    with "1.IH" False k have "length (dec_nat (n div 10)) \<le> j" by blast
    with False k show ?thesis by (simp add: dec_nat.simps [of n])
  qed
qed

definition hex_char :: "nat \<Rightarrow> char" where
  "hex_char d = (if d < 10 then char_of (48 + d) else char_of (87 + d))"

text \<open>\<open>%02x\<close> of a byte.\<close>

definition hex2 :: "8 word \<Rightarrow> string" where
  "hex2 w = [hex_char (unat w div 16), hex_char (unat w mod 16)]"

lemma length_hex2 [simp]: "length (hex2 w) = 2"
  by (simp add: hex2_def)

lemma hex_char_not_NUL [simp]: "d < 16 \<Longrightarrow> hex_char d \<noteq> NUL"
proof -
  assume d: "d < 16"
  have "of_char (hex_char d) \<noteq> (of_char NUL :: nat)"
    using d by (simp add: hex_char_def of_char_of)
  then show ?thesis by metis
qed

lemma nul_free_hex2 [simp]: "nul_free (hex2 w)"
proof -
  have "unat w < 2 ^ LENGTH(8)" by (rule unsigned_less)
  then have "unat w div 16 < 16" by (simp add: less_mult_imp_div_less)
  then show ?thesis by (simp add: hex2_def)
qed

text \<open>The range of a C \<open>int\<close>.\<close>

definition in_int :: "int \<Rightarrow> bool" where
  "in_int z \<longleftrightarrow> - (2 ^ 31) \<le> z \<and> z < 2 ^ 31"

end
