(* ===== verification/Ob_Kernel.thy ===== *)
theory Ob_Kernel
  imports Ob_CString
begin

text \<open>
  The boundary of the modelled code. Zephyr (sockets, network management, settings, threads,
  semaphores), the OTA providers and the application are not under src/: each call the source
  makes to them is a value of \<open>call\<close>, appended to the \<open>trace\<close> of the state, and its
  result comes from the environment, which is an arbitrary function of the calls made so far.
  Nothing is assumed about it; what a property relies on is a named hypothesis
  (\<open>responsive\<close>, \<open>settings_ok\<close>).

  The state of the program is a chain of extensible records, one per C file, that starts
  here with \<open>kern\<close>: a function of a file runs on the record of that file, whatever the
  files above add to it.
\<close>

section \<open>Build configuration\<close>

text \<open>
  The Kconfig options the source tests, and the two array sizes it takes from Zephyr's
  wifi header. One build is one value of this record.
\<close>

record config =
  CONFIG_ONBOARDING_WIFI :: bool
  CONFIG_ONBOARDING_WIFI_AP :: bool
  CONFIG_ONBOARDING_WEB_SERVER :: bool
  CONFIG_ONBOARDING_WEB_SERVER_HTTPS :: bool
  CONFIG_ONBOARDING_BLUETOOTH :: bool
  CONFIG_ONBOARDING_BLUETOOTH_GATT :: bool
  CONFIG_ONBOARDING_OTA :: bool
  CONFIG_ONBOARDING_OTA_PROVIDER :: "string option" \<comment> \<open>the init function of the chosen provider\<close>
  CONFIG_ONBOARDING_PRECONFIG_WIFI :: bool
  CONFIG_ONBOARDING_CERTS_GENERATE_CERTS :: bool
  CONFIG_NET_DHCPV4_SERVER :: bool
  CONFIG_NET_HOSTNAME_DYNAMIC :: bool
  CONFIG_NET_IPV4 :: bool
  CONFIG_NET_IPV6 :: bool
  CONFIG_NET_CONNECTION_MANAGER :: bool
  CONFIG_ESP32_STA_AUTO_DHCP :: bool
  CONFIG_USE_READY_LED :: bool
  CONFIG_ONBOARDING_LOG_LEVEL_DBG :: bool
  CONFIG_HTTP_NUM_HANDLERS :: nat
  CONFIG_ONBOARDING_WIFI_SSID :: string
  CONFIG_ONBOARDING_WIFI_PSK :: string
  CONFIG_ONBOARDING_WIFI_AP_SSID :: string
  CONFIG_ONBOARDING_WIFI_AP_PSK :: string
  CONFIG_ONBOARDING_WIFI_AP_ADDRESS :: string
  CONFIG_BT_DEVICE_NAME :: string
  WIFI_SSID_MAX_LEN :: nat
  WIFI_PSK_MAX_LEN :: nat
  NET_HOSTNAME_MAX_LEN :: nat
  ca_certificate :: string
  device_certificate :: string
  device_private_key :: string

section \<open>Calls out of the source\<close>

text \<open>A pointer to a C function is the name of the function.\<close>

type_synonym fnptr = string

datatype sem =
  wifi_connect_sem | wifi_ap_sem | wifi_deinit_sem | run_app | scan_done_sem | scan_semaphore

datatype thread = tcp4_thread_id | tcp6_thread_id

datatype iface_kind = wifi_sap | wifi_sta | if_default

text \<open>A request has the ssid and psk, cut to their lengths, the channel and the security.\<close>

datatype wifi_channel = WIFI_CHANNEL nat | WIFI_CHANNEL_ANY
datatype wifi_security = WIFI_SECURITY_TYPE_NONE | WIFI_SECURITY_TYPE_PSK

datatype net_request =
    WifiConnect string string wifi_channel wifi_security
  | NET_REQUEST_WIFI_DISCONNECT
  | NET_REQUEST_WIFI_SCAN
  | WifiApEnable string string wifi_channel wifi_security
  | NET_REQUEST_WIFI_AP_DISABLE

text \<open>The two requests the source makes, whatever the network: both ask for a key.\<close>

abbreviation "NET_REQUEST_WIFI_CONNECT x1 x2 \<equiv> WifiConnect x1 x2 (WIFI_CHANNEL 0) WIFI_SECURITY_TYPE_PSK"
abbreviation "NET_REQUEST_WIFI_AP_ENABLE x1 x2 \<equiv> WifiApEnable x1 x2 WIFI_CHANNEL_ANY WIFI_SECURITY_TYPE_PSK"

text \<open>
  One datatype per part of the platform; the abbreviations after them give each call the
  name it has in the source.
\<close>

datatype settings_call =
    SubsysInit
  | LoadOne string nat
  | SaveOne string string
  | Delete string
  | LoadSubtree
  | LoadAll

datatype kernel_call =
    Reboot
  | Alloc nat
  | SemGive sem
  | SemTake sem "nat option" \<comment> \<open>timeout in ms, none for K_FOREVER\<close>
  | SemReset sem
  | WorkInit fnptr
  | WorkSubmit fnptr
  | WorkSchedule fnptr nat \<comment> \<open>delay in ms\<close>
  | WorkReschedule fnptr nat
  | ThreadStart thread
  | ThreadAbort thread
  | ThreadCreate int nat \<comment> \<open>address family and slot\<close>
  | ThreadNameSet nat
  | Msleep nat
  | Yield
  | UptimeGet

datatype net_call =
    IfGet iface_kind
  | IfSetDefault int
  | IfGetLinkAddr int
  | Mgmt net_request int
  | MgmtAddCallback fnptr
  | AddrPton string
  | IfAddrAdd int string
  | IfAddrRm int string
  | IfSetNetmask int string
  | DhcpStart int
  | DhcpStop int
  | DhcpServerStart int string
  | DhcpServerStop int
  | AutoconfInit
  | HostnameSet string
  | ConnMgrResend

datatype sock_call =
    Socket int
  | Setsockopt int
  | Bind int
  | Listen int nat
  | Accept int
  | Send int string
  | Close int
  | TlsAdd string string

text \<open>
  A UUID is kept in the five parts \<open>BT_UUID_128_ENCODE\<close> is given; an element of an
  advertisement has its type and its data; a table of callbacks has its members by name.
\<close>

type_synonym uuid128 = "32 word \<times> 16 word \<times> 16 word \<times> 16 word \<times> 48 word"

datatype bt_data =
    BT_DATA_FLAGS "8 word"
  | BT_DATA_UUID128_ALL uuid128
  | BT_DATA_NAME_COMPLETE string

type_synonym callbacks = "(string \<times> fnptr option) list"

datatype bt_call =
    Enable
  | LeAdvStart "bt_data list" "bt_data list" \<comment> \<open>the advertisement and the scan response\<close>
  | LeAdvStop
  | ConnCbRegister callbacks
  | ConnAuthCbRegister callbacks
  | ConnAuthInfoCbRegister callbacks
  | ConnGetInfo
  | AddrLeToStr
  | GattNotifyCb string
  | GattNotify string
  | GattGetMtu
  | GattAttrRead nat nat string \<comment> \<open>length, offset and value\<close>
  | ConnDisconnect

datatype other_call =
    Ptr fnptr
  | Ptr2 fnptr string string
  | ReadyLed string
  | ShellPrint string
  | Printk string

datatype call =
    Settings settings_call
  | Kernel kernel_call
  | Net net_call
  | Zsock sock_call
  | Bt bt_call
  | Other other_call

abbreviation "SettingsSubsysInit \<equiv> Settings SubsysInit"
abbreviation "SettingsLoadOne x1 x2 \<equiv> Settings (LoadOne x1 x2)"
abbreviation "SettingsSaveOne x1 x2 \<equiv> Settings (SaveOne x1 x2)"
abbreviation "SettingsDelete x1 \<equiv> Settings (Delete x1)"
abbreviation "SettingsLoadSubtree \<equiv> Settings LoadSubtree"
abbreviation "SettingsLoad \<equiv> Settings LoadAll"
abbreviation "SysReboot \<equiv> Kernel Reboot"
abbreviation "Malloc x1 \<equiv> Kernel (Alloc x1)"
abbreviation "KSemGive x1 \<equiv> Kernel (SemGive x1)"
abbreviation "KSemTake x1 x2 \<equiv> Kernel (SemTake x1 x2)"
abbreviation "KSemReset x1 \<equiv> Kernel (SemReset x1)"
abbreviation "KWorkInit x1 \<equiv> Kernel (WorkInit x1)"
abbreviation "KWorkSubmit x1 \<equiv> Kernel (WorkSubmit x1)"
abbreviation "KWorkSchedule x1 x2 \<equiv> Kernel (WorkSchedule x1 x2)"
abbreviation "KThreadStart x1 \<equiv> Kernel (ThreadStart x1)"
abbreviation "KThreadAbort x1 \<equiv> Kernel (ThreadAbort x1)"
abbreviation "KThreadCreate x1 x2 \<equiv> Kernel (ThreadCreate x1 x2)"
abbreviation "KThreadNameSet x1 \<equiv> Kernel (ThreadNameSet x1)"
abbreviation "KMsleep x1 \<equiv> Kernel (Msleep x1)"
abbreviation "KYield \<equiv> Kernel Yield"
abbreviation "KUptimeGet \<equiv> Kernel UptimeGet"
abbreviation "KWorkReschedule x1 x2 \<equiv> Kernel (WorkReschedule x1 x2)"
abbreviation "NetIfGet x1 \<equiv> Net (IfGet x1)"
abbreviation "NetIfSetDefault x1 \<equiv> Net (IfSetDefault x1)"
abbreviation "NetIfGetLinkAddr x1 \<equiv> Net (IfGetLinkAddr x1)"
abbreviation "NetMgmt x1 x2 \<equiv> Net (Mgmt x1 x2)"
abbreviation "NetMgmtAddCallback x1 \<equiv> Net (MgmtAddCallback x1)"
abbreviation "NetAddrPton x1 \<equiv> Net (AddrPton x1)"
abbreviation "NetIfAddrAdd x1 x2 \<equiv> Net (IfAddrAdd x1 x2)"
abbreviation "NetIfAddrRm x1 x2 \<equiv> Net (IfAddrRm x1 x2)"
abbreviation "NetIfSetNetmask x1 x2 \<equiv> Net (IfSetNetmask x1 x2)"
abbreviation "NetDhcpStart x1 \<equiv> Net (DhcpStart x1)"
abbreviation "NetDhcpStop x1 \<equiv> Net (DhcpStop x1)"
abbreviation "NetDhcpServerStart x1 x2 \<equiv> Net (DhcpServerStart x1 x2)"
abbreviation "NetDhcpServerStop x1 \<equiv> Net (DhcpServerStop x1)"
abbreviation "NetAutoconfInit \<equiv> Net AutoconfInit"
abbreviation "NetHostnameSet x1 \<equiv> Net (HostnameSet x1)"
abbreviation "ConnMgrResendStatus \<equiv> Net ConnMgrResend"
abbreviation "ZsockSocket x1 \<equiv> Zsock (Socket x1)"
abbreviation "ZsockSetsockopt x1 \<equiv> Zsock (Setsockopt x1)"
abbreviation "ZsockBind x1 \<equiv> Zsock (Bind x1)"
abbreviation "ZsockListen x1 x2 \<equiv> Zsock (Listen x1 x2)"
abbreviation "ZsockAccept x1 \<equiv> Zsock (Accept x1)"
abbreviation "ZsockSend x1 x2 \<equiv> Zsock (Send x1 x2)"
abbreviation "ZsockClose x1 \<equiv> Zsock (Close x1)"
abbreviation "TlsCredentialAdd x1 x2 \<equiv> Zsock (TlsAdd x1 x2)"
abbreviation "BtEnable \<equiv> Bt Enable"
abbreviation "BtLeAdvStart x1 x2 \<equiv> Bt (LeAdvStart x1 x2)"
abbreviation "BtLeAdvStop \<equiv> Bt LeAdvStop"
abbreviation "BtConnCbRegister x1 \<equiv> Bt (ConnCbRegister x1)"
abbreviation "BtConnAuthCbRegister x1 \<equiv> Bt (ConnAuthCbRegister x1)"
abbreviation "BtConnAuthInfoCbRegister x1 \<equiv> Bt (ConnAuthInfoCbRegister x1)"
abbreviation "BtConnGetInfo \<equiv> Bt ConnGetInfo"
abbreviation "BtAddrLeToStr \<equiv> Bt AddrLeToStr"
abbreviation "BtGattNotifyCb x1 \<equiv> Bt (GattNotifyCb x1)"
abbreviation "BtGattNotify x1 \<equiv> Bt (GattNotify x1)"
abbreviation "BtGattGetMtu \<equiv> Bt GattGetMtu"
abbreviation "BtGattAttrRead x1 x2 x3 \<equiv> Bt (GattAttrRead x1 x2 x3)"
abbreviation "BtConnDisconnect \<equiv> Bt ConnDisconnect"
abbreviation "CallPtr x1 \<equiv> Other (Ptr x1)"
abbreviation "CallPtr2 x1 x2 x3 \<equiv> Other (Ptr2 x1 x2 x3)"
abbreviation "ReadyLedSet x1 \<equiv> Other (ReadyLed x1)"
abbreviation "ShellPrintLine x1 \<equiv> Other (ShellPrint x1)"
abbreviation "PrintkLine x1 \<equiv> Other (Printk x1)"

section \<open>Events the network management delivers\<close>

datatype net_event =
    WIFI_SCAN_RESULT string nat "8 word" bool \<comment> \<open>ssid array, its length, rssi, not open\<close>
  | WIFI_SCAN_DONE
  | WIFI_IFACE_STATUS
  | WIFI_CONNECT_RESULT int int             \<comment> \<open>status and interface\<close>
  | WIFI_DISCONNECT_RESULT int
  | WIFI_DISCONNECT_COMPLETE
  | WIFI_AP_ENABLE_RESULT int
  | WIFI_AP_DISABLE_RESULT int
  | WIFI_AP_STA_CONNECTED
  | WIFI_AP_STA_DISCONNECTED
  | IPV4_DHCP_BOUND int
  | IPV4_DHCP_START
  | IPV4_DHCP_STOP
  | IPV4_ADDR_ADD
  | IPV4_ADDR_DEL
  | IPV4_MCAST_JOIN
  | ETHERNET_CARRIER_ON
  | ETHERNET_CARRIER_OFF
  | L4_CONNECTED
  | L4_DISCONNECTED
  | OTHER_EVENT nat

section \<open>The state at the boundary\<close>

record kern =
  cfg :: config
  reply :: "call list \<Rightarrow> call \<Rightarrow> int option"       \<comment> \<open>None: the call does not come back\<close>
  data :: "call list \<Rightarrow> call \<Rightarrow> string"           \<comment> \<open>bytes a call leaves in its buffer\<close>
  arrivals :: "call list \<Rightarrow> call \<Rightarrow> net_event list" \<comment> \<open>events handled while a call waits\<close>
  listing :: "call list \<Rightarrow> string list"              \<comment> \<open>the keys in the settings store\<close>
  flash0 :: "string \<rightharpoonup> string"                       \<comment> \<open>the settings store at power-up\<close>
  trace :: "call list"
  brk :: nat                                         \<comment> \<open>next address the allocator gives out\<close>

definition ext :: "call \<Rightarrow> ('z kern_scheme, int) prog" where
  "ext c = (\<lambda>s. let s' = s\<lparr>trace := trace s @ [c]\<rparr>
     in case reply s (trace s) c of None \<Rightarrow> Inl (NoReturn, s') | Some r \<Rightarrow> Inr (r, s'))"

text \<open>A call whose result the source ignores.\<close>

definition ext0 :: "call \<Rightarrow> ('z kern_scheme, unit) prog" where
  "ext0 c = bnd (ext c) (\<lambda>_. ret ())"

text \<open>A call that also fills a buffer.\<close>

definition ext_data :: "call \<Rightarrow> ('z kern_scheme, int \<times> string) prog" where
  "ext_data c = (\<lambda>s. bnd (ext c) (\<lambda>r. ret (r, data s (trace s) c)) s)"

text \<open>
  A call that waits: the events the environment delivers meanwhile are handled (by
  \<open>deliver\<close>, in another thread) before it returns.
\<close>

definition ext_wait ::
  "(net_event \<Rightarrow> ('z kern_scheme, unit) prog) \<Rightarrow> call \<Rightarrow> ('z kern_scheme, int) prog" where
  "ext_wait deliver c = (\<lambda>s. bnd (ext c) (\<lambda>r. thn (each (arrivals s (trace s) c) deliver) (ret r)) s)"

text \<open>
  \<open>malloc\<close>: the environment decides whether there is memory (\<open>0\<close> is NULL); addresses are
  positive and never given out twice.
\<close>

definition malloc :: "nat \<Rightarrow> ('z kern_scheme, nat) prog" where
  "malloc n = bnd (ext (Malloc n)) (\<lambda>r. if r = 0 then ret 0 else
     bnd (gets brk) (\<lambda>a. thn (modify (\<lambda>s. s\<lparr>brk := Suc a\<rparr>)) (ret (Suc a))))"

lemma ext_apply:
  "ext c s = (case reply s (trace s) c of None \<Rightarrow> Inl (NoReturn, s\<lparr>trace := trace s @ [c]\<rparr>)
     | Some r \<Rightarrow> Inr (r, s\<lparr>trace := trace s @ [c]\<rparr>))"
  by (simp add: ext_def Let_def)

lemma ext_Some [simp]:
  "reply s (trace s) c = Some r \<Longrightarrow> ext c s = Inr (r, s\<lparr>trace := trace s @ [c]\<rparr>)"
  by (simp add: ext_apply)

lemma ext0_apply:
  "ext0 c s = (case reply s (trace s) c of None \<Rightarrow> Inl (NoReturn, s\<lparr>trace := trace s @ [c]\<rparr>)
     | Some r \<Rightarrow> Inr ((), s\<lparr>trace := trace s @ [c]\<rparr>))"
  by (simp add: ext0_def ext_apply split: option.split)

lemma ext_data_apply:
  "ext_data c s = (case reply s (trace s) c of None \<Rightarrow> Inl (NoReturn, s\<lparr>trace := trace s @ [c]\<rparr>)
     | Some r \<Rightarrow> Inr ((r, data s (trace s) c), s\<lparr>trace := trace s @ [c]\<rparr>))"
  by (simp add: ext_data_def ext_apply split: option.split)

lemma keeps_ext:
  assumes "\<And>s. I s \<Longrightarrow> I (s\<lparr>trace := trace s @ [c]\<rparr>)"
  shows "keeps I (ext c)"
  by (rule keepsI) (simp add: ext_apply assms split: option.split)

lemma keeps_ext0:
  assumes "\<And>s. I s \<Longrightarrow> I (s\<lparr>trace := trace s @ [c]\<rparr>)"
  shows "keeps I (ext0 c)"
  unfolding ext0_def by (intro keeps_intros keeps_ext assms)

lemma keeps_ext_data:
  assumes "\<And>s. I s \<Longrightarrow> I (s\<lparr>trace := trace s @ [c]\<rparr>)"
  shows "keeps I (ext_data c)"
  by (rule keepsI) (simp add: ext_data_apply assms split: option.split)

lemma keeps_ext_wait:
  assumes "\<And>s. I s \<Longrightarrow> I (s\<lparr>trace := trace s @ [c]\<rparr>)" and "\<And>e. keeps I (deliver e)"
  shows "keeps I (ext_wait deliver c)"
proof (rule keepsI)
  fix s assume "I s"
  moreover have "keeps I (bnd (ext c) (\<lambda>r. thn (each (arrivals s (trace s) c) deliver) (ret r)))"
    by (intro keeps_intros keeps_ext assms)
  ultimately show "I (final (ext_wait deliver c s))"
    unfolding ext_wait_def by (rule keepsD [rotated])
qed

lemma keeps_malloc:
  assumes "\<And>s. I s \<Longrightarrow> I (s\<lparr>trace := trace s @ [Malloc n]\<rparr>)" and "\<And>s a. I s \<Longrightarrow> I (s\<lparr>brk := a\<rparr>)"
  shows "keeps I (malloc n)"
  unfolding malloc_def by (intro keeps_intros keeps_ext keeps_modify assms)

lemmas keeps_exts = keeps_ext keeps_ext0 keeps_ext_data keeps_ext_wait keeps_malloc

text \<open>Calls that return, in programs that do.\<close>

lemma returns_ext:
  assumes "\<And>s. I s \<Longrightarrow> reply s (trace s) c \<noteq> None" and "\<And>s. I s \<Longrightarrow> I (s\<lparr>trace := trace s @ [c]\<rparr>)"
  shows "returns I (ext c)"
  by (rule returnsI) (use assms in \<open>auto simp: ext_apply split: option.splits\<close>)

lemma returns_ext0:
  assumes "\<And>s. I s \<Longrightarrow> reply s (trace s) c \<noteq> None" and "\<And>s. I s \<Longrightarrow> I (s\<lparr>trace := trace s @ [c]\<rparr>)"
  shows "returns I (ext0 c)"
  unfolding ext0_def by (intro returns_intros returns_ext assms)

lemma returns_ext_data:
  assumes "\<And>s. I s \<Longrightarrow> reply s (trace s) c \<noteq> None" and "\<And>s. I s \<Longrightarrow> I (s\<lparr>trace := trace s @ [c]\<rparr>)"
  shows "returns I (ext_data c)"
  by (rule returnsI) (use assms in \<open>auto simp: ext_data_apply split: option.splits\<close>)

lemma returns_ext_wait:
  assumes "\<And>s. I s \<Longrightarrow> reply s (trace s) c \<noteq> None" and "\<And>s. I s \<Longrightarrow> I (s\<lparr>trace := trace s @ [c]\<rparr>)"
    and "\<And>s e. I s \<Longrightarrow> e \<in> set (arrivals s (trace s) c) \<Longrightarrow> returns I (deliver e)"
  shows "returns I (ext_wait deliver c)"
proof (rule returnsI)
  fix s assume I: "I s"
  have "returns I (bnd (ext c) (\<lambda>r. thn (each (arrivals s (trace s) c) deliver) (ret r)))"
    by (intro returns_intros returns_ext returns_each assms(1,2) assms(3) [OF I])
  from this I show "\<exists>a s'. ext_wait deliver c s = Inr (a, s') \<and> I s'"
    unfolding ext_wait_def by (rule returnsE) blast
qed

text \<open>A call whose result is one the platform can give.\<close>

lemma returns_bnd_ext:
  assumes "\<And>s. I s \<Longrightarrow> \<exists>r. reply s (trace s) c = Some r \<and> returns I (f r)"
    and "\<And>s. I s \<Longrightarrow> I (s\<lparr>trace := trace s @ [c]\<rparr>)"
  shows "returns I (bnd (ext c) f)"
proof (rule returnsI)
  fix s assume I: "I s"
  then obtain r where r: "reply s (trace s) c = Some r" "returns I (f r)" using assms(1) by blast
  from r(2) assms(2) [OF I] obtain a s' where "f r (s\<lparr>trace := trace s @ [c]\<rparr>) = Inr (a, s')" "I s'" by (rule returnsE)
  with r(1) show "\<exists>a s'. bnd (ext c) f s = Inr (a, s') \<and> I s'" by simp
qed

section \<open>Hypotheses on the environment\<close>

text \<open>
  They speak of the environment's fields only, so every update of the program's own state
  leaves them as they are.
\<close>

text \<open>Every call but a reset of the device returns.\<close>

definition replies :: "(call list \<Rightarrow> call \<Rightarrow> int option) \<Rightarrow> bool" where
  "replies r \<longleftrightarrow> (\<forall>tr c. c \<noteq> SysReboot \<longrightarrow> r tr c \<noteq> None)"

abbreviation responsive :: "'z kern_scheme \<Rightarrow> bool" where
  "responsive s \<equiv> replies (reply s)"

lemma repliesE:
  assumes "replies r" and "c \<noteq> SysReboot"
  obtains x where "r tr c = Some x"
  using assms by (auto simp: replies_def)

text \<open>
  The contents of the settings store after some calls: a save that returned 0 has stored
  its value, a delete that returned 0 has removed its key.
\<close>

definition store_step ::
  "(call list \<Rightarrow> call \<Rightarrow> int option) \<Rightarrow> call list \<Rightarrow> call \<Rightarrow> (string \<rightharpoonup> string) \<Rightarrow> (string \<rightharpoonup> string)" where
  "store_step r tr c m =
     (case c of
        SettingsSaveOne k v \<Rightarrow> (if r tr c = Some 0 then m(k \<mapsto> v) else m)
      | SettingsDelete k \<Rightarrow> (if r tr c = Some 0 then m(k := None) else m)
      | _ \<Rightarrow> m)"

fun store_run ::
  "(call list \<Rightarrow> call \<Rightarrow> int option) \<Rightarrow> call list \<Rightarrow> call list \<Rightarrow> (string \<rightharpoonup> string) \<Rightarrow> (string \<rightharpoonup> string)" where
  "store_run r pre [] m = m"
| "store_run r pre (c # cs) m = store_run r (pre @ [c]) cs (store_step r pre c m)"

definition store_at ::
  "(call list \<Rightarrow> call \<Rightarrow> int option) \<Rightarrow> (string \<rightharpoonup> string) \<Rightarrow> call list \<Rightarrow> (string \<rightharpoonup> string)" where
  "store_at r m tr = store_run r [] tr m"

abbreviation store :: "'z kern_scheme \<Rightarrow> (string \<rightharpoonup> string)" where
  "store s \<equiv> store_at (reply s) (flash0 s) (trace s)"

lemma store_run_append:
  "store_run r pre (xs @ ys) m = store_run r (pre @ xs) ys (store_run r pre xs m)"
  by (induction xs arbitrary: pre m) simp_all

lemma store_at_snoc [simp]: "store_at r m (tr @ [c]) = store_step r tr c (store_at r m tr)"
  by (simp add: store_at_def store_run_append)

lemma store_at_Nil [simp]: "store_at r m [] = m"
  by (simp add: store_at_def)

text \<open>The documented behaviour of a load, for one key and one buffer size.\<close>

definition load_law ::
  "(call list \<Rightarrow> call \<Rightarrow> int option) \<Rightarrow> (call list \<Rightarrow> call \<Rightarrow> string) \<Rightarrow> call list \<Rightarrow> call
   \<Rightarrow> string option \<Rightarrow> nat \<Rightarrow> bool" where
  "load_law r d tr c ov n =
     (case ov of
        None \<Rightarrow> (\<exists>x < 0. r tr c = Some x)
      | Some v \<Rightarrow> r tr c = Some (int (length v)) \<and> (length v \<le> n \<longrightarrow> d tr c = v))"

text \<open>
  The documented behaviour of the settings subsystem: a load returns the size of the stored
  value and puts it in the buffer when it fits, or a negative number when the key is absent;
  a save or delete returns 0 or a negative number; the keys visited are the keys stored,
  each once, and the visit itself succeeds.
\<close>

definition settings_law ::
  "(call list \<Rightarrow> call \<Rightarrow> int option) \<Rightarrow> (call list \<Rightarrow> call \<Rightarrow> string) \<Rightarrow> (call list \<Rightarrow> string list)
   \<Rightarrow> (string \<rightharpoonup> string) \<Rightarrow> bool" where
  "settings_law r d ks m \<longleftrightarrow>
     (\<forall>tr k n. load_law r d tr (SettingsLoadOne k n) (store_at r m tr k) n) \<and>
     (\<forall>tr k v. \<exists>x \<le> 0. r tr (SettingsSaveOne k v) = Some x) \<and>
     (\<forall>tr k. \<exists>x \<le> 0. r tr (SettingsDelete k) = Some x) \<and>
     (\<forall>tr. set (ks tr) = dom (store_at r m tr) \<and> distinct (ks tr)) \<and>
     (\<forall>tr. r tr SettingsLoadSubtree = Some 0)"

abbreviation settings_ok :: "'z kern_scheme \<Rightarrow> bool" where
  "settings_ok s \<equiv> settings_law (reply s) (data s) (listing s) (flash0 s)"

lemma settings_load:
  assumes "settings_law r d ks m" and "store_at r m tr k = Some v"
  shows "r tr (SettingsLoadOne k n) = Some (int (length v))"
    and "length v \<le> n \<Longrightarrow> d tr (SettingsLoadOne k n) = v"
proof -
  have "load_law r d tr (SettingsLoadOne k n) (store_at r m tr k) n"
    using assms(1) unfolding settings_law_def by blast
  with assms(2) show "r tr (SettingsLoadOne k n) = Some (int (length v))"
    and "length v \<le> n \<Longrightarrow> d tr (SettingsLoadOne k n) = v"
    by (simp_all add: load_law_def)
qed

lemma settings_load_absent:
  assumes "settings_law r d ks m" and "store_at r m tr k = None"
  obtains x where "x < 0" "r tr (SettingsLoadOne k n) = Some x"
proof -
  have "load_law r d tr (SettingsLoadOne k n) (store_at r m tr k) n"
    using assms(1) unfolding settings_law_def by blast
  with assms(2) that show thesis by (auto simp: load_law_def)
qed

text \<open>A setting that is missing or empty is read as no value.\<close>

definition no_value :: "string option \<Rightarrow> bool" where
  "no_value v \<longleftrightarrow> v = None \<or> v = Some []"

lemma settings_load_no_value:
  assumes "settings_law r d ks m" and "no_value (store_at r m tr k)"
  obtains x where "x \<le> 0" "r tr (SettingsLoadOne k n) = Some x"
proof (cases "store_at r m tr k = None")
  case True
  with assms(1) obtain x where "x < 0" "r tr (SettingsLoadOne k n) = Some x" by (rule settings_load_absent)
  then show thesis by (intro that) simp_all
next
  case False
  with assms(2) have "store_at r m tr k = Some []" by (simp add: no_value_def)
  from settings_load(1) [OF assms(1) this] show thesis by (intro that [of 0]) simp_all
qed

lemma settings_save:
  assumes "settings_law r d ks m"
  obtains x where "x \<le> 0" "r tr (SettingsSaveOne k v) = Some x"
  using assms unfolding settings_law_def by blast

lemma settings_delete:
  assumes "settings_law r d ks m"
  obtains x where "x \<le> 0" "r tr (SettingsDelete k) = Some x"
  using assms unfolding settings_law_def by blast

lemma settings_listing:
  "settings_law r d ks m \<Longrightarrow> set (ks tr) = dom (store_at r m tr)"
  by (simp add: settings_law_def)

lemma settings_subtree:
  "settings_law r d ks m \<Longrightarrow> r tr SettingsLoadSubtree = Some 0"
  by (simp add: settings_law_def)

section \<open>An environment that meets them\<close>

text \<open>
  A settings store kept in memory: the instance the witnesses use to show that the
  hypotheses can hold together. It answers every other call with \<open>other\<close>, which also
  says which keys cannot be deleted.
\<close>

type_synonym replier = "call list \<Rightarrow> call \<Rightarrow> int option"

definition deletable :: "replier \<Rightarrow> string \<Rightarrow> bool" where
  "deletable other k \<longleftrightarrow> other [] (SettingsDelete k) = Some 0"

definition mem_step :: "replier \<Rightarrow> call \<Rightarrow> (string \<times> string) list \<Rightarrow> (string \<times> string) list" where
  "mem_step other c m =
     (case c of
        SettingsSaveOne k v \<Rightarrow> (k, v) # filter (\<lambda>p. fst p \<noteq> k) m
      | SettingsDelete k \<Rightarrow> if deletable other k then filter (\<lambda>p. fst p \<noteq> k) m else m
      | _ \<Rightarrow> m)"

definition mem_store :: "replier \<Rightarrow> (string \<times> string) list \<Rightarrow> call list \<Rightarrow> (string \<times> string) list" where
  "mem_store other m tr = fold (mem_step other) tr m"

definition mem_reply :: "(string \<times> string) list \<Rightarrow> replier \<Rightarrow> replier" where
  "mem_reply m other tr c =
     (case c of
        SettingsLoadOne k n \<Rightarrow>
          (case map_of (mem_store other m tr) k of None \<Rightarrow> Some (- 2) | Some v \<Rightarrow> Some (int (length v)))
      | SettingsSaveOne k v \<Rightarrow> Some 0
      | SettingsDelete k \<Rightarrow> Some (if deletable other k then 0 else - 5)
      | SettingsLoadSubtree \<Rightarrow> Some 0
      | _ \<Rightarrow> other tr c)"

definition mem_data ::
  "(string \<times> string) list \<Rightarrow> replier \<Rightarrow> (call list \<Rightarrow> call \<Rightarrow> string) \<Rightarrow> call list \<Rightarrow> call \<Rightarrow> string" where
  "mem_data m other od tr c =
     (case c of
        SettingsLoadOne k n \<Rightarrow> (case map_of (mem_store other m tr) k of None \<Rightarrow> [] | Some v \<Rightarrow> v)
      | _ \<Rightarrow> od tr c)"

definition mem_listing :: "(string \<times> string) list \<Rightarrow> replier \<Rightarrow> call list \<Rightarrow> string list" where
  "mem_listing m other tr = map fst (mem_store other m tr)"

lemma mem_step_map: "map_of (mem_step other c m) = store_step (mem_reply m0 other) tr c (map_of m)"
proof -
  have del: "map_of (filter (\<lambda>p. fst p \<noteq> k) m) = (map_of m)(k := None)" for k
    by (induction m) auto
  show ?thesis
    by (cases c) (simp_all add: store_step_def mem_step_def mem_reply_def del split: settings_call.split)
qed

lemma mem_store_run:
  "map_of (fold (mem_step other) cs m) = store_run (mem_reply m0 other) pre cs (map_of m)"
proof (induction cs arbitrary: pre m)
  case Nil
  show ?case by simp
next
  case (Cons c cs)
  have "map_of (mem_step other c m) = store_step (mem_reply m0 other) pre c (map_of m)"
    by (rule mem_step_map)
  then show ?case using Cons.IH [of "mem_step other c m" "pre @ [c]"] by simp
qed

lemma mem_store_at: "map_of (mem_store other m tr) = store_at (mem_reply m other) (map_of m) tr"
  by (simp add: mem_store_def store_at_def mem_store_run)

lemma mem_step_distinct: "distinct (map fst m) \<Longrightarrow> distinct (map fst (mem_step other c m))"
  by (cases c) (auto simp: mem_step_def distinct_map_filter split: settings_call.split)

lemma mem_store_distinct: "distinct (map fst m) \<Longrightarrow> distinct (map fst (mem_store other m tr))"
  unfolding mem_store_def
  by (induction tr arbitrary: m) (auto simp: mem_step_distinct)

lemma settings_law_mem:
  assumes "distinct (map fst m)"
  shows "settings_law (mem_reply m other) (mem_data m other od) (mem_listing m other) (map_of m)"
  using mem_store_distinct [OF assms]
  by (auto simp: settings_law_def load_law_def mem_listing_def mem_reply_def mem_data_def dom_map_of_conv_image_fst
      mem_store_at [symmetric] split: option.split)

end
