(* ===== verification/Ob_Nvs.thy ===== *)
theory Ob_Nvs
  imports Ob_Kernel
begin

text \<open>
  src/ob_nvs_data.c: the non-volatile store. Its own state is whether the settings subsystem
  was initialised and a mirror callback; the data itself is in the settings subsystem of the
  platform (\<open>store\<close>). The theory ends with the interface its clients use, \<open>nvs_store\<close>:
  what a read returns after a write, and that the store is as it was where nothing was written.
\<close>

section \<open>State and operations\<close>

record nvs = kern +
  nvs_data_inited :: bool
  mMirrorCallback :: "fnptr option"

definition nvs_static :: "'z nvs_scheme \<Rightarrow> bool" where
  "nvs_static s \<longleftrightarrow> mMirrorCallback s = None \<and> \<not> nvs_data_inited s"

definition ob_nvs_set_mirror_callback :: "fnptr option \<Rightarrow> ('z nvs_scheme, unit) prog" where
  "ob_nvs_set_mirror_callback callback = modify (\<lambda>s. s\<lparr>mMirrorCallback := callback\<rparr>)"

definition ob_nvs_data_init :: "('z nvs_scheme, int) prog" where
  "ob_nvs_data_init = bnd (gets nvs_data_inited) (\<lambda>inited.
     if inited then ret 0
     else thn (ext0 SettingsSubsysInit)
       (thn (modify (\<lambda>s. s\<lparr>nvs_data_inited := True\<rparr>)) (ret 0)))"

text \<open>A read returns the result and what the settings subsystem put in the buffer.\<close>

definition ob_nvs_data_read :: "string \<Rightarrow> nat \<Rightarrow> ('z nvs_scheme, int \<times> string) prog" where
  "ob_nvs_data_read name len = ext_data (SettingsLoadOne name len)"

definition ob_nvs_data_write :: "string \<Rightarrow> string \<Rightarrow> nat \<Rightarrow> ('z nvs_scheme, int) prog" where
  "ob_nvs_data_write name buffer len = ext (SettingsSaveOne name (take len buffer))"

definition ob_nvs_factory_reset_callback :: "string \<Rightarrow> ('z nvs_scheme, int) prog" where
  "ob_nvs_factory_reset_callback key = ext (SettingsDelete key)"

text \<open>
  The platform visits the stored keys and calls the function it was given on each, until one
  call returns nonzero.
\<close>

primrec visit_keys :: "(string \<Rightarrow> ('s, int) prog) \<Rightarrow> string list \<Rightarrow> ('s, unit) prog" where
  "visit_keys cb [] = ret ()"
| "visit_keys cb (k # ks) = bnd (cb k) (\<lambda>rc. if rc = 0 then visit_keys cb ks else ret ())"

definition ob_nvs_data_factory_reset :: "('z nvs_scheme, unit) prog" where
  "ob_nvs_data_factory_reset =
     bnd (gets (\<lambda>s. listing s (trace s))) (\<lambda>keys.
     thn (ext0 SettingsLoadSubtree) (visit_keys ob_nvs_factory_reset_callback keys))"

lemmas nvs_defs = ob_nvs_set_mirror_callback_def ob_nvs_data_init_def ob_nvs_data_read_def
  ob_nvs_data_write_def ob_nvs_factory_reset_callback_def ob_nvs_data_factory_reset_def

lemma keeps_visit_keys [keeps_intros]:
  "(\<And>k. keeps I (cb k)) \<Longrightarrow> keeps I (visit_keys cb ks)"
  by (induction ks) (auto intro!: keeps_intros)

section \<open>Initialisation\<close>

text \<open>
  The settings subsystem is initialised once, however often and in whatever order the
  operations run.
\<close>

definition inited_once :: "'z nvs_scheme \<Rightarrow> bool" where
  "inited_once s \<longleftrightarrow> count_list (trace s) SettingsSubsysInit = (if nvs_data_inited s then 1 else 0)"

datatype nvs_op =
    OpInit
  | OpRead string nat
  | OpWrite string string nat
  | OpReset
  | OpMirror "fnptr option"

definition nvs_do :: "nvs_op \<Rightarrow> ('z nvs_scheme, unit) prog" where
  "nvs_do op =
     (case op of
        OpInit \<Rightarrow> bnd ob_nvs_data_init (\<lambda>_. ret ())
      | OpRead k n \<Rightarrow> bnd (ob_nvs_data_read k n) (\<lambda>_. ret ())
      | OpWrite k b n \<Rightarrow> bnd (ob_nvs_data_write k b n) (\<lambda>_. ret ())
      | OpReset \<Rightarrow> ob_nvs_data_factory_reset
      | OpMirror cb \<Rightarrow> ob_nvs_set_mirror_callback cb)"

lemma inited_once_other:
  "c \<noteq> SettingsSubsysInit \<Longrightarrow> inited_once s \<Longrightarrow> inited_once (s\<lparr>trace := trace s @ [c]\<rparr>)"
  by (simp add: inited_once_def)

lemma nvs_do_env [simp]: "reply (final (nvs_do op s)) = reply s"
proof -
  have "keeps (\<lambda>t. reply t = reply s) (nvs_do op)"
    unfolding nvs_do_def nvs_defs
    by (cases op) (auto intro!: keeps_intros keeps_exts keeps_modify)
  then show ?thesis by (auto simp: keeps_def)
qed

lemma nvs_do_inited_once:
  assumes "responsive s" and "inited_once s"
  shows "inited_once (final (nvs_do op s))"
proof (cases op)
  case OpInit
  have "reply s (trace s) SettingsSubsysInit \<noteq> None"
    using assms(1) by (simp add: replies_def)
  with assms(2) OpInit show ?thesis
    by (auto simp: nvs_do_def inited_once_def ob_nvs_data_init_def ext0_apply split: option.splits)
next
  case OpReset
  have "keeps inited_once ob_nvs_data_factory_reset"
    unfolding nvs_defs by (auto intro!: keeps_intros keeps_exts inited_once_other)
  from keepsD [OF this assms(2)] OpReset show ?thesis by (simp add: nvs_do_def)
qed (use assms(2) in \<open>auto simp: nvs_do_def nvs_defs ext_data_apply ext_apply inited_once_def split: option.split\<close>)

lemma nvs_reach_once:
  assumes "reach nvs_do s0 s" and "responsive s0" and "inited_once s0"
  shows "inited_once s"
proof -
  have "keeps (\<lambda>s. responsive s \<and> inited_once s) (nvs_do op)" for op
    by (rule keepsI) (simp add: nvs_do_inited_once)
  from reach_keeps [OF assms(1) this] assms(2,3) show ?thesis by blast
qed

section \<open>Factory reset\<close>

lemma visit_delete:
  assumes "\<And>tr k. r tr (SettingsDelete k) = Some 0" and "reply s = r"
  shows "\<exists>s'. visit_keys ob_nvs_factory_reset_callback ks s = Inr ((), s') \<and>
    trace s' = trace s @ map SettingsDelete ks \<and> reply s' = r \<and> flash0 s' = flash0 s \<and>
    store s' = store s |` (- set ks)"
  using assms(2)
proof (induction ks arbitrary: s)
  case Nil
  then show ?case by simp
next
  case (Cons k ks)
  define s1 where "s1 = s\<lparr>trace := trace s @ [SettingsDelete k]\<rparr>"
  have one: "ob_nvs_factory_reset_callback k s = Inr (0, s1)"
    using assms(1) Cons.prems by (simp add: ob_nvs_factory_reset_callback_def s1_def)
  have st1: "store s1 = (store s)(k := None)"
    using assms(1) Cons.prems by (simp add: s1_def store_step_def)
  have "reply s1 = r" using Cons.prems by (simp add: s1_def)
  from Cons.IH [OF this] obtain s' where
    s': "visit_keys ob_nvs_factory_reset_callback ks s1 = Inr ((), s')"
      "trace s' = trace s1 @ map SettingsDelete ks" "reply s' = r" "flash0 s' = flash0 s1"
      "store s' = store s1 |` (- set ks)"
    by blast
  have "store s' = store s |` (- set (k # ks))"
    unfolding s'(5) st1 by (rule HOL.ext) (auto simp: restrict_map_def)
  with s' one show ?case by (auto simp: s1_def)
qed

text \<open>
  A delete that fails ends the visit: the keys before it are gone, the others stay.
\<close>

lemma visit_delete_fails:
  assumes "\<And>tr j. j \<in> set ks \<Longrightarrow> r tr (SettingsDelete j) = Some 0"
    and "\<And>tr. r tr (SettingsDelete k) = Some e" and "e \<noteq> 0" and "reply s = r"
  shows "\<exists>s'. visit_keys ob_nvs_factory_reset_callback (ks @ k # js) s = Inr ((), s') \<and>
    trace s' = trace s @ map SettingsDelete (ks @ [k]) \<and> store s' = store s |` (- set ks)"
  using assms
proof (induction ks arbitrary: s)
  case Nil
  then show ?case by (simp add: ob_nvs_factory_reset_callback_def store_step_def)
next
  case (Cons a ks)
  define s1 where "s1 = s\<lparr>trace := trace s @ [SettingsDelete a]\<rparr>"
  have one: "ob_nvs_factory_reset_callback a s = Inr (0, s1)"
    using Cons.prems by (simp add: ob_nvs_factory_reset_callback_def s1_def)
  have st1: "store s1 = (store s)(a := None)"
    using Cons.prems by (simp add: s1_def store_step_def)
  have "reply s1 = r" using Cons.prems by (simp add: s1_def)
  from Cons.IH [OF Cons.prems(1) Cons.prems(2,3) this] obtain s' where
    s': "visit_keys ob_nvs_factory_reset_callback (ks @ k # js) s1 = Inr ((), s')"
      "trace s' = trace s1 @ map SettingsDelete (ks @ [k])" "store s' = store s1 |` (- set ks)"
    by auto
  have "store s' = store s |` (- set (a # ks))"
    unfolding s'(3) st1 by (rule HOL.ext) (auto simp: restrict_map_def)
  with s' one show ?case by (auto simp: s1_def)
qed

text \<open>The two on the keys the platform visits.\<close>

lemma reset_visits:
  assumes "settings_ok s"
  shows "ob_nvs_data_factory_reset s =
    visit_keys ob_nvs_factory_reset_callback (listing s (trace s)) (s\<lparr>trace := trace s @ [SettingsLoadSubtree]\<rparr>)"
  using settings_subtree [OF assms] by (simp add: ob_nvs_data_factory_reset_def ext0_apply)

lemma reset_erases:
  assumes env: "settings_ok s" and ok: "\<And>tr k. reply s tr (SettingsDelete k) = Some 0"
  shows "\<exists>s'. ob_nvs_data_factory_reset s = Inr ((), s') \<and> store s' = Map.empty"
proof -
  define s1 where "s1 = s\<lparr>trace := trace s @ [SettingsLoadSubtree]\<rparr>"
  have s1: "reply s1 = reply s" "store s1 = store s" by (simp_all add: s1_def store_step_def)
  obtain s' where s': "ob_nvs_data_factory_reset s = Inr ((), s')"
    "store s' = store s1 |` (- set (listing s (trace s)))"
    using visit_delete [OF ok s1(1), of "listing s (trace s)"] unfolding reset_visits [OF env] s1_def by blast
  have "store s' = Map.empty"
    unfolding s'(2) s1(2) settings_listing [OF env] by (rule HOL.ext) (auto simp: restrict_map_def)
  with s'(1) show ?thesis by blast
qed

lemma reset_stops:
  assumes env: "settings_ok s" and keys: "listing s (trace s) = ks @ k # js"
    and ok: "\<And>tr j. j \<in> set ks \<Longrightarrow> reply s tr (SettingsDelete j) = Some 0"
    and fails: "\<And>tr. reply s tr (SettingsDelete k) = Some e" "e < 0"
  shows "\<exists>s'. ob_nvs_data_factory_reset s = Inr ((), s') \<and> store s' = store s |` set (k # js) \<and>
    store s' k \<noteq> None"
proof -
  define s1 where "s1 = s\<lparr>trace := trace s @ [SettingsLoadSubtree]\<rparr>"
  have s1: "reply s1 = reply s" "store s1 = store s" by (simp_all add: s1_def store_step_def)
  have e: "e \<noteq> 0" using fails(2) by simp
  obtain s' where s': "ob_nvs_data_factory_reset s = Inr ((), s')" "store s' = store s1 |` (- set ks)"
    using visit_delete_fails [of ks "reply s" k e s1 js, OF ok fails(1) e s1(1)]
    unfolding reset_visits [OF env] keys s1_def by blast
  have dom: "dom (store s) = set (ks @ k # js)"
    using settings_listing [OF env, of "trace s"] keys by simp
  have "distinct (listing s (trace s))" using env unfolding settings_law_def by blast
  then have dist: "distinct (ks @ k # js)" by (simp add: keys)
  have "store s' = store s |` set (k # js)"
    unfolding s'(2) s1(2) using dom dist by (intro HOL.ext) (auto simp: restrict_map_def domIff)
  moreover have "store s k \<noteq> None" using dom by auto
  ultimately show ?thesis using s'(1) by auto
qed

section \<open>The interface of the store\<close>

locale nvs_store =
  fixes ini :: "('s, int) prog"
    and rd :: "string \<Rightarrow> nat \<Rightarrow> ('s, int \<times> string) prog"
    and wr :: "string \<Rightarrow> string \<Rightarrow> nat \<Rightarrow> ('s, int) prog"
    and contents :: "'s \<Rightarrow> (string \<rightharpoonup> string)"
    and invar :: "'s \<Rightarrow> bool"
  assumes init_law: "invar s \<Longrightarrow> \<exists>s'. ini s = Inr (0, s') \<and> contents s' = contents s \<and> invar s'"
    and rd_present: "invar s \<Longrightarrow> contents s k = Some v \<Longrightarrow> length v \<le> n \<Longrightarrow>
      \<exists>s'. rd k n s = Inr ((int (length v), v), s') \<and> contents s' = contents s \<and> invar s'"
    and rd_absent: "invar s \<Longrightarrow> contents s k = None \<Longrightarrow>
      \<exists>rc b s'. rd k n s = Inr ((rc, b), s') \<and> rc < 0 \<and> contents s' = contents s \<and> invar s'"
    and wr_law: "invar s \<Longrightarrow> \<exists>rc s'. wr k b n s = Inr (rc, s') \<and> invar s' \<and>
      (rc = 0 \<and> contents s' = (contents s)(k \<mapsto> take n b) \<or> rc < 0 \<and> contents s' = contents s)"
begin

lemma write_ok:
  assumes "invar s" and "wr k b n s = Inr (rc, s')" and "0 \<le> rc"
  shows "contents s' = (contents s)(k \<mapsto> take n b)" and "invar s'"
  using wr_law [OF assms(1), of k b n] assms(2,3) by auto

lemma write_failed:
  assumes "invar s" and "wr k b n s = Inr (rc, s')" and "rc < 0"
  shows "contents s' = contents s" and "invar s'"
  using wr_law [OF assms(1), of k b n] assms(2,3) by auto

lemma write_then_read:
  assumes "invar s" and "wr k b n s = Inr (rc, s')" and "0 \<le> rc" and "length (take n b) \<le> m"
  shows "\<exists>s''. rd k m s' = Inr ((int (length (take n b)), take n b), s'') \<and>
    contents s'' = contents s'"
proof -
  note w = write_ok [OF assms(1-3)]
  have "contents s' k = Some (take n b)" by (simp add: w(1))
  from rd_present [OF w(2) this assms(4)] show ?thesis by blast
qed

lemma write_two_read_both:
  assumes "invar s" and "k \<noteq> j"
    and "wr k b n s = Inr (rc, s1)" and "0 \<le> rc"
    and "wr j c m s1 = Inr (rc', s2)" and "0 \<le> rc'"
    and "length (take n b) \<le> x" and "length (take m c) \<le> y"
  shows "\<exists>s3. rd k x s2 = Inr ((int (length (take n b)), take n b), s3) \<and>
    (\<exists>s4. rd j y s3 = Inr ((int (length (take m c)), take m c), s4))"
proof -
  note w1 = write_ok [OF assms(1,3,4)]
  note w2 = write_ok [OF w1(2) assms(5,6)]
  have k: "contents s2 k = Some (take n b)" using assms(2) by (simp add: w1(1) w2(1))
  have j: "contents s2 j = Some (take m c)" by (simp add: w2(1))
  obtain s3 where s3: "rd k x s2 = Inr ((int (length (take n b)), take n b), s3)"
    "contents s3 = contents s2" "invar s3"
    using rd_present [OF w2(2) k assms(7)] by blast
  then have "contents s3 j = Some (take m c)" using j by simp
  from rd_present [OF s3(3) this assms(8)] s3(1) show ?thesis by blast
qed

lemma rd_keeps:
  assumes "invar s" and "rd k n s = Inr (x, s')" and "\<forall>v. contents s k = Some v \<longrightarrow> length v \<le> n"
  shows "contents s' = contents s" and "invar s'"
proof -
  have "contents s' = contents s \<and> invar s'"
  proof (cases "contents s k")
    case None
    from rd_absent [OF assms(1) this, of n] assms(2) show ?thesis by auto
  next
    case (Some v)
    with assms(3) have "length v \<le> n" by simp
    from rd_present [OF assms(1) Some this] assms(2) show ?thesis by auto
  qed
  then show "contents s' = contents s" and "invar s'" by simp_all
qed

end

text \<open>The state in which the store obeys its laws: the platform does.\<close>

definition nvs_env_ok :: "'z nvs_scheme \<Rightarrow> bool" where
  "nvs_env_ok s \<longleftrightarrow> settings_ok s \<and> (\<forall>tr. reply s tr SettingsSubsysInit \<noteq> None)"

abbreviation nvs_contents :: "'z nvs_scheme \<Rightarrow> (string \<rightharpoonup> string)" where
  "nvs_contents s \<equiv> store s"

lemma nvs_read_present:
  assumes "nvs_env_ok s" and "store s k = Some v" and "length v \<le> n"
  shows "ob_nvs_data_read k n s =
    Inr ((int (length v), v), s\<lparr>trace := trace s @ [SettingsLoadOne k n]\<rparr>)"
proof -
  have "settings_ok s" using assms(1) by (simp add: nvs_env_ok_def)
  from settings_load [OF this assms(2)] assms(3) show ?thesis
    by (simp add: ob_nvs_data_read_def ext_data_apply)
qed

lemma nvs_read_absent:
  assumes "nvs_env_ok s" and "store s k = None"
  shows "\<exists>rc b. ob_nvs_data_read k n s = Inr ((rc, b), s\<lparr>trace := trace s @ [SettingsLoadOne k n]\<rparr>) \<and> rc < 0"
proof -
  have "settings_ok s" using assms(1) by (simp add: nvs_env_ok_def)
  from settings_load_absent [OF this assms(2)] obtain x where
    "x < 0" "reply s (trace s) (SettingsLoadOne k n) = Some x" by blast
  then show ?thesis by (simp add: ob_nvs_data_read_def ext_data_apply)
qed

lemma nvs_write_law:
  assumes "nvs_env_ok s"
  shows "\<exists>rc s'. ob_nvs_data_write k b n s = Inr (rc, s') \<and> nvs_env_ok s' \<and>
    (rc = 0 \<and> store s' = (store s)(k \<mapsto> take n b) \<or> rc < 0 \<and> store s' = store s)"
proof -
  obtain x where x: "x \<le> 0" "reply s (trace s) (SettingsSaveOne k (take n b)) = Some x"
    using assms settings_save unfolding nvs_env_ok_def by blast
  with assms show ?thesis
    by (cases "x = 0") (simp_all add: ob_nvs_data_write_def nvs_env_ok_def store_step_def)
qed

interpretation nvsi: nvs_store ob_nvs_data_init ob_nvs_data_read ob_nvs_data_write store nvs_env_ok
proof (unfold_locales, goal_cases)
  case (1 s)
  then obtain r where "reply s (trace s) SettingsSubsysInit = Some r"
    by (auto simp: nvs_env_ok_def)
  with 1 show ?case
    by (auto simp: ob_nvs_data_init_def nvs_env_ok_def ext0_apply store_step_def)
next
  case (2 s k v n)
  then show ?case by (simp add: nvs_read_present nvs_env_ok_def store_step_def)
next
  case (3 s k n)
  obtain rc b where "ob_nvs_data_read k n s = Inr ((rc, b), s\<lparr>trace := trace s @ [SettingsLoadOne k n]\<rparr>)"
    "rc < 0" using nvs_read_absent [OF 3] by blast
  with 3(1) show ?case by (auto simp: nvs_env_ok_def store_step_def)
next
  case (4 s k b n)
  then show ?case by (rule nvs_write_law)
qed

end
