(* ===== verification/Ob_Certs.thy ===== *)
theory Ob_Certs
  imports Ob_Nvs
begin

text \<open>
  src/ob_certs.c: the certificates built into the image. The arrays themselves are generated
  by the build, so they are fields of the configuration; a missing array is a null pointer.
\<close>

record certs = nvs +
  certs_initialized :: bool

datatype ob_cert_type = CA_CERT | PUBLIC_CERT | PRIVATE_KEY | SECONDARY_CA_CERT

definition certs_static :: "'z certs_scheme \<Rightarrow> bool" where
  "certs_static s \<longleftrightarrow> \<not> certs_initialized s"

definition init_certs :: "('z certs_scheme, unit) prog" where
  "init_certs = bnd (gets certs_initialized) (\<lambda>i.
     cond (\<not> i) (modify (\<lambda>s. s\<lparr>certs_initialized := True\<rparr>)))"

definition ob_cert_get :: "ob_cert_type \<Rightarrow> ('z certs_scheme, string option) prog" where
  "ob_cert_get type = bnd (gets cfg) (\<lambda>c.
     if CONFIG_ONBOARDING_CERTS_GENERATE_CERTS c then
       thn init_certs (ret (Some
         (case type of
            CA_CERT \<Rightarrow> ca_certificate c
          | PUBLIC_CERT \<Rightarrow> device_certificate c
          | PRIVATE_KEY \<Rightarrow> device_private_key c
          | SECONDARY_CA_CERT \<Rightarrow> ca_certificate c)))
     else ret None)"

definition ob_cert_len :: "ob_cert_type \<Rightarrow> ('z certs_scheme, nat) prog" where
  "ob_cert_len type = bnd (gets cfg) (\<lambda>c.
     if CONFIG_ONBOARDING_CERTS_GENERATE_CERTS c then
       thn init_certs (ret
         (case type of
            CA_CERT \<Rightarrow> length (ca_certificate c)
          | PUBLIC_CERT \<Rightarrow> length (device_certificate c)
          | PRIVATE_KEY \<Rightarrow> length (device_private_key c)
          | SECONDARY_CA_CERT \<Rightarrow> length (ca_certificate c)))
     else ret 0)"

lemmas certs_defs = init_certs_def ob_cert_get_def ob_cert_len_def

lemma init_certs_apply [simp]: "init_certs s = Inr ((), s\<lparr>certs_initialized := True\<rparr>)"
  by (cases "certs_initialized s") (simp_all add: init_certs_def)

text \<open>
  The length a client passes with a certificate is the length of what it passes: both
  functions always return, they agree, and there is no certificate exactly when the build
  generates none.
\<close>

lemma cert_get_len:
  "\<exists>p s1 s2. ob_cert_get type s = Inr (p, s1) \<and> ob_cert_len type s1 = Inr (case_option 0 length p, s2) \<and>
    (p = None \<longleftrightarrow> \<not> CONFIG_ONBOARDING_CERTS_GENERATE_CERTS (cfg s))"
  by (cases type) (simp_all add: ob_cert_get_def ob_cert_len_def)

lemma cert_get_apply:
  "ob_cert_get type s = Inr (p, s') \<Longrightarrow> trace s' = trace s \<and> cfg s' = cfg s \<and> reply s' = reply s"
  by (auto simp: ob_cert_get_def split: if_splits)

end
