(* ===== verification/Ob_Ota.thy ===== *)
theory Ob_Ota
  imports Ob_Certs
begin

text \<open>
  src/ob_ota.c, include/ob_ota.h: the layer over the update providers. A provider is not
  under src/: it registers a table of function pointers, and its init function is an
  argument of \<open>ota_init\<close> (it may set the table and the poll interval).
\<close>

section \<open>Result codes\<close>

datatype ob_ota_result =
    OB_OTA_RES_OK
  | OB_OTA_RES_UPDATE_INSTALLED
  | OB_OTA_RES_NOT_INITIALIZED
  | OB_OTA_RES_HAS_UPDATE
  | OB_OTA_RES_NO_UPDATE
  | OB_OTA_RES_NETWORK_ERROR
  | OB_OTA_RES_INCOMPATIBLE_HARDWARE
  | OB_OTA_RES_PERMISSION_ERROR
  | OB_OTA_RES_UNCONFIRMED_IMAGE
  | OB_OTA_RES_METADATA_ERROR
  | OB_OTA_RES_DOWNLOAD_ERROR
  | OB_OTA_RES_INSTALL_ERROR
  | OB_OTA_RES_FLASH_INIT_ERROR
  | OB_OTA_RES_PROBE_IN_PROGRESS
  | OB_OTA_RES_CANCEL
  | OB_OTA_RES_NO_RESPONSE
  | OB_OTA_RES_UNKNOWN

definition ota_results :: "ob_ota_result list" where
  "ota_results =
     [OB_OTA_RES_OK, OB_OTA_RES_UPDATE_INSTALLED, OB_OTA_RES_NOT_INITIALIZED, OB_OTA_RES_HAS_UPDATE,
      OB_OTA_RES_NO_UPDATE, OB_OTA_RES_NETWORK_ERROR, OB_OTA_RES_INCOMPATIBLE_HARDWARE,
      OB_OTA_RES_PERMISSION_ERROR, OB_OTA_RES_UNCONFIRMED_IMAGE, OB_OTA_RES_METADATA_ERROR,
      OB_OTA_RES_DOWNLOAD_ERROR, OB_OTA_RES_INSTALL_ERROR, OB_OTA_RES_FLASH_INIT_ERROR,
      OB_OTA_RES_PROBE_IN_PROGRESS, OB_OTA_RES_CANCEL, OB_OTA_RES_NO_RESPONSE, OB_OTA_RES_UNKNOWN]"

text \<open>The enumerator of an int a provider returns, if there is one.\<close>

definition ota_result_of :: "int \<Rightarrow> ob_ota_result option" where
  "ota_result_of i =
     (if 0 \<le> i \<and> i < int (length ota_results) then Some (ota_results ! nat i) else None)"

definition ota_code :: "ob_ota_result \<Rightarrow> int" where
  "ota_code r = (case first_index (\<lambda>x. x = r) ota_results of None \<Rightarrow> - 1 | Some i \<Rightarrow> int i)"

lemma ota_result_of_code: "ota_result_of (ota_code r) = Some r"
  by (cases r) (simp_all add: ota_result_of_def ota_code_def ota_results_def)

lemma ota_result_OK [simp]: "ota_result_of 0 = Some OB_OTA_RES_OK"
  by (simp add: ota_result_of_def ota_results_def)

lemma ota_result_OK_iff: "ota_result_of i = Some OB_OTA_RES_OK \<longleftrightarrow> i = 0"
proof
  assume h: "ota_result_of i = Some OB_OTA_RES_OK"
  have "distinct ota_results" by (simp add: ota_results_def)
  moreover have "ota_results ! 0 = OB_OTA_RES_OK" "0 < length ota_results"
    by (simp_all add: ota_results_def)
  ultimately have "nat i = 0"
    using h nth_eq_iff_index_eq [of ota_results "nat i" 0]
    by (auto simp: ota_result_of_def split: if_splits)
  with h show "i = 0" by (auto simp: ota_result_of_def split: if_splits)
qed simp

section \<open>State and operations\<close>

record ob_ota_vtable =
  ob_ota_autohandler :: "fnptr option"
  ob_ota_confirm :: "fnptr option"
  ob_ota_probe :: "fnptr option"
  ob_ota_update :: "fnptr option"
  ob_ota_reboot :: "fnptr option"
  ob_dt_set_fn :: "fnptr option"

record ota = certs +
  ota_poll_interval :: int
  ota_vtable :: "ob_ota_vtable option"

definition ota_static :: "'z ota_scheme \<Rightarrow> bool" where
  "ota_static s \<longleftrightarrow> ota_poll_interval s = 0 \<and> ota_vtable s = None"

definition ota_set_vtable :: "ob_ota_vtable option \<Rightarrow> ('z ota_scheme, unit) prog" where
  "ota_set_vtable table = modify (\<lambda>s. s\<lparr>ota_vtable := table\<rparr>)"

definition ota_set_poll_interval :: "int \<Rightarrow> ('z ota_scheme, unit) prog" where
  "ota_set_poll_interval interval = modify (\<lambda>s. s\<lparr>ota_poll_interval := interval\<rparr>)"

text \<open>\<open>ota_vtable->f\<close> and a call through the pointer found there.\<close>

definition the_vtable :: "('z ota_scheme, ob_ota_vtable) prog" where
  "the_vtable = bnd (gets ota_vtable) (\<lambda>v. case v of None \<Rightarrow> halted NullDeref | Some t \<Rightarrow> ret t)"

definition call_ptr :: "fnptr option \<Rightarrow> ('z kern_scheme, int) prog" where
  "call_ptr p = (case p of None \<Rightarrow> halted NullCall | Some f \<Rightarrow> ext (CallPtr f))"

definition ota_reboot :: "('z ota_scheme, unit) prog" where
  "ota_reboot = bnd (gets ota_vtable) (\<lambda>v.
     case v of
       None \<Rightarrow> ext0 SysReboot
     | Some t \<Rightarrow> (case ob_ota_reboot t of
           None \<Rightarrow> ext0 SysReboot
         | Some f \<Rightarrow> ext0 (CallPtr f)))"

definition ota_do_update :: "('z ota_scheme, bool) prog" where
  "ota_do_update =
     bnd the_vtable (\<lambda>t. bnd (call_ptr (ob_ota_update t)) (\<lambda>first.
     if first \<noteq> 0 then
       bnd the_vtable (\<lambda>t. bnd (call_ptr (ob_ota_update t)) (\<lambda>status.
       case ota_result_of status of
         Some OB_OTA_RES_OK \<Rightarrow> thn ota_reboot (ret True)
       | _ \<Rightarrow> ret False))
     else ret False))"

definition ota_init :: "(string \<Rightarrow> ('z ota_scheme, bool) prog) \<Rightarrow> ('z ota_scheme, bool) prog" where
  "ota_init provider_init =
     bnd (gets (\<lambda>s. CONFIG_ONBOARDING_OTA_PROVIDER (cfg s))) (\<lambda>p.
     bnd (case p of None \<Rightarrow> ret True | Some name \<Rightarrow> provider_init name) (\<lambda>rc.
     if \<not> rc then ret False
     else bnd (gets ota_vtable) (\<lambda>v. case v of None \<Rightarrow> ret False | Some t \<Rightarrow>
       thn (case ob_ota_confirm t of None \<Rightarrow> ret () | Some f \<Rightarrow> ext0 (CallPtr f))
       (bnd (gets ota_poll_interval) (\<lambda>interval.
        if interval > 0 then
          bnd the_vtable (\<lambda>t.
          thn (case ob_ota_autohandler t of None \<Rightarrow> ret () | Some f \<Rightarrow> ext0 (CallPtr f)) (ret rc))
        else
          bnd the_vtable (\<lambda>t. case ob_ota_probe t of
            None \<Rightarrow> ret rc
          | Some f \<Rightarrow> bnd (ext (CallPtr f)) (\<lambda>status.
              case ota_result_of status of
                Some OB_OTA_RES_HAS_UPDATE \<Rightarrow> ota_do_update
              | Some OB_OTA_RES_NO_UPDATE \<Rightarrow> ret rc
              | _ \<Rightarrow> ret False)))))))"

definition ob_dt_set :: "string \<Rightarrow> string \<Rightarrow> ('z ota_scheme, int) prog" where
  "ob_dt_set key val = bnd the_vtable (\<lambda>t.
     case ob_dt_set_fn t of None \<Rightarrow> ret (- 1) | Some f \<Rightarrow> ext (CallPtr2 f key val))"

lemmas ota_defs = ota_set_vtable_def ota_set_poll_interval_def the_vtable_def call_ptr_def
  ota_reboot_def ota_do_update_def ob_dt_set_def

lemma the_vtable_Some [simp]: "ota_vtable s = Some t \<Longrightarrow> the_vtable s = Inr (t, s)"
  by (simp add: the_vtable_def)

lemma the_vtable_None [simp]: "ota_vtable s = None \<Longrightarrow> the_vtable s = Inl (NullDeref, s)"
  by (simp add: the_vtable_def)

section \<open>The update\<close>

text \<open>
  An update whose first call reports success is not seen as one: the source calls the
  provider again only when the first call returned nonzero.
\<close>

lemma ota_do_update_first_ok:
  assumes "ota_vtable s = Some t" and "ob_ota_update t = Some f"
    and "reply s (trace s) (CallPtr f) = Some (ota_code OB_OTA_RES_OK)"
  shows "ota_do_update s = Inr (False, s\<lparr>trace := trace s @ [CallPtr f]\<rparr>)"
  using assms by (simp add: ota_do_update_def call_ptr_def ota_code_def ota_results_def)

lemma ota_do_update_true:
  assumes "ota_do_update s = Inr (True, s')"
  shows "\<exists>t f r x. ota_vtable s = Some t \<and> ob_ota_update t = Some f \<and>
    reply s (trace s) (CallPtr f) = Some x \<and> x \<noteq> 0 \<and>
    reply s (trace s @ [CallPtr f]) (CallPtr f) = Some 0 \<and>
    trace s' = trace s @ [CallPtr f, CallPtr f, r] \<and>
    r = (case ob_ota_reboot t of None \<Rightarrow> SysReboot | Some g \<Rightarrow> CallPtr g)"
  using assms
  by (cases "ota_vtable s")
    (auto simp: ota_do_update_def call_ptr_def ota_reboot_def ext_apply ext0_apply ota_result_OK_iff
      split: option.splits if_splits ob_ota_result.splits)

section \<open>Start-up\<close>

text \<open>What the result of a probe means for \<open>ota_init\<close>.\<close>

definition probe_verdict :: "int \<Rightarrow> bool option" where
  "probe_verdict status =
     (if status = ota_code OB_OTA_RES_HAS_UPDATE then None
      else Some (status = ota_code OB_OTA_RES_NO_UPDATE))"

lemma ota_result_of_inj:
  "ota_result_of i = Some r \<Longrightarrow> i = ota_code r"
proof -
  assume h: "ota_result_of i = Some r"
  then have i: "0 \<le> i" "nat i < length ota_results" "ota_results ! nat i = r"
    by (auto simp: ota_result_of_def split: if_splits)
  obtain j where j: "first_index (\<lambda>x. x = r) ota_results = Some j"
    using i(2,3) first_index_None [of "\<lambda>x. x = r" ota_results] nth_mem by (metis option.exhaust)
  then have "j < length ota_results" "ota_results ! j = r" by (auto simp: first_index_Some)
  moreover have "distinct ota_results" by (simp add: ota_results_def)
  ultimately have "j = nat i" using i(2,3) nth_eq_iff_index_eq by blast
  with j i(1) show ?thesis by (simp add: ota_code_def)
qed

lemma ota_init_probe:
  assumes "CONFIG_ONBOARDING_OTA_PROVIDER (cfg s) = None" and "ota_vtable s = Some t"
    and "ob_ota_confirm t = None" and "ota_poll_interval s \<le> 0" and "ob_ota_probe t = Some f"
    and "reply s (trace s) (CallPtr f) = Some status"
  shows "ota_init provider s = (case probe_verdict status of
      Some b \<Rightarrow> Inr (b, s\<lparr>trace := trace s @ [CallPtr f]\<rparr>)
    | None \<Rightarrow> ota_do_update (s\<lparr>trace := trace s @ [CallPtr f]\<rparr>))"
proof (cases "ota_result_of status")
  case None
  then have "status \<noteq> ota_code OB_OTA_RES_HAS_UPDATE" "status \<noteq> ota_code OB_OTA_RES_NO_UPDATE"
    using ota_result_of_code by auto
  with None assms show ?thesis by (simp add: ota_init_def probe_verdict_def)
next
  case (Some r)
  then have st: "status = ota_code r" by (rule ota_result_of_inj)
  with assms Some show ?thesis
    by (cases r) (simp_all add: ota_init_def probe_verdict_def ota_code_def ota_results_def)
qed

text \<open>In polling mode only the confirm and the automatic handler are called.\<close>

lemma ota_init_polling:
  assumes "CONFIG_ONBOARDING_OTA_PROVIDER (cfg s) = None" and "ota_vtable s = Some t"
    and "ota_poll_interval s > 0" and "responsive s"
  shows "ota_init provider s = Inr (True, s\<lparr>trace := trace s @
    map CallPtr (List.map_filter id [ob_ota_confirm t, ob_ota_autohandler t])\<rparr>)"
proof -
  obtain q where q: "\<And>tr f. reply s tr (CallPtr f) = Some (q tr f)"
    using that [of "\<lambda>tr f. the (reply s tr (CallPtr f))"] assms(4) by (auto simp: replies_def)
  show ?thesis
    using assms
    by (cases "ob_ota_confirm t"; cases "ob_ota_autohandler t")
      (simp_all add: ota_init_def ext0_apply q List.map_filter_def)
qed

end
