(* ===== verification/Ob_Ssid.thy ===== *)
theory Ob_Ssid
  imports Ob_Ota
begin

text \<open>
  src/ob_wifi.c, the list of discovered networks: nodes on the C heap linked by \<open>next\<close>, with
  a head and a tail pointer. The heap is a map from addresses to nodes; a node that was
  freed is no longer in it, and a use of it halts. The abstract view is the list of
  networks, and the operations refine operations on that list.
\<close>

section \<open>State and operations\<close>

record ssid_item =
  it_next :: nat            \<comment> \<open>0 is NULL\<close>
  it_ssid :: string         \<comment> \<open>the array allocated for the name\<close>
  it_len :: nat
  it_signal_strength :: int
  it_security :: bool

record ssids = ota +
  ssid_heap :: "nat \<rightharpoonup> ssid_item"
  ssid_head :: nat
  ssid_tail :: nat

definition load_item :: "nat \<Rightarrow> ('z ssids_scheme, ssid_item) prog" where
  "load_item p = (if p = 0 then halted NullDeref
     else bnd (gets (\<lambda>s. ssid_heap s p)) (\<lambda>i. case i of None \<Rightarrow> halted UseAfterFree | Some i \<Rightarrow> ret i))"

definition store_item :: "nat \<Rightarrow> ssid_item \<Rightarrow> ('z ssids_scheme, unit) prog" where
  "store_item p i = modify (\<lambda>s. s\<lparr>ssid_heap := (ssid_heap s)(p \<mapsto> i)\<rparr>)"

definition free_item :: "nat \<Rightarrow> ('z ssids_scheme, unit) prog" where
  "free_item p = modify (\<lambda>s. s\<lparr>ssid_heap := (ssid_heap s)(p := None)\<rparr>)"

text \<open>
  The recursion of \<open>ssid_free_item\<close> follows \<open>next\<close>; the first argument is the stack it may
  use. On a list of the heap \<open>Suc brk\<close> is enough, which is what its caller gives it.
\<close>

fun ssid_free_item :: "nat \<Rightarrow> nat \<Rightarrow> ('z ssids_scheme, unit) prog" where
  "ssid_free_item 0 it = halted NoReturn"
| "ssid_free_item (Suc n) it =
     (if it = 0 then ret ()
      else bnd (load_item it) (\<lambda>i. thn (ssid_free_item n (it_next i)) (free_item it)))"

definition ssid_init_list :: "('z ssids_scheme, unit) prog" where
  "ssid_init_list =
     bnd (gets brk) (\<lambda>b. bnd (gets ssid_head) (\<lambda>h.
     thn (ssid_free_item (Suc b) h)
       (modify (\<lambda>s. s\<lparr>ssid_head := 0, ssid_tail := 0\<rparr>))))"

text \<open>The search loop: the first node whose name agrees on \<open>ssid_length\<close> characters, or NULL.\<close>

fun ssid_find :: "nat \<Rightarrow> string \<Rightarrow> nat \<Rightarrow> nat \<Rightarrow> ('z ssids_scheme, nat) prog" where
  "ssid_find 0 ssid ssid_length it = halted NoReturn"
| "ssid_find (Suc n) ssid ssid_length it =
     (if it = 0 then ret 0
      else bnd (load_item it) (\<lambda>i.
        if strncmp_eq ssid (it_ssid i) ssid_length then ret it
        else ssid_find n ssid ssid_length (it_next i)))"

definition ssid_add_item :: "string \<Rightarrow> nat \<Rightarrow> bool \<Rightarrow> int \<Rightarrow> ('z ssids_scheme, unit) prog" where
  "ssid_add_item ssid ssid_length security signal_strength =
     bnd (gets brk) (\<lambda>b. bnd (gets ssid_head) (\<lambda>h.
     bnd (ssid_find (Suc b) ssid ssid_length h) (\<lambda>it.
     if it \<noteq> 0 then ret ()
     else bnd (malloc 20) (\<lambda>it.
       if it = 0 then ret ()
       else thn (store_item it \<lparr>it_next = 0, it_ssid = [], it_len = 0,
                   it_signal_strength = 0, it_security = False\<rparr>)
       (bnd (malloc (ssid_length + 1)) (\<lambda>buf.
         if buf = 0 then free_item it
         else
           thn (store_item it \<lparr>it_next = 0, it_ssid = strncpy_buf ssid_length ssid @ [NUL],
                  it_len = ssid_length, it_signal_strength = signal_strength, it_security = security\<rparr>)
           (bnd (gets ssid_head) (\<lambda>h.
            if h = 0 then modify (\<lambda>s. s\<lparr>ssid_head := it, ssid_tail := it\<rparr>)
            else bnd (gets ssid_tail) (\<lambda>t. bnd (load_item t) (\<lambda>i.
              thn (store_item t (i\<lparr>it_next := it\<rparr>))
                (modify (\<lambda>s. s\<lparr>ssid_tail := it\<rparr>))))))))))))"

section \<open>The list in the heap\<close>

primrec chain :: "(nat \<rightharpoonup> ssid_item) \<Rightarrow> nat \<Rightarrow> nat list \<Rightarrow> bool" where
  "chain h p [] \<longleftrightarrow> p = 0"
| "chain h p (a # as) \<longleftrightarrow> p = a \<and> a \<noteq> 0 \<and> (\<exists>i. h a = Some i \<and> chain h (it_next i) as)"

lemma chain_mem: "chain h p as \<Longrightarrow> a \<in> set as \<Longrightarrow> a \<noteq> 0 \<and> h a \<noteq> None"
  by (induction as arbitrary: p) auto

lemma chain_cong: "chain h p as \<Longrightarrow> (\<And>a. a \<in> set as \<Longrightarrow> h' a = h a) \<Longrightarrow> chain h' p as"
  by (induction as arbitrary: p) auto

lemma chain_unique: "chain h p as \<Longrightarrow> chain h p bs \<Longrightarrow> as = bs"
proof (induction as arbitrary: p bs)
  case Nil
  then show ?case by (cases bs) auto
next
  case (Cons a as)
  then show ?case by (cases bs) auto
qed

lemma chain_upd_fresh: "chain h p as \<Longrightarrow> a \<notin> set as \<Longrightarrow> chain (h(a := v)) p as"
  by (erule chain_cong) (simp add: fun_upd_def, blast)

lemma chain_head: "chain h p as \<Longrightarrow> p = (case as of [] \<Rightarrow> 0 | a # _ \<Rightarrow> a)"
  by (cases as) auto

text \<open>Linking a fresh last node behind the old last one.\<close>

lemma chain_snoc:
  assumes "chain h p (as @ [t])" and "distinct (as @ [t])" and "n \<notin> set (as @ [t])" and "n \<noteq> 0"
    and "h n = Some i" and "it_next i = 0" and "h t = Some j"
  shows "chain (h(t \<mapsto> j\<lparr>it_next := n\<rparr>)) p (as @ [t, n])"
  using assms
proof (induction as arbitrary: p)
  case Nil
  then show ?case by auto
next
  case (Cons a as)
  from Cons.prems(1) obtain k where k: "p = a" "a \<noteq> 0" "h a = Some k" "chain h (it_next k) (as @ [t])"
    by auto
  have "chain (h(t \<mapsto> j\<lparr>it_next := n\<rparr>)) (it_next k) (as @ [t, n])"
    by (rule Cons.IH [OF k(4)]) (use Cons.prems in auto)
  moreover have "(h(t \<mapsto> j\<lparr>it_next := n\<rparr>)) a = Some k" using k Cons.prems(2) by auto
  ultimately show ?case using k(1,2) by (simp only: append_Cons chain.simps) blast
qed

text \<open>
  A network as a client sees it, and the relation between the heap and the list of networks:
  the nodes are the whole heap, the tail pointer is the last node.
\<close>

record ap =
  ap_name :: string
  ap_len :: nat
  ap_strength :: int
  ap_secure :: bool

definition ap_of :: "ssid_item \<Rightarrow> ap" where
  "ap_of i = \<lparr>ap_name = cstr (it_ssid i), ap_len = it_len i,
     ap_strength = it_signal_strength i, ap_secure = it_security i\<rparr>"

definition ssid_rep :: "'z ssids_scheme \<Rightarrow> nat list \<Rightarrow> bool" where
  "ssid_rep s as \<longleftrightarrow> chain (ssid_heap s) (ssid_head s) as \<and> distinct as \<and>
     dom (ssid_heap s) = set as \<and> (\<forall>a \<in> set as. a \<le> brk s) \<and>
     (\<forall>a \<in> set as. terminated (it_ssid (the (ssid_heap s a)))) \<and>
     ssid_tail s = (if as = [] then 0 else last as)"

definition aps_at :: "(nat \<rightharpoonup> ssid_item) \<Rightarrow> nat list \<Rightarrow> ap list" where
  "aps_at h as = map (\<lambda>a. ap_of (the (h a))) as"

definition ssid_models :: "'z ssids_scheme \<Rightarrow> ap list \<Rightarrow> bool" where
  "ssid_models s l \<longleftrightarrow> (\<exists>as. ssid_rep s as \<and> aps_at (ssid_heap s) as = l)"

lemma ssid_rep_length: "ssid_rep s as \<Longrightarrow> length as \<le> brk s"
proof -
  assume r: "ssid_rep s as"
  then have "chain (ssid_heap s) (ssid_head s) as" "\<forall>a \<in> set as. a \<le> brk s"
    by (simp_all add: ssid_rep_def)
  then have "set as \<subseteq> {1..brk s}"
    using chain_mem [of "ssid_heap s" "ssid_head s" as] by (auto simp: Suc_le_eq)
  from card_mono [OF _ this] have "card (set as) \<le> brk s" by simp
  with r show ?thesis by (simp add: ssid_rep_def distinct_card)
qed

lemma ssid_rep_trace [simp]: "ssid_rep (s\<lparr>trace := t\<rparr>) as = ssid_rep s as"
  by (simp add: ssid_rep_def)

lemma ssid_rep_brk: "ssid_rep s as \<Longrightarrow> brk s \<le> b \<Longrightarrow> ssid_rep (s\<lparr>brk := b\<rparr>) as"
  by (auto simp: ssid_rep_def)

lemma ssid_models_unique: "ssid_models s l \<Longrightarrow> ssid_models s l' \<Longrightarrow> l = l'"
proof -
  assume "ssid_models s l" and "ssid_models s l'"
  then obtain as bs where "ssid_rep s as" "aps_at (ssid_heap s) as = l"
    "ssid_rep s bs" "aps_at (ssid_heap s) bs = l'"
    by (auto simp: ssid_models_def)
  moreover from this have "as = bs"
    unfolding ssid_rep_def by (blast intro: chain_unique)
  ultimately show "l = l'" by simp
qed

section \<open>Freeing the list\<close>

lemma ssid_free_chain:
  assumes "chain (ssid_heap s) p as" and "distinct as" and "length as < n"
  shows "ssid_free_item n p s = Inr ((), s\<lparr>ssid_heap := ssid_heap s |` (- set as)\<rparr>)"
  using assms
proof (induction as arbitrary: p n)
  case Nil
  then show ?case by (cases n) auto
next
  case (Cons a as)
  then obtain m i where "n = Suc m" "p = a" "a \<noteq> 0" "ssid_heap s a = Some i"
    "chain (ssid_heap s) (it_next i) as" "length as < m" "distinct as"
    by (cases n) auto
  moreover from this have "ssid_free_item m (it_next i) s =
      Inr ((), s\<lparr>ssid_heap := ssid_heap s |` (- set as)\<rparr>)"
    using Cons.IH by blast
  moreover have "(ssid_heap s |` (- set as))(a := None) = ssid_heap s |` (- set (a # as))"
    by (rule HOL.ext) (auto simp: restrict_map_def)
  ultimately show ?case by (simp add: load_item_def free_item_def)
qed

lemma ssid_init_list_rep:
  assumes "ssid_rep s as"
  shows "ssid_init_list s =
    Inr ((), s\<lparr>ssid_heap := Map.empty, ssid_head := 0, ssid_tail := 0\<rparr>)"
proof -
  have "ssid_heap s |` (- set as) = Map.empty"
    using assms by (auto simp: ssid_rep_def restrict_map_def dom_def intro!: HOL.ext)
  moreover have "ssid_free_item (Suc (brk s)) (ssid_head s) s =
      Inr ((), s\<lparr>ssid_heap := ssid_heap s |` (- set as)\<rparr>)"
    by (rule ssid_free_chain)
      (use assms ssid_rep_length [OF assms] in \<open>auto simp: ssid_rep_def less_Suc_eq_le\<close>)
  ultimately show ?thesis by (simp add: ssid_init_list_def)
qed

lemma ssid_init_list_models:
  assumes "ssid_models s l"
  shows "\<exists>s'. ssid_init_list s = Inr ((), s') \<and> ssid_models s' []"
proof -
  obtain as where "ssid_rep s as" using assms by (auto simp: ssid_models_def)
  from ssid_init_list_rep [OF this] show ?thesis
    by (auto simp: ssid_models_def ssid_rep_def aps_at_def intro!: exI [of _ "[]"])
qed

section \<open>Adding a network\<close>

lemma strncmp_ap_of [simp]: "strncmp_eq x (ap_name (ap_of i)) n = strncmp_eq x (it_ssid i) n"
  by (simp add: strncmp_eq_def ap_of_def)

lemma ssid_find_chain:
  assumes "chain (ssid_heap s) p as" and "length as < n"
  shows "ssid_find n x len p s = Inr (case find (\<lambda>a. strncmp_eq x (it_ssid (the (ssid_heap s a))) len) as of
    None \<Rightarrow> 0 | Some a \<Rightarrow> a, s)"
  using assms
proof (induction as arbitrary: p n)
  case Nil
  then show ?case by (cases n) auto
next
  case (Cons a as)
  then obtain m i where "n = Suc m" "p = a" "a \<noteq> 0" "ssid_heap s a = Some i"
    "chain (ssid_heap s) (it_next i) as" "length as < m"
    by (cases n) auto
  then show ?case using Cons.IH by (simp add: load_item_def)
qed

text \<open>The operation on the list of networks.\<close>

definition ap_listed :: "string \<Rightarrow> nat \<Rightarrow> ap list \<Rightarrow> bool" where
  "ap_listed x n l \<longleftrightarrow> (\<exists>a \<in> set l. strncmp_eq x (ap_name a) n)"

definition ap_new :: "string \<Rightarrow> nat \<Rightarrow> bool \<Rightarrow> int \<Rightarrow> ap" where
  "ap_new x n sec strength =
     \<lparr>ap_name = take n (cstr x), ap_len = n, ap_strength = strength, ap_secure = sec\<rparr>"

definition ap_add :: "string \<Rightarrow> nat \<Rightarrow> bool \<Rightarrow> int \<Rightarrow> ap list \<Rightarrow> ap list" where
  "ap_add x n sec strength l = (if ap_listed x n l then l else l @ [ap_new x n sec strength])"

lemma cstr_new_item [simp]: "cstr (strncpy_buf n x @ [NUL]) = take n (cstr x)"
proof -
  have "cstr (b @ [NUL]) = cstr b" for b by (induction b) auto
  then show ?thesis by simp
qed

text \<open>
  A node put behind the list; the heap is the old one but for the link and the new node.
\<close>

lemma ssid_rep_link:
  assumes r: "ssid_rep s as" and n: "n \<notin> set as" "n \<noteq> 0" "n \<le> b" "brk s \<le> b" and i: "it_next i = 0" "terminated (it_ssid i)"
    and t: "as \<noteq> []" "ssid_heap s (last as) = Some j"
  defines "h' \<equiv> (ssid_heap s)(n \<mapsto> i, last as \<mapsto> j\<lparr>it_next := n\<rparr>)"
  shows "ssid_rep (s\<lparr>ssid_heap := h', ssid_tail := n, brk := b\<rparr>) (as @ [n])"
    and "aps_at h' (as @ [n]) = aps_at (ssid_heap s) as @ [ap_of i]"
proof -
  obtain bs l where as: "as = bs @ [l]" using t(1) by (cases as rule: rev_cases) auto
  have "chain ((ssid_heap s)(n \<mapsto> i)) (ssid_head s) as"
    using r n(1) by (intro chain_upd_fresh) (simp_all add: ssid_rep_def)
  then have "chain h' (ssid_head s) (bs @ [l, n])"
    unfolding h'_def as last_snoc
    by (intro chain_snoc [where i = i]) (use r n i t as in \<open>auto simp: ssid_rep_def\<close>)
  moreover have "dom h' = insert n (set as)"
    using r t by (auto simp: h'_def ssid_rep_def)
  moreover have "terminated (it_ssid (the (h' a)))" if "a \<in> set (as @ [n])" for a
  proof (cases "a = n \<or> a = last as")
    case True
    have "terminated (it_ssid j)" using r t last_in_set [OF t(1)] by (metis option.sel ssid_rep_def)
    with True i(2) n(1) t(1) show ?thesis by (auto simp: h'_def)
  next
    case False
    with that r show ?thesis by (simp add: h'_def ssid_rep_def)
  qed
  ultimately show "ssid_rep (s\<lparr>ssid_heap := h', ssid_tail := n, brk := b\<rparr>) (as @ [n])"
    using r n as by (auto simp: ssid_rep_def)
  have "ap_of (the (h' a)) = ap_of (the (ssid_heap s a))" if "a \<in> set as" for a
    using that n(1) t(2) by (auto simp: h'_def ap_of_def)
  moreover have "h' n = Some i" using n(1) as by (auto simp: h'_def)
  ultimately show "aps_at h' (as @ [n]) = aps_at (ssid_heap s) as @ [ap_of i]"
    by (simp add: aps_at_def)
qed

lemma ssid_rep_first:
  assumes "ssid_rep s []" and "n \<noteq> 0" "n \<le> b" and "it_next i = 0" "terminated (it_ssid i)"
  shows "ssid_rep (s\<lparr>ssid_heap := (ssid_heap s)(n \<mapsto> i), ssid_head := n, ssid_tail := n, brk := b\<rparr>) [n]"
    and "aps_at ((ssid_heap s)(n \<mapsto> i)) [n] = [ap_of i]"
  using assms by (auto simp: ssid_rep_def aps_at_def)

lemma ssid_search:
  assumes "ssid_rep s as"
  shows "\<exists>it. ssid_find (Suc (brk s)) x n (ssid_head s) s = Inr (it, s) \<and>
    (it = 0 \<longleftrightarrow> \<not> ap_listed x n (aps_at (ssid_heap s) as))"
proof -
  let ?P = "\<lambda>a. strncmp_eq x (it_ssid (the (ssid_heap s a))) n"
  have c: "chain (ssid_heap s) (ssid_head s) as" using assms by (simp add: ssid_rep_def)
  have "ap_listed x n (aps_at (ssid_heap s) as) \<longleftrightarrow> (\<exists>a \<in> set as. ?P a)"
    by (auto simp: ap_listed_def aps_at_def)
  moreover have "a \<noteq> 0" if "find ?P as = Some a" for a
    using chain_mem [OF c, of a] that by (auto simp: find_Some_iff)
  moreover have "find ?P as = None \<longleftrightarrow> \<not> (\<exists>a \<in> set as. ?P a)" by (auto simp: find_None_iff)
  ultimately show ?thesis
    using ssid_find_chain [OF c, of "Suc (brk s)" x n] ssid_rep_length [OF assms]
    by (auto split: option.split)
qed

text \<open>Both allocations have an answer, yes or no.\<close>

definition has_memory :: "(call list \<Rightarrow> call \<Rightarrow> int option) \<Rightarrow> bool" where
  "has_memory r \<longleftrightarrow> (\<forall>tr n. r tr (Malloc n) \<noteq> Some 0)"

lemma malloc_apply:
  "malloc n s = (case reply s (trace s) (Malloc n) of
     None \<Rightarrow> Inl (NoReturn, s\<lparr>trace := trace s @ [Malloc n]\<rparr>)
   | Some r \<Rightarrow> if r = 0 then Inr (0, s\<lparr>trace := trace s @ [Malloc n]\<rparr>)
       else Inr (Suc (brk s), s\<lparr>trace := trace s @ [Malloc n], brk := Suc (brk s)\<rparr>))"
  by (simp add: malloc_def ext_apply split: option.split)

lemma ssid_rep_fresh: "ssid_rep s as \<Longrightarrow> brk s < a \<Longrightarrow> a \<notin> set as \<and> ssid_heap s a = None"
  unfolding ssid_rep_def by (metis domIff leD)

lemma ssid_models_trace: "ssid_models s l \<Longrightarrow> ssid_models (s\<lparr>trace := t\<rparr>) l"
  by (simp add: ssid_models_def)

text \<open>What is left to do once both allocations have succeeded.\<close>

lemma ssid_add_item_link:
  assumes r: "ssid_rep s as" and nl: "\<not> ap_listed x n (aps_at (ssid_heap s) as)"
    and m1: "reply s (trace s) (Malloc 20) = Some r1" "r1 \<noteq> 0"
    and m2: "reply s (trace s @ [Malloc 20]) (Malloc (n + 1)) = Some r2" "r2 \<noteq> 0"
  shows "\<exists>s'. ssid_add_item x n sec str s = Inr ((), s') \<and> reply s' = reply s \<and>
    ssid_models s' (aps_at (ssid_heap s) as @ [ap_new x n sec str])"
proof -
  let ?i = "\<lparr>it_next = 0, it_ssid = strncpy_buf n x @ [NUL], it_len = n,
      it_signal_strength = str, it_security = sec\<rparr>"
  let ?a = "Suc (brk s)"
  let ?t = "trace s @ [Malloc 20, Malloc (Suc n)]"
  have new: "ap_of ?i = ap_new x n sec str" by (simp add: ap_of_def ap_new_def)
  have end_i: "terminated (it_ssid ?i)" by (simp add: terminated_def)
  have fresh: "?a \<notin> set as" "ssid_heap s ?a = None" using ssid_rep_fresh [OF r, of ?a] by auto
  obtain it where find: "ssid_find (Suc (brk s)) x n (ssid_head s) s = Inr (it, s)" "it = 0"
    using ssid_search [OF r, of x n] nl by auto
  have head: "ssid_head s = (case as of [] \<Rightarrow> 0 | a # _ \<Rightarrow> a)"
    using r chain_head by (auto simp: ssid_rep_def)
  show ?thesis
  proof (cases "as = []")
    case True
    have "ssid_rep (s\<lparr>trace := ?t, brk := Suc ?a, ssid_heap := (ssid_heap s)(?a \<mapsto> ?i),
        ssid_head := ?a, ssid_tail := ?a\<rparr>) [?a]"
      using ssid_rep_first(1) [of s ?a "Suc ?a" ?i] r True end_i by (simp add: ssid_rep_def)
    moreover have "aps_at ((ssid_heap s)(?a \<mapsto> ?i)) [?a] = [ap_new x n sec str]"
      by (simp add: aps_at_def new)
    ultimately have "ssid_models (s\<lparr>trace := ?t, brk := Suc ?a, ssid_heap := (ssid_heap s)(?a \<mapsto> ?i),
        ssid_head := ?a, ssid_tail := ?a\<rparr>) (aps_at (ssid_heap s) as @ [ap_new x n sec str])"
      unfolding ssid_models_def using True by (intro exI [of _ "[?a]"]) (simp add: aps_at_def)
    then show ?thesis
      using find m1 m2 head True by (simp add: ssid_add_item_def malloc_apply store_item_def)
  next
    case False
    then have "last as \<in> set as" by simp
    then obtain j where j: "ssid_heap s (last as) = Some j" "last as \<noteq> 0"
      using r chain_mem unfolding ssid_rep_def by blast
    have la: "last as \<noteq> ?a" using fresh \<open>last as \<in> set as\<close> by metis
    have tl: "ssid_tail s = last as" using r False by (simp add: ssid_rep_def)
    let ?h = "(ssid_heap s)(?a \<mapsto> ?i, last as \<mapsto> j\<lparr>it_next := ?a\<rparr>)"
    have rep: "ssid_rep (s\<lparr>ssid_heap := ?h, ssid_tail := ?a, brk := Suc ?a\<rparr>) (as @ [?a])"
      by (rule ssid_rep_link(1) [OF r fresh(1)]) (use False j end_i in auto)
    have aps: "aps_at ?h (as @ [?a]) = aps_at (ssid_heap s) as @ [ap_of ?i]"
      by (rule ssid_rep_link(2) [OF r fresh(1), of "Suc ?a"]) (use False j end_i in auto)
    have "ssid_models (s\<lparr>trace := ?t, brk := Suc ?a, ssid_heap := ?h, ssid_tail := ?a\<rparr>)
        (aps_at (ssid_heap s) as @ [ap_new x n sec str])"
      unfolding ssid_models_def
      by (intro exI [of _ "as @ [?a]"]) (use rep aps new in \<open>simp add: ssid_rep_def\<close>)
    moreover have "ssid_head s \<noteq> 0"
      using head False r chain_mem [of "ssid_heap s" "ssid_head s" as]
      by (cases as) (auto simp: ssid_rep_def)
    ultimately show ?thesis
      using find m1 m2 tl j la
      by (simp add: ssid_add_item_def malloc_apply store_item_def load_item_def)
  qed
qed

lemma ssid_add_item_models:
  assumes "ssid_models s l" and "responsive s"
  shows "\<exists>s' l'. ssid_add_item x n sec str s = Inr ((), s') \<and> ssid_models s' l' \<and> reply s' = reply s \<and>
    (l' = l \<or> l' = ap_add x n sec str l) \<and> (has_memory (reply s) \<longrightarrow> l' = ap_add x n sec str l)"
proof -
  obtain as where r: "ssid_rep s as" "aps_at (ssid_heap s) as = l"
    using assms(1) by (auto simp: ssid_models_def)
  obtain it where find: "ssid_find (Suc (brk s)) x n (ssid_head s) s = Inr (it, s)"
    "it = 0 \<longleftrightarrow> \<not> ap_listed x n l"
    using ssid_search [OF r(1), of x n] r(2) by auto
  obtain r1 where m1: "reply s (trace s) (Malloc 20) = Some r1"
    using assms(2) by (auto elim: repliesE)
  obtain r2 where m2: "reply s (trace s @ [Malloc 20]) (Malloc (n + 1)) = Some r2"
    using assms(2) by (auto elim: repliesE)
  let ?a = "Suc (brk s)"
  have fresh: "(ssid_heap s)(?a := None) = ssid_heap s"
    using ssid_rep_fresh [OF r(1), of ?a] by auto
  consider "ap_listed x n l" | "\<not> ap_listed x n l" "r1 = 0" | "\<not> ap_listed x n l" "r1 \<noteq> 0" "r2 = 0"
    | "\<not> ap_listed x n l" "r1 \<noteq> 0" "r2 \<noteq> 0" by blast
  then show ?thesis
  proof cases
    case 1
    with find assms show ?thesis by (simp add: ssid_add_item_def ap_add_def)
  next
    case 2
    with find m1 assms have "ssid_add_item x n sec str s = Inr ((), s\<lparr>trace := trace s @ [Malloc 20]\<rparr>)"
      by (simp add: ssid_add_item_def malloc_apply)
    with 2 m1 ssid_models_trace [OF assms(1)] show ?thesis by (auto simp: has_memory_def)
  next
    case 3
    with find m1 m2 fresh have "ssid_add_item x n sec str s =
        Inr ((), s\<lparr>trace := trace s @ [Malloc 20, Malloc (n + 1)], brk := ?a\<rparr>)"
      by (simp add: ssid_add_item_def malloc_apply store_item_def free_item_def)
    moreover have "ssid_models (s\<lparr>trace := trace s @ [Malloc 20, Malloc (n + 1)], brk := ?a\<rparr>) l"
      using ssid_rep_brk [OF r(1), of ?a] r(2) by (auto simp: ssid_models_def ssid_rep_def)
    ultimately show ?thesis using 3 m2 by (auto simp: has_memory_def)
  next
    case 4
    have "\<not> ap_listed x n (aps_at (ssid_heap s) as)" using 4 r(2) by simp
    from ssid_add_item_link [OF r(1) this m1 4(2) m2 4(3), where sec = sec and str = str]
    obtain s' where "ssid_add_item x n sec str s = Inr ((), s')" "reply s' = reply s"
      "ssid_models s' (ap_add x n sec str l)"
      using 4(1) r(2) by (auto simp: ap_add_def)
    then show ?thesis by blast
  qed
qed

section \<open>The interface of the list\<close>

type_synonym scan_result = "string \<times> nat \<times> bool \<times> int"

definition ap_add_result :: "scan_result \<Rightarrow> ap list \<Rightarrow> ap list" where
  "ap_add_result r l = (case r of (x, n, sec, str) \<Rightarrow> ap_add x n sec str l)"

lemma ap_add_result_apply [simp]: "ap_add_result (x, n, sec, str) = ap_add x n sec str"
  by (rule HOL.ext) (simp add: ap_add_result_def)

definition names_distinct :: "ap list \<Rightarrow> bool" where
  "names_distinct l \<longleftrightarrow> distinct (map ap_name l)"

lemma ap_add_distinct: "names_distinct l \<Longrightarrow> names_distinct (ap_add x n sec str l)"
proof -
  assume l: "names_distinct l"
  have "ap_name (ap_new x n sec str) \<notin> ap_name ` set l" if "\<not> ap_listed x n l"
  proof
    assume "ap_name (ap_new x n sec str) \<in> ap_name ` set l"
    then obtain a where a: "a \<in> set l" "ap_name a = take n (cstr x)" by (auto simp: ap_new_def)
    then have "strncmp_eq x (ap_name a) n" by (simp add: strncmp_eq_def)
    with a(1) that show False by (auto simp: ap_listed_def)
  qed
  with l show ?thesis by (auto simp: names_distinct_def ap_add_def)
qed

lemma fold_ap_add_distinct: "names_distinct l \<Longrightarrow> names_distinct (fold ap_add_result rs l)"
  by (induction rs arbitrary: l) (auto simp: ap_add_result_def ap_add_distinct split: prod.split)

locale scan_list =
  fixes clear :: "('s, unit) prog"
    and add :: "string \<Rightarrow> nat \<Rightarrow> bool \<Rightarrow> int \<Rightarrow> ('s, unit) prog"
    and models :: "'s \<Rightarrow> ap list \<Rightarrow> bool"
    and plenty :: "'s \<Rightarrow> bool"
  assumes clear_law: "models s l \<Longrightarrow> \<exists>s'. clear s = Inr ((), s') \<and> models s' [] \<and> plenty s' = plenty s"
    and add_law: "models s l \<Longrightarrow> \<exists>s' l'. add x n sec str s = Inr ((), s') \<and> models s' l' \<and>
      (l' = l \<or> l' = ap_add x n sec str l) \<and> (plenty s \<longrightarrow> l' = ap_add x n sec str l) \<and>
      plenty s' = plenty s"
begin

lemma add_all:
  assumes "models s l" and "names_distinct l"
  shows "\<exists>s' l'. each rs (\<lambda>(x, n, sec, str). add x n sec str) s = Inr ((), s') \<and> models s' l' \<and>
    names_distinct l' \<and> plenty s' = plenty s \<and> (plenty s \<longrightarrow> l' = fold ap_add_result rs l)"
  using assms
proof (induction rs arbitrary: s l)
  case Nil
  then show ?case by auto
next
  case (Cons r rs)
  obtain x n sec str where r: "r = (x, n, sec, str)" by (cases r)
  obtain s1 l1 where s1: "add x n sec str s = Inr ((), s1)" "models s1 l1"
    "l1 = l \<or> l1 = ap_add x n sec str l" "plenty s \<longrightarrow> l1 = ap_add x n sec str l" "plenty s1 = plenty s"
    using add_law [OF Cons.prems(1)] by blast
  have "names_distinct l1" using s1(3) Cons.prems(2) ap_add_distinct by auto
  from Cons.IH [OF s1(2) this] obtain s2 l2 where
    "each rs (\<lambda>(x, n, sec, str). add x n sec str) s1 = Inr ((), s2)" "models s2 l2"
    "names_distinct l2" "plenty s2 = plenty s1" "plenty s1 \<longrightarrow> l2 = fold ap_add_result rs l1"
    by blast
  with s1 r show ?case by auto
qed

text \<open>A scan: the list is cleared, then every result that comes in is added.\<close>

lemma scan:
  assumes "models s l"
  shows "\<exists>s' l'. thn clear (each rs (\<lambda>(x, n, sec, str). add x n sec str)) s = Inr ((), s') \<and>
    models s' l' \<and> names_distinct l' \<and> (plenty s \<longrightarrow> l' = fold ap_add_result rs [])"
proof -
  obtain s1 where s1: "clear s = Inr ((), s1)" "models s1 []" "plenty s1 = plenty s"
    using clear_law [OF assms] by blast
  have "names_distinct []" by (simp add: names_distinct_def)
  from add_all [OF s1(2) this, of rs] s1 show ?thesis by auto
qed

end

definition list_models :: "'z ssids_scheme \<Rightarrow> ap list \<Rightarrow> bool" where
  "list_models s l \<longleftrightarrow> responsive s \<and> ssid_models s l"

interpretation sl: scan_list ssid_init_list ssid_add_item list_models "\<lambda>s. has_memory (reply s)"
proof (unfold_locales, goal_cases)
  case (1 s l)
  then obtain as where "ssid_rep s as" by (auto simp: list_models_def ssid_models_def)
  from ssid_init_list_rep [OF this] 1 show ?case
    by (auto simp: list_models_def ssid_models_def ssid_rep_def aps_at_def intro!: exI [of _ "[]"])
next
  case (2 s l x n sec str)
  then show ?case
    using ssid_add_item_models [of s l x n sec str] by (fastforce simp: list_models_def)
qed

end
