(* ===== verification/Ob_Wifi.thy ===== *)
theory Ob_Wifi
  imports Ob_Ssid
begin

text \<open>
  src/ob_wifi.c: the wifi station and access point. The handlers of network management
  events run in the thread of the network stack; a call that waits (a semaphore, a sleep)
  lets the events the environment delivers be handled first, by the argument \<open>deliver\<close>,
  which is \<open>wifi_deliver\<close> for the handlers of this file. The scan callback is a
  pointer to a function of another file, so \<open>run_cb\<close> says how to run it.
\<close>

section \<open>State\<close>

record wifi = ssids +
  wifi_inited :: bool
  wifi_connect_status_succeded :: bool
  mHasAp :: bool
  gSSID :: string           \<comment> \<open>the array, WIFI_SSID_MAX_LEN characters\<close>
  gSSID_len :: int
  gPSK :: string            \<comment> \<open>the array, WIFI_PSK_MAX_LEN characters\<close>
  gPSK_len :: int
  wifi_ap_ssid :: string    \<comment> \<open>contents as a C string\<close>
  wifi_ap_psk :: string
  wifi_ap_address :: string
  done_callback :: "fnptr option"
  address_add_callback :: "fnptr option"

definition WIFI_AP_ADDRESS_SIZE :: nat where "WIFI_AP_ADDRESS_SIZE = 16"

text \<open>The values the variables of the file start with: uninitialised static objects are zero.\<close>

definition wifi_static :: "'z wifi_scheme \<Rightarrow> bool" where
  "wifi_static s \<longleftrightarrow> \<not> wifi_inited s \<and> \<not> wifi_connect_status_succeded s \<and>
     ssid_head s = 0 \<and> ssid_tail s = 0 \<and> \<not> mHasAp s \<and>
     gSSID s = replicate (WIFI_SSID_MAX_LEN (cfg s)) NUL \<and> gSSID_len s = 0 \<and>
     gPSK s = replicate (WIFI_PSK_MAX_LEN (cfg s)) NUL \<and> gPSK_len s = 0 \<and>
     wifi_ap_ssid s = [] \<and> wifi_ap_psk s = [] \<and> wifi_ap_address s = [] \<and>
     done_callback s = None \<and> address_add_callback s = None"

text \<open>An array after a call has put bytes at its start.\<close>

definition fill_buf :: "string \<Rightarrow> string \<Rightarrow> string" where
  "fill_buf b v = take (length b) v @ drop (length v) b"

lemma length_fill_buf [simp]: "length (fill_buf b v) = length b"
  by (simp add: fill_buf_def)

lemma take_fill_buf: "length v \<le> length b \<Longrightarrow> take (length v) (fill_buf b v) = v"
  by (simp add: fill_buf_def)

abbreviation ready_led :: "string \<Rightarrow> ('z kern_scheme, unit) prog" where
  "ready_led x \<equiv> bnd (gets (\<lambda>s. CONFIG_USE_READY_LED (cfg s))) (\<lambda>b. cond b (ext0 (ReadyLedSet x)))"

section \<open>Small operations\<close>

definition ob_wifi_HasAP :: "('z wifi_scheme, bool) prog" where
  "ob_wifi_HasAP = gets mHasAp"

definition set_scan_done_callback :: "fnptr option \<Rightarrow> ('z wifi_scheme, unit) prog" where
  "set_scan_done_callback func = modify (\<lambda>s. s\<lparr>done_callback := func\<rparr>)"

definition set_address_add_callback :: "fnptr option \<Rightarrow> ('z wifi_scheme, unit) prog" where
  "set_address_add_callback callback = modify (\<lambda>s. s\<lparr>address_add_callback := callback\<rparr>)"

text \<open>The characters \<open>snprintf\<close> leaves in the 18 bytes of \<open>macbuf\<close>, without the NUL.\<close>

definition Mac2String :: "8 word list \<Rightarrow> string" where
  "Mac2String macp =
     take 17 (hex2 (macp ! 0) @ '':'' @ hex2 (macp ! 1) @ '':'' @ hex2 (macp ! 2) @ '':'' @
       hex2 (macp ! 3) @ '':'' @ hex2 (macp ! 4) @ '':'' @ hex2 (macp ! 5))"

text \<open>
  The six bytes put in the buffer, or none for \<open>false\<close>. The debug message reads the name of
  the interface before the test for a null pointer.
\<close>

definition get_mac_address :: "nat \<Rightarrow> ('z wifi_scheme, 8 word list option) prog" where
  "get_mac_address len =
     bnd (ext (NetIfGet wifi_sap)) (\<lambda>iface.
     bnd (gets (\<lambda>s. CONFIG_ONBOARDING_LOG_LEVEL_DBG (cfg s))) (\<lambda>dbg.
     thn (require (\<not> dbg \<or> iface \<noteq> 0) NullDeref)
     (if iface \<noteq> 0 then
        bnd (ext_data (NetIfGetLinkAddr iface)) (\<lambda>(_, addr).
        if 6 \<le> len then ret (Some (map of_char (take 6 (addr @ replicate 6 NUL)))) else ret None)
      else ret None)))"

section \<open>The access point\<close>

definition ob_wifi_ap_disable :: "('z wifi_scheme, unit) prog" where
  "ob_wifi_ap_disable =
     bnd (ext (NetIfGet wifi_sap)) (\<lambda>iface.
     bnd (gets (\<lambda>s. CONFIG_NET_DHCPV4_SERVER (cfg s))) (\<lambda>dhcp.
     bnd (gets wifi_ap_address) (\<lambda>address.
     bnd (if dhcp then ext_data (NetAddrPton address) else ret (0, [])) (\<lambda>(bad, addr).
     if bad \<noteq> 0 then ret ()
     else
       thn (cond dhcp (thn (ext0 (NetIfAddrRm iface addr)) (ext0 (NetDhcpServerStop iface))))
       (bnd (ext (NetMgmt NET_REQUEST_WIFI_AP_DISABLE iface)) (\<lambda>rc.
        if rc < 0 then ret ()
        else thn (ext0 (KSemGive wifi_deinit_sem)) (ext0 (KSemGive wifi_ap_sem))))))))"

definition ob_wifi_ap_enable :: "('z wifi_scheme, unit) prog" where
  "ob_wifi_ap_enable = ext0 (KWorkSchedule ''start_ap_work'' 500)"

text \<open>\<open>addr.s4_addr[3]++\<close> on the four bytes of an address.\<close>

definition next_addr :: "string \<Rightarrow> string" where
  "next_addr a = a[3 := char_of ((of_char (a ! 3) + 1 :: nat) mod 256)]"

text \<open>
  \<open>_ob_wifi_ap_enable\<close>. The numeric address that \<open>net_addr_pton\<close> writes is four bytes.
\<close>

definition ob_wifi_ap_enable_work :: "('z wifi_scheme, unit) prog" where
  "ob_wifi_ap_enable_work =
     bnd (ext (NetIfGet wifi_sap)) (\<lambda>iface.
     thn (ready_led ''blue short'')
     (if iface = 0 then ret ()
      else
        bnd (gets (\<lambda>s. CONFIG_NET_DHCPV4_SERVER (cfg s))) (\<lambda>dhcp.
        bnd (gets wifi_ap_address) (\<lambda>address.
        bnd (if dhcp then ext_data (NetAddrPton address) else ret (0, [])) (\<lambda>(bad, addr).
        if bad \<noteq> 0 then ret ()
        else bnd (if dhcp then ext (NetIfAddrAdd iface addr) else ret 1) (\<lambda>added.
        if added = 0 then ret ()
        else bnd (if dhcp then ext (NetIfSetNetmask iface addr) else ret 1) (\<lambda>masked.
        if masked = 0 then ret ()
        else
          bnd (gets wifi_ap_ssid) (\<lambda>ssid. bnd (gets wifi_ap_psk) (\<lambda>psk.
          bnd (ext (NetMgmt (NET_REQUEST_WIFI_AP_ENABLE ssid psk) iface)) (\<lambda>rc.
          if rc < 0 then ret ()
          else bnd (if dhcp then ext (NetDhcpServerStart iface (next_addr addr))
                    else bnd (ext NetAutoconfInit) (\<lambda>_. ret 0)) (\<lambda>rc.
          if rc < 0 then ret ()
          else thn (modify (\<lambda>s. s\<lparr>mHasAp := True\<rparr>)) (ext0 (KSemGive wifi_ap_sem)))))))))))))"

text \<open>The work item \<open>start_ap_work\<close>.\<close>

definition bws_start_ap_work :: "('z wifi_scheme, unit) prog" where
  "bws_start_ap_work = ob_wifi_ap_enable_work"

section \<open>Event handlers\<close>

definition ipv4_mgmt_event_handler :: "net_event \<Rightarrow> ('z wifi_scheme, unit) prog" where
  "ipv4_mgmt_event_handler mgmt_event =
     (case mgmt_event of
        IPV4_DHCP_BOUND status \<Rightarrow>
          if status \<noteq> 0 then ret ()
          else thn (modify (\<lambda>s. s\<lparr>wifi_connect_status_succeded := True\<rparr>))
                 (ext0 (KSemGive wifi_connect_sem))
      | IPV4_ADDR_ADD \<Rightarrow>
          bnd (gets address_add_callback) (\<lambda>cb. case cb of
            None \<Rightarrow> ret ()
          | Some f \<Rightarrow> ext0 (CallPtr f))
      | _ \<Rightarrow> ret ())"

text \<open>Only messages to the log.\<close>

definition ethernet_mgmt_event_handler :: "net_event \<Rightarrow> ('z wifi_scheme, unit) prog" where
  "ethernet_mgmt_event_handler mgmt_event = ret ()"

definition scan_strength :: "8 word \<Rightarrow> int" where
  "scan_strength rssi = (let strength = sint rssi + 130 in if strength > 100 then 100 else strength)"

definition handle_wifi_scan_result :: "string \<Rightarrow> nat \<Rightarrow> 8 word \<Rightarrow> bool \<Rightarrow> ('z wifi_scheme, unit) prog" where
  "handle_wifi_scan_result ssid ssid_length rssi security =
     ssid_add_item ssid ssid_length security (scan_strength rssi)"

definition handle_wifi_scan_done ::
  "(fnptr \<Rightarrow> nat \<Rightarrow> ('z wifi_scheme, unit) prog) \<Rightarrow> ('z wifi_scheme, unit) prog" where
  "handle_wifi_scan_done run_cb =
     thn (bnd (gets done_callback) (\<lambda>cb. case cb of
            None \<Rightarrow> ret ()
          | Some f \<Rightarrow> bnd (gets ssid_head) (run_cb f)))
       ssid_init_list"

definition ob_wifi_mgmt_event_handler ::
  "(fnptr \<Rightarrow> nat \<Rightarrow> ('z wifi_scheme, unit) prog) \<Rightarrow> net_event \<Rightarrow> ('z wifi_scheme, unit) prog" where
  "ob_wifi_mgmt_event_handler run_cb mgmt_event =
     (case mgmt_event of
        WIFI_SCAN_RESULT ssid len rssi sec \<Rightarrow> handle_wifi_scan_result ssid len rssi sec
      | WIFI_SCAN_DONE \<Rightarrow> handle_wifi_scan_done run_cb
      | WIFI_CONNECT_RESULT status iface \<Rightarrow>
          if status \<noteq> 0 then
            thn (modify (\<lambda>s. s\<lparr>wifi_connect_status_succeded := False\<rparr>))
              (ext0 (KSemGive wifi_connect_sem))
          else bnd (gets cfg) (\<lambda>c.
            thn (cond (\<not> CONFIG_ESP32_STA_AUTO_DHCP c) (ext0 (NetDhcpStart iface)))
              (cond (CONFIG_ONBOARDING_WIFI_AP c)
                (bnd ob_wifi_HasAP (\<lambda>has. cond has ob_wifi_ap_disable))))
      | WIFI_DISCONNECT_RESULT status \<Rightarrow>
          thn (ready_led ''red panic'')
            (thn (modify (\<lambda>s. s\<lparr>wifi_connect_status_succeded := False\<rparr>))
              (ext0 (KSemGive wifi_connect_sem)))
      | WIFI_AP_DISABLE_RESULT status \<Rightarrow>
          cond (status = 0) (ext0 (KSemGive wifi_deinit_sem))
      | _ \<Rightarrow> ret ())"

text \<open>The handler an event reaches: the masks the handlers are registered with.\<close>

definition wifi_deliver ::
  "(fnptr \<Rightarrow> nat \<Rightarrow> ('z wifi_scheme, unit) prog) \<Rightarrow> net_event \<Rightarrow> ('z wifi_scheme, unit) prog" where
  "wifi_deliver run_cb e =
     (case e of
        IPV4_DHCP_BOUND _ \<Rightarrow> ipv4_mgmt_event_handler e
      | IPV4_ADDR_ADD \<Rightarrow> ipv4_mgmt_event_handler e
      | IPV4_ADDR_DEL \<Rightarrow> ipv4_mgmt_event_handler e
      | ETHERNET_CARRIER_ON \<Rightarrow> ethernet_mgmt_event_handler e
      | ETHERNET_CARRIER_OFF \<Rightarrow> ethernet_mgmt_event_handler e
      | IPV4_DHCP_START \<Rightarrow> ret ()
      | IPV4_DHCP_STOP \<Rightarrow> ret ()
      | IPV4_MCAST_JOIN \<Rightarrow> ret ()
      | L4_CONNECTED \<Rightarrow> ret ()
      | L4_DISCONNECTED \<Rightarrow> ret ()
      | OTHER_EVENT _ \<Rightarrow> ret ()
      | _ \<Rightarrow> ob_wifi_mgmt_event_handler run_cb e)"

section \<open>Connecting, scanning, shutting down\<close>

text \<open>The loop over \<open>nr_tries\<close>: the last result, or 0 as soon as a request is accepted.\<close>

primrec connect_loop ::
  "(net_event \<Rightarrow> ('z wifi_scheme, unit) prog) \<Rightarrow> call \<Rightarrow> nat \<Rightarrow> int \<Rightarrow> ('z wifi_scheme, int) prog" where
  "connect_loop deliver req 0 r = ret r"
| "connect_loop deliver req (Suc nr_tries) r =
     bnd (ext req) (\<lambda>r. if r = 0 then ret 0
       else bnd (ext_wait deliver (KMsleep 1000)) (\<lambda>_. connect_loop deliver req nr_tries r))"

text \<open>The request \<open>cnx_params\<close> makes: the first \<open>gSSID_len\<close> and \<open>gPSK_len\<close> characters.\<close>

definition connect_request :: "'z wifi_scheme \<Rightarrow> net_request" where
  "connect_request s = NET_REQUEST_WIFI_CONNECT (take (nat (gSSID_len s)) (gSSID s))
     (take (nat (gPSK_len s)) (gPSK s))"

definition ob_wifi_connect :: "(net_event \<Rightarrow> ('z wifi_scheme, unit) prog) \<Rightarrow> ('z wifi_scheme, int) prog" where
  "ob_wifi_connect deliver =
     bnd (ext (NetIfGet wifi_sta)) (\<lambda>iface.
     if iface = 0 then ret (- 1)
     else thn (ready_led ''green long'')
       (bnd (gets wifi_inited) (\<lambda>inited.
        if \<not> inited then ret (- 1)
        else
          bnd (gets connect_request) (\<lambda>req.
          bnd (connect_loop deliver (NetMgmt req iface) 20 0) (\<lambda>r.
          thn (if r = 0 then bnd (ext_wait deliver (KSemTake wifi_connect_sem None)) (\<lambda>_. ret ())
               else ret ())
          (thn (ready_led ''off'')
          (bnd (gets wifi_connect_status_succeded) (\<lambda>ok.
           if ok then thn (ext0 (NetIfSetDefault iface)) (ret r)
           else ret (- 1)))))))))"

definition ob_wifi_scan :: "('z wifi_scheme, int) prog" where
  "ob_wifi_scan =
     bnd (ext (NetIfGet wifi_sta)) (\<lambda>iface.
     bnd (gets wifi_inited) (\<lambda>inited.
     if \<not> inited then ret (- 1)
     else thn ssid_init_list (thn (ext0 (NetMgmt NET_REQUEST_WIFI_SCAN iface)) (ret 0))))"

definition ob_wifi_deinit :: "(net_event \<Rightarrow> ('z wifi_scheme, unit) prog) \<Rightarrow> ('z wifi_scheme, unit) prog" where
  "ob_wifi_deinit deliver =
     thn (ext0 (KSemReset wifi_deinit_sem))
     (thn (bnd (gets (\<lambda>s. CONFIG_ONBOARDING_WIFI_AP (cfg s))) (\<lambda>b.
            cond b (bnd ob_wifi_HasAP (\<lambda>has. cond has ob_wifi_ap_disable))))
     (bnd (ext (NetIfGet wifi_sta)) (\<lambda>iface.
     thn (ext0 (NetMgmt NET_REQUEST_WIFI_DISCONNECT iface))
     (bnd (ext_wait deliver (KSemTake wifi_deinit_sem (Some 5000))) (\<lambda>_.
      modify (\<lambda>s. s\<lparr>wifi_inited := False\<rparr>))))))"

section \<open>Start-up\<close>

abbreviation NVS_SETTINGS_ID_WIFI_SSID :: string where "NVS_SETTINGS_ID_WIFI_SSID \<equiv> ''ob/wifi/ssid''"
abbreviation NVS_SETTINGS_ID_WIFI_PSK :: string where "NVS_SETTINGS_ID_WIFI_PSK \<equiv> ''ob/wifi/psk''"
abbreviation NVS_SETTINGS_ID_HOSTNAME :: string where "NVS_SETTINGS_ID_HOSTNAME \<equiv> ''ob/hostname''"

text \<open>
  The parts of \<open>ob_wifi_init\<close>, in its order: the host name, the access point, the two
  credentials, and the connection. The hostname array is on the stack, so its contents after
  the bytes read are unknown: \<open>strlen\<close> on it needs a NUL among the bytes read.
\<close>

definition wifi_init_hostname :: "('z wifi_scheme, unit) prog" where
  "wifi_init_hostname =
     bnd (gets (\<lambda>s. NET_HOSTNAME_MAX_LEN (cfg s))) (\<lambda>n.
     bnd (ob_nvs_data_read NVS_SETTINGS_ID_HOSTNAME n) (\<lambda>(len, hostname).
     if len \<le> 0 then ret ()
     else thn (require (terminated (take n hostname)) Unterminated)
            (ext0 (NetHostnameSet (cstr hostname)))))"

definition wifi_init_ap :: "('z wifi_scheme, unit) prog" where
  "wifi_init_ap =
     bnd (gets cfg) (\<lambda>c.
     thn (require (length (CONFIG_ONBOARDING_WIFI_AP_ADDRESS c) < WIFI_AP_ADDRESS_SIZE) OutOfBounds)
     (thn (modify (\<lambda>s. s\<lparr>wifi_ap_address := CONFIG_ONBOARDING_WIFI_AP_ADDRESS c\<rparr>))
     (thn (require (length (CONFIG_ONBOARDING_WIFI_AP_SSID c) < WIFI_SSID_MAX_LEN c) OutOfBounds)
     (thn (modify (\<lambda>s. s\<lparr>wifi_ap_ssid := CONFIG_ONBOARDING_WIFI_AP_SSID c\<rparr>))
     (bnd (get_mac_address 18) (\<lambda>mac.
     thn (case mac of
            None \<Rightarrow> ret ()
          | Some m \<Rightarrow>
              (let mad = Mac2String m;
                   ssid_suffix = [mad ! 9, mad ! 10, mad ! 12, mad ! 13, mad ! 15, mad ! 16]
               in thn (require (length (CONFIG_ONBOARDING_WIFI_AP_SSID c @ ssid_suffix) < WIFI_SSID_MAX_LEN c)
                         OutOfBounds)
                    (modify (\<lambda>s. s\<lparr>wifi_ap_ssid := wifi_ap_ssid s @ ssid_suffix\<rparr>))))
     (thn (require (length (CONFIG_ONBOARDING_WIFI_AP_PSK c) < WIFI_PSK_MAX_LEN c) OutOfBounds)
     (thn (modify (\<lambda>s. s\<lparr>wifi_ap_psk := CONFIG_ONBOARDING_WIFI_AP_PSK c\<rparr>))
     (thn (ext0 (KWorkInit ''start_ap_work''))
      ob_wifi_ap_enable)))))))))"

text \<open>Reading a credential; the result is \<open>needSTA\<close>.\<close>

definition wifi_read_ssid :: "('z wifi_scheme, bool) prog" where
  "wifi_read_ssid =
     bnd (gets cfg) (\<lambda>c.
     bnd (ob_nvs_data_read NVS_SETTINGS_ID_WIFI_SSID (WIFI_SSID_MAX_LEN c)) (\<lambda>(len, v).
     thn (modify (\<lambda>s. s\<lparr>gSSID := fill_buf (gSSID s) v, gSSID_len := len\<rparr>))
     (if len \<le> 0 then
        (if CONFIG_ONBOARDING_PRECONFIG_WIFI c then
           (let b = strncpy_buf (WIFI_SSID_MAX_LEN c) (CONFIG_ONBOARDING_WIFI_SSID c) in
            thn (modify (\<lambda>s. s\<lparr>gSSID := b\<rparr>))
            (thn (require (terminated b) Unterminated)
            (thn (modify (\<lambda>s. s\<lparr>gSSID_len := int (length (cstr b))\<rparr>)) (ret False))))
         else ret True)
      else ret False)))"

definition wifi_read_psk :: "('z wifi_scheme, bool) prog" where
  "wifi_read_psk =
     bnd (gets cfg) (\<lambda>c.
     bnd (ob_nvs_data_read NVS_SETTINGS_ID_WIFI_PSK (WIFI_PSK_MAX_LEN c)) (\<lambda>(len, v).
     thn (modify (\<lambda>s. s\<lparr>gPSK := fill_buf (gPSK s) v, gPSK_len := len\<rparr>))
     (if len \<le> 0 then
        (if CONFIG_ONBOARDING_PRECONFIG_WIFI c then
           (let b = strncpy_buf (WIFI_PSK_MAX_LEN c) (CONFIG_ONBOARDING_WIFI_PSK c) in
            thn (modify (\<lambda>s. s\<lparr>gPSK := b\<rparr>))
            (thn (require (terminated b) Unterminated)
            (thn (modify (\<lambda>s. s\<lparr>gPSK_len := int (length (cstr b))\<rparr>)) (ret False))))
         else ret True)
      else ret False)))"

definition ob_wifi_init :: "(net_event \<Rightarrow> ('z wifi_scheme, unit) prog) \<Rightarrow> ('z wifi_scheme, int) prog" where
  "ob_wifi_init deliver =
     bnd ob_nvs_data_init (\<lambda>rc.
     if rc < 0 then ret (- 1)
     else
       thn (modify (\<lambda>s. s\<lparr>wifi_inited := True\<rparr>))
       (bnd (gets cfg) (\<lambda>c.
        thn (cond (CONFIG_NET_HOSTNAME_DYNAMIC c) wifi_init_hostname)
        (thn (ext0 (NetMgmtAddCallback ''ob_wifi_mgmt_event_handler''))
        (thn (ext0 (NetMgmtAddCallback ''ipv4_mgmt_event_handler''))
        (thn (ext0 (NetMgmtAddCallback ''ethernet_mgmt_event_handler''))
        (thn (cond (CONFIG_ONBOARDING_WIFI_AP c) wifi_init_ap)
        (bnd wifi_read_ssid (\<lambda>need1.
         bnd wifi_read_psk (\<lambda>need2.
         thn (if need1 \<or> need2 then
                cond (CONFIG_ONBOARDING_WIFI_AP c)
                  (bnd (ext_wait deliver (KSemTake wifi_ap_sem None)) (\<lambda>_. ret ()))
              else bnd (ob_wifi_connect deliver) (\<lambda>_. ret ()))
           (ret 0)))))))))))"

end
