(* ===== verification/Ob_Wifi_Facts.thy ===== *)
theory Ob_Wifi_Facts
  imports Ob_Wifi
begin

text \<open>
  Facts about src/ob_wifi.c: what the operations leave unchanged, the bounds of the
  connection loop, the credentials a start-up uses, the name of the access point, and the
  scan as a client of the list interface \<open>scan_list\<close>.
\<close>

section \<open>Frames\<close>

lemma keeps_load_item: "keeps I (load_item p)"
  unfolding load_item_def by (auto intro!: keeps_intros)

lemma keeps_store_item: "(\<And>s h. I s \<Longrightarrow> I (s\<lparr>ssid_heap := h\<rparr>)) \<Longrightarrow> keeps I (store_item p i)"
  unfolding store_item_def by (auto intro!: keeps_modify)

lemma keeps_free_item: "(\<And>s h. I s \<Longrightarrow> I (s\<lparr>ssid_heap := h\<rparr>)) \<Longrightarrow> keeps I (free_item p)"
  unfolding free_item_def by (auto intro!: keeps_modify)

lemma keeps_ssid_find: "keeps I (ssid_find n x len p)"
  by (induction n arbitrary: p) (auto intro!: keeps_intros keeps_load_item)

lemma keeps_ssid_free_item:
  "(\<And>s h. I s \<Longrightarrow> I (s\<lparr>ssid_heap := h\<rparr>)) \<Longrightarrow> keeps I (ssid_free_item n p)"
  by (induction n arbitrary: p) (auto intro!: keeps_intros keeps_load_item keeps_free_item)

text \<open>A property of the state that the bookkeeping of calls and of the list does not touch.\<close>

definition list_frame :: "('z ssids_scheme \<Rightarrow> bool) \<Rightarrow> bool" where
  "list_frame I \<longleftrightarrow> (\<forall>s h a b. I s \<longrightarrow> I (s\<lparr>ssid_heap := h\<rparr>) \<and> I (s\<lparr>ssid_head := a\<rparr>) \<and>
     I (s\<lparr>ssid_tail := b\<rparr>) \<and> I (s\<lparr>ssid_head := a, ssid_tail := b\<rparr>) \<and> I (s\<lparr>brk := b\<rparr>) \<and>
     (\<forall>n. I (s\<lparr>trace := trace s @ [Malloc n]\<rparr>)))"

lemma keeps_ssid_init_list: "list_frame I \<Longrightarrow> keeps I ssid_init_list"
  unfolding ssid_init_list_def
  by (intro keeps_intros keeps_modify keeps_ssid_free_item) (simp_all add: list_frame_def)

lemma keeps_ssid_add_item: "list_frame I \<Longrightarrow> keeps I (ssid_add_item x n sec str)"
  unfolding ssid_add_item_def
  by (intro keeps_intros keeps_modify keeps_malloc keeps_ssid_find keeps_store_item keeps_free_item
      keeps_load_item) (simp_all add: list_frame_def)

text \<open>The rules that carry an invariant through the operations of this file.\<close>

lemmas keeps_wifi = keeps_intros keeps_exts keeps_modify keeps_ssid_init_list keeps_ssid_add_item

section \<open>Once an access point, always one\<close>

text \<open>
  \<open>mHasAp\<close> is set when the access point comes up and by nothing else: no operation and no
  event clears it, not even disabling the access point.
\<close>

lemma list_frame_mHasAp [simp]: "list_frame (\<lambda>s. mHasAp s)"
  by (simp add: list_frame_def)

lemma keeps_mHasAp_ap_disable: "keeps mHasAp ob_wifi_ap_disable"
  unfolding ob_wifi_ap_disable_def by (auto intro!: keeps_wifi)

lemma keeps_mHasAp_deliver:
  assumes "\<And>f p. keeps mHasAp (run_cb f p)"
  shows "keeps mHasAp (wifi_deliver run_cb e)"
proof -
  have "keeps mHasAp (ob_wifi_mgmt_event_handler run_cb e)"
    unfolding ob_wifi_mgmt_event_handler_def handle_wifi_scan_result_def handle_wifi_scan_done_def
      ob_wifi_HasAP_def
    by (cases e) (auto intro!: keeps_wifi assms keeps_mHasAp_ap_disable)
  moreover have "keeps mHasAp (ipv4_mgmt_event_handler e)"
    unfolding ipv4_mgmt_event_handler_def by (cases e) (auto intro!: keeps_wifi)
  ultimately show ?thesis
    unfolding wifi_deliver_def ethernet_mgmt_event_handler_def by (cases e) (auto intro: keeps_ret)
qed

lemma keeps_connect_loop:
  assumes "\<And>s c. I s \<Longrightarrow> c = req \<or> c = KMsleep 1000 \<Longrightarrow> I (s\<lparr>trace := trace s @ [c]\<rparr>)"
    and "\<And>e. keeps I (deliver e)"
  shows "keeps I (connect_loop deliver req n r)"
  by (induction n arbitrary: r) (auto intro!: keeps_wifi assms)

datatype wifi_op =
    WInit | WDeinit | WScan | WConnect | WApEnable | WApEnableWork | WApDisable | WEvent net_event

definition wifi_do ::
  "(fnptr \<Rightarrow> nat \<Rightarrow> ('z wifi_scheme, unit) prog) \<Rightarrow> wifi_op \<Rightarrow> ('z wifi_scheme, unit) prog" where
  "wifi_do run_cb op =
     (case op of
        WInit \<Rightarrow> bnd (ob_wifi_init (wifi_deliver run_cb)) (\<lambda>_. ret ())
      | WDeinit \<Rightarrow> ob_wifi_deinit (wifi_deliver run_cb)
      | WScan \<Rightarrow> bnd ob_wifi_scan (\<lambda>_. ret ())
      | WConnect \<Rightarrow> bnd (ob_wifi_connect (wifi_deliver run_cb)) (\<lambda>_. ret ())
      | WApEnable \<Rightarrow> ob_wifi_ap_enable
      | WApEnableWork \<Rightarrow> ob_wifi_ap_enable_work
      | WApDisable \<Rightarrow> ob_wifi_ap_disable
      | WEvent e \<Rightarrow> wifi_deliver run_cb e)"

lemma keeps_mHasAp_connect:
  "(\<And>e. keeps mHasAp (deliver e)) \<Longrightarrow> keeps mHasAp (ob_wifi_connect deliver)"
  unfolding ob_wifi_connect_def by (auto intro!: keeps_wifi keeps_connect_loop)

lemma keeps_mHasAp_init:
  "(\<And>e. keeps mHasAp (deliver e)) \<Longrightarrow> keeps mHasAp (ob_wifi_init deliver)"
  unfolding ob_wifi_init_def wifi_init_hostname_def wifi_init_ap_def wifi_read_ssid_def
    wifi_read_psk_def ob_nvs_data_init_def ob_nvs_data_read_def get_mac_address_def
    ob_wifi_ap_enable_def Let_def
  by (auto intro!: keeps_wifi keeps_mHasAp_connect)

lemma keeps_mHasAp_do:
  assumes "\<And>f p. keeps mHasAp (run_cb f p)"
  shows "keeps mHasAp (wifi_do run_cb op)"
proof -
  note d = keeps_mHasAp_deliver [OF assms]
  show ?thesis
  proof (cases op)
    case WInit
    then show ?thesis by (auto simp: wifi_do_def intro!: keeps_wifi keeps_mHasAp_init d)
  next
    case WConnect
    then show ?thesis by (auto simp: wifi_do_def intro!: keeps_wifi keeps_mHasAp_connect d)
  next
    case WDeinit
    then show ?thesis
      by (auto simp: wifi_do_def ob_wifi_deinit_def ob_wifi_HasAP_def
          intro!: keeps_wifi keeps_mHasAp_ap_disable d)
  qed (auto simp: wifi_do_def ob_wifi_scan_def ob_wifi_ap_enable_def ob_wifi_ap_enable_work_def
      intro!: keeps_wifi keeps_mHasAp_ap_disable d)
qed

section \<open>Frames of a whole start-up\<close>

text \<open>
  A property of the state that no operation before the credentials are read can change:
  the calls made there neither write to the store nor open or close a connection, and the
  fields written are those of the access point and the two flags.
\<close>

definition quiet_call :: "call \<Rightarrow> bool" where
  "quiet_call c \<longleftrightarrow> (case c of Settings (SaveOne _ _) \<Rightarrow> False | Settings (Delete _) \<Rightarrow> False
     | Net (Mgmt (WifiConnect _ _ _ _) _) \<Rightarrow> False | Zsock (Accept _) \<Rightarrow> False
     | Zsock (Close _) \<Rightarrow> False | _ \<Rightarrow> True)"

definition start_frame :: "('z wifi_scheme \<Rightarrow> bool) \<Rightarrow> bool" where
  "start_frame I \<longleftrightarrow> (\<forall>s. I s \<longrightarrow>
     (\<forall>c. quiet_call c \<longrightarrow> I (s\<lparr>trace := trace s @ [c]\<rparr>)) \<and> I (s\<lparr>nvs_data_inited := True\<rparr>) \<and>
     I (s\<lparr>wifi_inited := True\<rparr>) \<and> (\<forall>x. I (s\<lparr>wifi_ap_address := x\<rparr>)) \<and>
     (\<forall>x. I (s\<lparr>wifi_ap_ssid := x\<rparr>)) \<and> (\<forall>x. I (s\<lparr>wifi_ap_psk := x\<rparr>)))"

lemma start_frame_trace:
  "start_frame I \<Longrightarrow> I s \<Longrightarrow> quiet_call c \<Longrightarrow> I (s\<lparr>trace := trace s @ [c]\<rparr>)"
  unfolding start_frame_def by blast

lemma quiet_add_callback: "quiet_call (NetMgmtAddCallback f)"
  by (simp add: quiet_call_def)

lemma keeps_start_init_ap: "start_frame I \<Longrightarrow> keeps I wifi_init_ap"
  unfolding wifi_init_ap_def get_mac_address_def ob_wifi_ap_enable_def Let_def
  by (intro keeps_intros keeps_exts keeps_modify) (simp_all add: start_frame_def quiet_call_def)

lemma keeps_start_hostname: "start_frame I \<Longrightarrow> keeps I wifi_init_hostname"
  unfolding wifi_init_hostname_def ob_nvs_data_read_def
  by (intro keeps_intros keeps_exts keeps_modify) (simp_all add: start_frame_def quiet_call_def)

lemma keeps_start_nvs_init: "start_frame I \<Longrightarrow> keeps I ob_nvs_data_init"
  unfolding ob_nvs_data_init_def
  by (intro keeps_intros keeps_exts keeps_modify) (simp_all add: start_frame_def quiet_call_def)

section \<open>The number of connection requests\<close>

definition is_connect :: "call \<Rightarrow> bool" where
  "is_connect c \<longleftrightarrow> (case c of Net (Mgmt (WifiConnect _ _ _ _) _) \<Rightarrow> True | _ \<Rightarrow> False)"

definition connects :: "'z kern_scheme \<Rightarrow> nat" where
  "connects s = length (filter is_connect (trace s))"

text \<open>A program that asks for a connection at most \<open>n\<close> times.\<close>

definition asks :: "nat \<Rightarrow> ('z kern_scheme, 'a) prog \<Rightarrow> bool" where
  "asks n m \<longleftrightarrow> (\<forall>s. connects (final (m s)) \<le> connects s + n)"

lemma connects_snoc [simp]:
  "connects (s\<lparr>trace := trace s @ [c]\<rparr>) = connects s + (if is_connect c then 1 else 0)"
  by (simp add: connects_def)

lemma asks_bnd:
  assumes "asks n m" and "\<And>a. asks k (f a)"
  shows "asks (n + k) (bnd m f)"
  unfolding asks_def
proof
  fix s
  have m: "connects (final (m s)) \<le> connects s + n" using assms(1) by (simp add: asks_def)
  show "connects (final (bnd m f s)) \<le> connects s + (n + k)"
  proof (cases "m s")
    case (Inl x)
    with m show ?thesis by (cases x) simp
  next
    case (Inr x)
    obtain a t where x: "x = (a, t)" by (cases x)
    have "connects (final (f a t)) \<le> connects t + k" using assms(2) by (simp add: asks_def)
    with m Inr x show ?thesis by simp
  qed
qed

lemma asks_0: "asks 0 m \<longleftrightarrow> (\<forall>k. keeps (\<lambda>s. connects s \<le> k) m)"
proof
  show "\<forall>k. keeps (\<lambda>s. connects s \<le> k) m" if "asks 0 m"
    using that order_trans by (fastforce simp: asks_def keeps_def)
  show "asks 0 m" if "\<forall>k. keeps (\<lambda>s. connects s \<le> k) m"
    using that by (simp add: asks_def keeps_def)
qed

lemma asks_ext: "asks (if is_connect c then 1 else 0) (ext c)"
  by (simp add: asks_def ext_apply split: option.split)

lemma asks_ext_quiet: "\<not> is_connect c \<Longrightarrow> asks 0 (ext c)"
  using asks_ext [of c] by simp

lemma asks_quiet:
  "asks 0 (ret a)" "asks 0 (gets f)" "(\<And>s. trace (g s) = trace s) \<Longrightarrow> asks 0 (modify g)"
  by (simp_all add: asks_def connects_def)

lemma asks_bnd0: "asks 0 m \<Longrightarrow> (\<And>a. asks k (f a)) \<Longrightarrow> asks k (bnd m f)"
  using asks_bnd [of 0 m k f] by simp

lemma asks_thn0: "asks 0 m \<Longrightarrow> asks k n \<Longrightarrow> asks k (thn m n)"
  unfolding thn_def by (rule asks_bnd0)

lemma asks_mono: "asks n m \<Longrightarrow> n \<le> k \<Longrightarrow> asks k m"
  by (fastforce simp: asks_def intro: order_trans)

lemma asks_if: "asks k m \<Longrightarrow> asks k n \<Longrightarrow> asks k (if b then m else n)"
  by simp

lemma asks_0_ret: "asks k (ret a)"
  by (simp add: asks_def)

lemma asks_each0: "(\<And>x. asks 0 (f x)) \<Longrightarrow> asks 0 (each xs f)"
  by (induction xs) (auto intro!: asks_thn0 asks_quiet)

lemma asks_ext_wait:
  assumes "\<not> is_connect c" and "\<And>e. asks 0 (deliver e)"
  shows "asks 0 (ext_wait deliver c)"
proof -
  have "asks 0 (bnd (ext c) (\<lambda>r. thn (each es deliver) (ret r)))" for es
    by (intro asks_bnd0 asks_thn0 asks_each0 asks_quiet asks_ext_quiet assms)
  then show ?thesis by (simp add: asks_def ext_wait_def del: bnd_apply)
qed

lemma asks_ext0_quiet: "\<not> is_connect c \<Longrightarrow> asks 0 (ext0 c)"
  unfolding ext0_def by (intro asks_bnd0 asks_ext_quiet asks_quiet)

lemma asks_cond0: "asks 0 m \<Longrightarrow> asks 0 (cond b m)"
  by (simp add: cond_def asks_quiet)

lemmas asks_intros = asks_bnd0 asks_thn0 asks_if asks_0_ret asks_quiet asks_ext_quiet asks_ext0_quiet
  asks_cond0 asks_ext_wait asks_each0

lemma list_frame_connects [simp]: "list_frame (\<lambda>s. connects s \<le> k)"
  by (simp add: list_frame_def connects_def is_connect_def)

text \<open>No event handler of this file asks for a connection.\<close>

lemma asks_ap_disable: "asks 0 ob_wifi_ap_disable"
  unfolding ob_wifi_ap_disable_def asks_0
  by (intro allI keeps_wifi) (simp_all add: is_connect_def)

lemma asks_add_item: "asks 0 (ssid_add_item x n sec str)"
  by (simp add: asks_0 keeps_ssid_add_item)

lemma asks_init_list: "asks 0 ssid_init_list"
  by (simp add: asks_0 keeps_ssid_init_list)

lemma asks_deliver:
  assumes "\<And>f p. asks 0 (run_cb f p)"
  shows "asks 0 (wifi_deliver run_cb e)"
proof -
  have "asks 0 (case cb of None \<Rightarrow> ret () | Some f \<Rightarrow> bnd (gets ssid_head) (run_cb f))" for cb
    by (cases cb) (auto intro!: asks_intros assms)
  moreover have "asks 0 (case cb of None \<Rightarrow> ret () | Some f \<Rightarrow> ext0 (CallPtr f))" for cb
    by (cases cb) (auto intro!: asks_intros simp: is_connect_def)
  ultimately show ?thesis
    unfolding wifi_deliver_def ethernet_mgmt_event_handler_def ipv4_mgmt_event_handler_def
      ob_wifi_mgmt_event_handler_def handle_wifi_scan_result_def handle_wifi_scan_done_def
      ob_wifi_HasAP_def
    by (cases e) (auto intro!: asks_intros asks_ap_disable asks_add_item asks_init_list simp: is_connect_def)
qed

lemma asks_connect_loop:
  assumes "\<And>e. asks 0 (deliver e)"
  shows "asks n (connect_loop deliver req n r)"
proof (induction n arbitrary: r)
  case 0
  show ?case unfolding connect_loop.simps by (rule asks_0_ret)
next
  case (Suc n)
  have "asks 1 (ext req)" using asks_ext [of req] by (rule asks_mono) simp
  moreover have "asks n (if x = 0 then ret 0
      else bnd (ext_wait deliver (KMsleep 1000)) (\<lambda>_. connect_loop deliver req n x))" for x
    by (intro asks_intros Suc.IH assms) (simp add: is_connect_def)
  ultimately have "asks (1 + n) (connect_loop deliver req (Suc n) r)"
    unfolding connect_loop.simps by (rule asks_bnd)
  then show ?case unfolding plus_1_eq_Suc .
qed

lemma asks_connect:
  assumes "\<And>e. asks 0 (deliver e)"
  shows "asks 20 (ob_wifi_connect deliver)"
proof -
  define request where "request req iface = bnd (connect_loop deliver (NetMgmt req iface) 20 0) (\<lambda>r.
      thn (if r = 0 then bnd (ext_wait deliver (KSemTake wifi_connect_sem None)) (\<lambda>_. ret ()) else ret ())
      (thn (ready_led ''off'') (bnd (gets wifi_connect_status_succeded) (\<lambda>ok.
        if ok then thn (ext0 (NetIfSetDefault iface)) (ret r) else ret (- 1)))))" for req iface
  have "asks (20 + 0) (request req iface)" for req iface
    unfolding request_def
    by (rule asks_bnd [OF asks_connect_loop [OF assms]])
      (auto intro!: asks_intros assms simp: is_connect_def)
  then have request: "asks 20 (request req iface)" for req iface by simp
  show ?thesis
    unfolding ob_wifi_connect_def request_def [symmetric]
    by (intro asks_intros request) (simp_all add: is_connect_def)
qed

section \<open>A connection that succeeded\<close>

text \<open>
  Zero tries left means the last answer was a failure, so a loop of at least one try that
  ends with 0 had a request accepted.
\<close>

lemma connect_loop_accepted:
  assumes "\<And>e r. keeps (\<lambda>s. reply s = r) (deliver e)"
    and "connect_loop deliver req n r s = Inr (0, s')" and "r \<noteq> 0 \<or> 0 < n"
  shows "\<exists>tr. reply s tr req = Some 0"
  using assms(2,3)
proof (induction n arbitrary: r s)
  case 0
  then show ?case by simp
next
  case (Suc n)
  show ?case
  proof (cases "reply s (trace s) req")
    case None
    with Suc.prems show ?thesis by (simp add: ext_apply)
  next
    case (Some x)
    show ?thesis
    proof (cases "x = 0")
      case True
      with Some show ?thesis by blast
    next
      case False
      let ?s1 = "s\<lparr>trace := trace s @ [req]\<rparr>"
      have "bnd (ext_wait deliver (KMsleep 1000)) (\<lambda>_. connect_loop deliver req n x) ?s1 = Inr (0, s')"
        using Suc.prems Some False by simp
      then obtain y t where y: "ext_wait deliver (KMsleep 1000) ?s1 = Inr (y, t)"
        "connect_loop deliver req n x t = Inr (0, s')"
        unfolding bnd_Inr by blast
      have "keeps (\<lambda>u. reply u = reply s) (ext_wait deliver (KMsleep 1000))"
        by (intro keeps_exts assms(1)) simp
      from keeps_Inr [OF this _ y(1)] have "reply t = reply s" by simp
      with Suc.IH [OF y(2)] False show ?thesis by auto
    qed
  qed
qed

lemma ready_led_Inr:
  "ready_led x s = Inr (u, t) \<Longrightarrow> \<exists>cs. t = s\<lparr>trace := trace s @ cs\<rparr>"
  by (auto simp: ext0_apply split: if_splits option.splits intro: exI [of _ "[]"])

lemma connect_success:
  assumes d: "\<And>e r. keeps (\<lambda>s. reply s = r) (deliver e)"
    and run: "ob_wifi_connect deliver s = Inr (0, s')"
  shows "\<exists>iface tr pre. iface \<noteq> 0 \<and> reply s tr (NetMgmt (connect_request s) iface) = Some 0 \<and>
    trace s' = pre @ [NetIfSetDefault iface] \<and> wifi_connect_status_succeded s'"
proof -
  define rest where "rest iface r = thn (if r = 0
      then bnd (ext_wait deliver (KSemTake wifi_connect_sem None)) (\<lambda>_. ret ()) else ret ())
    (thn (ready_led ''off'') (bnd (gets wifi_connect_status_succeded) (\<lambda>ok.
      if ok then thn (ext0 (NetIfSetDefault iface)) (ret r) else ret (- 1))))" for iface and r :: int
  obtain iface s1 where s1: "ext (NetIfGet wifi_sta) s = Inr (iface, s1)" "iface \<noteq> 0"
    and run1: "thn (ready_led ''green long'') (bnd (gets wifi_inited) (\<lambda>inited.
        if \<not> inited then ret (- 1)
        else bnd (gets connect_request) (\<lambda>req.
          bnd (connect_loop deliver (NetMgmt req iface) 20 0) (rest iface)))) s1 = Inr (0, s')"
    using run unfolding ob_wifi_connect_def rest_def [symmetric]
    by (subst (asm) bnd_Inr) (auto simp del: bnd_apply thn_apply split: if_splits)
  obtain u t1 where t1: "ready_led ''green long'' s1 = Inr (u, t1)"
    and run2: "bnd (gets wifi_inited) (\<lambda>inited.
        if \<not> inited then ret (- 1)
        else bnd (gets connect_request) (\<lambda>req.
          bnd (connect_loop deliver (NetMgmt req iface) 20 0) (rest iface))) t1 = Inr (0, s')"
    using run1 unfolding thn_Inr by blast
  obtain cs where cs: "t1 = s1\<lparr>trace := trace s1 @ cs\<rparr>" using t1 ready_led_Inr by blast
  have env: "reply t1 = reply s" "connect_request t1 = connect_request s"
    using s1(1) cs by (auto simp: ext_apply connect_request_def split: option.splits)
  let ?req = "NetMgmt (connect_request s) iface"
  have "bnd (connect_loop deliver ?req 20 0) (rest iface) t1 = Inr (0, s')"
    using run2 env(2) by (cases "wifi_inited t1") (simp_all add: bnd_apply [of "gets _"] del: bnd_apply)
  then obtain r t where loop: "connect_loop deliver ?req 20 0 t1 = Inr (r, t)"
    and run3: "rest iface r t = Inr (0, s')"
    unfolding bnd_Inr by blast
  obtain t2 where "(bnd (gets wifi_connect_status_succeded) (\<lambda>ok.
      if ok then thn (ext0 (NetIfSetDefault iface)) (ret r) else ret (- 1))) t2 = Inr (0, s')"
    using run3 unfolding rest_def thn_Inr by blast
  then have ok: "wifi_connect_status_succeded t2" "r = 0" "s' = t2\<lparr>trace := trace t2 @ [NetIfSetDefault iface]\<rparr>"
    by (auto simp: ext0_apply split: if_splits option.splits)
  have "\<exists>tr. reply s tr ?req = Some 0"
    using connect_loop_accepted [where deliver = deliver and req = ?req and n = 20 and r = 0 and s = t1 and s' = t]
      d loop ok(2) env(1) by simp
  with s1(2) ok(1,3) show ?thesis by auto
qed

section \<open>The credentials a start-up uses\<close>

lemma wifi_read_ssid_stored:
  assumes "nvs_env_ok s" and "store s NVS_SETTINGS_ID_WIFI_SSID = Some v" and "v \<noteq> []"
    and "length v \<le> WIFI_SSID_MAX_LEN (cfg s)"
  shows "wifi_read_ssid s = Inr (False, s\<lparr>trace := trace s @
      [SettingsLoadOne NVS_SETTINGS_ID_WIFI_SSID (WIFI_SSID_MAX_LEN (cfg s))],
    gSSID := fill_buf (gSSID s) v, gSSID_len := int (length v)\<rparr>)"
  using nvs_read_present [OF assms(1,2,4)] assms(3) by (simp add: wifi_read_ssid_def)

lemma wifi_read_psk_stored:
  assumes "nvs_env_ok s" and "store s NVS_SETTINGS_ID_WIFI_PSK = Some v" and "v \<noteq> []"
    and "length v \<le> WIFI_PSK_MAX_LEN (cfg s)"
  shows "wifi_read_psk s = Inr (False, s\<lparr>trace := trace s @
      [SettingsLoadOne NVS_SETTINGS_ID_WIFI_PSK (WIFI_PSK_MAX_LEN (cfg s))],
    gPSK := fill_buf (gPSK s) v, gPSK_len := int (length v)\<rparr>)"
  using nvs_read_present [OF assms(1,2,4)] assms(3) by (simp add: wifi_read_psk_def)

text \<open>The state in which a start-up finds a network and its key in the store.\<close>

definition has_credentials :: "string \<Rightarrow> string \<Rightarrow> 'z wifi_scheme \<Rightarrow> bool" where
  "has_credentials ssid psk s \<longleftrightarrow>
     nvs_env_ok s \<and> store s NVS_SETTINGS_ID_WIFI_SSID = Some ssid \<and>
     store s NVS_SETTINGS_ID_WIFI_PSK = Some psk \<and> ssid \<noteq> [] \<and> psk \<noteq> [] \<and>
     length (gSSID s) = WIFI_SSID_MAX_LEN (cfg s) \<and> length (gPSK s) = WIFI_PSK_MAX_LEN (cfg s) \<and>
     length ssid \<le> WIFI_SSID_MAX_LEN (cfg s) \<and> length psk \<le> WIFI_PSK_MAX_LEN (cfg s)"

lemma store_step_quiet [simp]: "quiet_call c \<Longrightarrow> store_step r tr c m = m"
  by (auto simp: store_step_def quiet_call_def split: call.splits settings_call.splits)

lemma start_frame_has_credentials: "start_frame (has_credentials ssid psk)"
  by (simp add: start_frame_def has_credentials_def nvs_env_ok_def)

lemma wifi_read_credentials:
  assumes "has_credentials ssid psk s"
  shows "\<exists>s1 s2. wifi_read_ssid s = Inr (False, s1) \<and> wifi_read_psk s1 = Inr (False, s2) \<and>
    connect_request s2 = NET_REQUEST_WIFI_CONNECT ssid psk \<and> reply s2 = reply s \<and>
    wifi_inited s2 = wifi_inited s"
proof -
  note h = assms [unfolded has_credentials_def]
  let ?c1 = "SettingsLoadOne NVS_SETTINGS_ID_WIFI_SSID (WIFI_SSID_MAX_LEN (cfg s))"
  define s1 where "s1 = s\<lparr>trace := trace s @ [?c1], gSSID := fill_buf (gSSID s) ssid,
    gSSID_len := int (length ssid)\<rparr>"
  have r1: "wifi_read_ssid s = Inr (False, s1)"
    using wifi_read_ssid_stored [of s ssid] h by (simp add: s1_def)
  have s1: "nvs_env_ok s1" "store s1 NVS_SETTINGS_ID_WIFI_PSK = Some psk" "cfg s1 = cfg s"
    using h by (simp_all add: s1_def nvs_env_ok_def quiet_call_def)
  note r2 = wifi_read_psk_stored [OF s1(1,2)]
  show ?thesis
    using r1 r2 h s1(3) by (simp add: connect_request_def take_fill_buf s1_def)
qed


lemma connect_asks_stored:
  fixes s :: "'z wifi_scheme"
  assumes run: "ob_wifi_connect deliver s = Inr (r, s')" and inited: "wifi_inited s"
    and iface: "\<And>tr. reply s tr (NetIfGet wifi_sta) = Some iface" "iface \<noteq> 0"
    and d: "\<And>e c. keeps (\<lambda>s. c \<in> set (trace s)) (deliver e)"
  shows "NetMgmt (connect_request s) iface \<in> set (trace s')"
proof -
  let ?c = "NetMgmt (connect_request s) iface"
  let ?I = "\<lambda>t. wifi_inited t \<and> connect_request t = connect_request s"
  define rest where "rest iface r = thn (if r = 0
      then bnd (ext_wait deliver (KSemTake wifi_connect_sem None)) (\<lambda>_. ret ()) else ret ())
    (thn (ready_led ''off'') (bnd (gets wifi_connect_status_succeded) (\<lambda>ok.
      if ok then thn (ext0 (NetIfSetDefault iface)) (ret r) else ret (- 1))))" for iface and r :: int
  let ?K = "\<lambda>t. ?c \<in> set (trace t)"
  have rest: "keeps ?K (rest iface r)" for r
    unfolding rest_def by (intro keeps_wifi d) simp_all
  have loop: "keeps ?K (connect_loop deliver ?c n r)" for n r
    by (intro keeps_connect_loop d) auto
  let ?s1 = "s\<lparr>trace := trace s @ [NetIfGet wifi_sta]\<rparr>"
  have "thn (ready_led ''green long'') (bnd (gets wifi_inited) (\<lambda>inited.
        if \<not> inited then ret (- 1)
        else bnd (gets connect_request) (\<lambda>req.
          bnd (connect_loop deliver (NetMgmt req iface) 20 0) (rest iface)))) ?s1 = Inr (r, s')"
    using run iface unfolding ob_wifi_connect_def rest_def [symmetric]
    by (simp del: thn_apply)
  then obtain t where t: "?I t" "bnd (gets wifi_inited) (\<lambda>inited.
        if \<not> inited then ret (- 1)
        else bnd (gets connect_request) (\<lambda>req.
          bnd (connect_loop deliver (NetMgmt req iface) 20 0) (rest iface))) t = Inr (r, s')"
    by (rule keeps_thn_Inr [where I = ?I])
      (use inited in \<open>auto intro!: keeps_wifi simp: connect_request_def\<close>)
  then have run2: "bnd (connect_loop deliver ?c 20 0) (rest iface) t = Inr (r, s')"
    by (simp add: bnd_apply [of "gets _"] del: bnd_apply)
  have "(20 :: nat) = Suc 19" by simp
  with run2 have "bnd (connect_loop deliver ?c (Suc 19) 0) (rest iface) t = Inr (r, s')"
    by (simp only:)
  then obtain q u where q: "connect_loop deliver ?c (Suc 19) 0 t = Inr (q, u)" "rest iface q u = Inr (r, s')"
    unfolding bnd_Inr by blast
  obtain y v where y: "ext ?c t = Inr (y, v)" "(if y = 0 then ret 0
       else bnd (ext_wait deliver (KMsleep 1000)) (\<lambda>_. connect_loop deliver ?c 19 y)) v = Inr (q, u)"
    using q(1) unfolding connect_loop.simps bnd_Inr by blast
  have v: "?K v" using y(1) by (auto simp: ext_apply split: option.splits)
  have k: "keeps ?K (if y = 0 then ret 0
       else bnd (ext_wait deliver (KMsleep 1000)) (\<lambda>_. connect_loop deliver ?c 19 y))"
    by (intro keeps_wifi d loop) simp
  from keeps_Inr [OF k v y(2)] have "?K u" .
  from keeps_Inr [OF rest this q(2)] show ?thesis .
qed

text \<open>
  A start-up that comes back, up to the point where it reads the credentials, and the rest of it.
\<close>

definition join_or_wait ::
  "(net_event \<Rightarrow> ('z wifi_scheme, unit) prog) \<Rightarrow> bool \<Rightarrow> ('z wifi_scheme, int) prog" where
  "join_or_wait deliver ap =
     bnd wifi_read_ssid (\<lambda>need1. bnd wifi_read_psk (\<lambda>need2.
     thn (if need1 \<or> need2 then
            cond ap (bnd (ext_wait deliver (KSemTake wifi_ap_sem None)) (\<lambda>_. ret ()))
          else bnd (ob_wifi_connect deliver) (\<lambda>_. ret ()))
       (ret 0)))"

lemma keeps_cond_Inr:
  "cond b m s = Inr ((), t) \<Longrightarrow> b \<Longrightarrow> m s = Inr ((), t)"
  by simp

lemma init_reads_credentials:
  assumes run: "ob_wifi_init deliver s = Inr (r, s')" and env: "nvs_env_ok s" and J: "start_frame J" "J s"
  obtains ap t4 t5 where "J t4" "cond ap wifi_init_ap t4 = Inr ((), t5)" "J t5" "wifi_inited t5"
    "join_or_wait deliver ap t5 = Inr (r, s')" "ap = CONFIG_ONBOARDING_WIFI_AP (cfg s)"
proof -
  let ?J = "\<lambda>t. J t \<and> cfg t = cfg s"
  let ?I = "\<lambda>t. ?J t \<and> wifi_inited t"
  have fJ: "start_frame ?J" "start_frame ?I" using J(1) unfolding start_frame_def by auto
  have cb: "keeps ?I (ext0 (NetMgmtAddCallback f))" for f
    by (rule keeps_ext0) (rule start_frame_trace [OF fJ(2) _ quiet_add_callback])
  obtain t0 where t0: "ob_nvs_data_init s = Inr (0, t0)" using nvsi.init_law [OF env] by blast
  have J0: "?J t0" using keeps_Inr [OF keeps_start_nvs_init [OF fJ(1)] _ t0] J(2) by simp
  let ?t1 = "t0\<lparr>wifi_inited := True\<rparr>"
  let ?ap = "CONFIG_ONBOARDING_WIFI_AP (cfg s)"
  have I1: "?I ?t1" using J0 fJ(1) unfolding start_frame_def by auto
  have "thn (cond (CONFIG_NET_HOSTNAME_DYNAMIC (cfg t0)) wifi_init_hostname)
        (thn (ext0 (NetMgmtAddCallback ''ob_wifi_mgmt_event_handler''))
        (thn (ext0 (NetMgmtAddCallback ''ipv4_mgmt_event_handler''))
        (thn (ext0 (NetMgmtAddCallback ''ethernet_mgmt_event_handler''))
        (thn (cond ?ap wifi_init_ap) (join_or_wait deliver ?ap))))) ?t1 = Inr (r, s')"
    using run t0 J0 unfolding ob_wifi_init_def bnd_def [of ob_nvs_data_init] join_or_wait_def
    by (simp add: thn_def [of "modify _"] bnd_apply [of "gets _"] bnd_apply [of "modify _"] del: bnd_apply thn_apply)
  then obtain t4 where t4: "?I t4" "thn (cond ?ap wifi_init_ap) (join_or_wait deliver ?ap) t4 = Inr (r, s')"
    by - (erule keeps_thn_Inr [where I = ?I], (intro keeps_intros keeps_start_hostname fJ I1 cb | assumption)+)+
  then obtain t5 where t5: "cond ?ap wifi_init_ap t4 = Inr ((), t5)" "join_or_wait deliver ?ap t5 = Inr (r, s')"
    unfolding thn_Inr by auto
  have "keeps ?I (cond ?ap wifi_init_ap)" by (intro keeps_cond keeps_start_init_ap fJ)
  from keeps_Inr [OF this t4(1) t5(1)] t4(1) t5 show thesis by (intro that) auto
qed

text \<open>A start-up that comes back with a network stored has asked for that network.\<close>

lemma init_connects_stored:
  assumes run: "ob_wifi_init deliver s = Inr (r, s')" and cred: "has_credentials ssid psk s"
    and iface: "\<And>tr. reply s tr (NetIfGet wifi_sta) = Some iface" "iface \<noteq> 0"
    and d: "\<And>e c. keeps (\<lambda>s. c \<in> set (trace s)) (deliver e)"
  shows "NetMgmt (NET_REQUEST_WIFI_CONNECT ssid psk) iface \<in> set (trace s')"
proof -
  let ?J = "\<lambda>t. has_credentials ssid psk t \<and> reply t = reply s"
  have env: "nvs_env_ok s" using cred by (simp add: has_credentials_def)
  have fJ: "start_frame ?J" using start_frame_has_credentials [of ssid psk] unfolding start_frame_def by auto
  obtain ap t where t: "?J t" "wifi_inited t" "join_or_wait deliver ap t = Inr (r, s')"
    using init_reads_credentials [OF run env fJ] cred by blast
  obtain u1 u2 where u: "wifi_read_ssid t = Inr (False, u1)" "wifi_read_psk u1 = Inr (False, u2)"
    "connect_request u2 = NET_REQUEST_WIFI_CONNECT ssid psk" "reply u2 = reply s" "wifi_inited u2"
    using wifi_read_credentials [of ssid psk t] t(1,2) by auto
  with t(3) have "\<exists>q. ob_wifi_connect deliver u2 = Inr (q, s')"
    unfolding join_or_wait_def by (auto split: sum.splits)
  then show ?thesis
    using connect_asks_stored [where deliver = deliver and s = u2 and s' = s' and iface = iface] u iface d
    by auto
qed

text \<open>
  A start-up that comes back without a network stored, or without a key, has asked for none; it
  has scheduled the access point. An empty key is no key.
\<close>

definition no_credentials :: "'z wifi_scheme \<Rightarrow> bool" where
  "no_credentials s \<longleftrightarrow> nvs_env_ok s \<and> \<not> CONFIG_ONBOARDING_PRECONFIG_WIFI (cfg s) \<and>
     (no_value (store s NVS_SETTINGS_ID_WIFI_SSID) \<or> no_value (store s NVS_SETTINGS_ID_WIFI_PSK))"

lemma start_frame_no_credentials: "start_frame no_credentials"
  by (simp add: start_frame_def no_credentials_def nvs_env_ok_def)

lemma wifi_read_apart:
  assumes "wifi_read_ssid t = Inr (n1, u1)" and "wifi_read_psk u1 = Inr (n2, u2)" and "no_credentials t"
  shows "n1 \<or> n2" "\<exists>cs. trace u2 = trace t @ cs \<and> (\<forall>c \<in> set cs. quiet_call c)"
proof -
  have ok: "settings_ok t" and h: "\<not> CONFIG_ONBOARDING_PRECONFIG_WIFI (cfg t)"
    and none: "no_value (store t NVS_SETTINGS_ID_WIFI_SSID) \<or> no_value (store t NVS_SETTINGS_ID_WIFI_PSK)"
    using assms(3) by (simp_all add: no_credentials_def nvs_env_ok_def)
  let ?c1 = "SettingsLoadOne NVS_SETTINGS_ID_WIFI_SSID (WIFI_SSID_MAX_LEN (cfg t))"
  let ?c2 = "SettingsLoadOne NVS_SETTINGS_ID_WIFI_PSK (WIFI_PSK_MAX_LEN (cfg t))"
  obtain x where x: "reply t (trace t) ?c1 = Some x" "n1 \<longleftrightarrow> x \<le> 0"
    using assms(1) h by (auto simp: wifi_read_ssid_def ob_nvs_data_read_def ext_data_apply Let_def
        split: option.splits if_splits)
  have u1: "trace u1 = trace t @ [?c1]" "reply u1 = reply t" "data u1 = data t" "cfg u1 = cfg t" "flash0 u1 = flash0 t"
    using assms(1) h x by (auto simp: wifi_read_ssid_def ob_nvs_data_read_def ext_data_apply Let_def
        split: if_splits)
  obtain y where y: "reply t (trace u1) ?c2 = Some y" "n2 \<longleftrightarrow> y \<le> 0"
    using assms(2) h u1 by (auto simp: wifi_read_psk_def ob_nvs_data_read_def ext_data_apply Let_def
        split: option.splits if_splits)
  have "trace u2 = trace t @ [?c1, ?c2]"
    using assms(2) h u1 y by (auto simp: wifi_read_psk_def ob_nvs_data_read_def ext_data_apply Let_def
        split: if_splits)
  then show "\<exists>cs. trace u2 = trace t @ cs \<and> (\<forall>c \<in> set cs. quiet_call c)" by (simp add: quiet_call_def)
  have same: "store_at (reply t) (flash0 t) (trace u1) NVS_SETTINGS_ID_WIFI_PSK = store t NVS_SETTINGS_ID_WIFI_PSK"
    unfolding u1(1) by (simp add: quiet_call_def)
  show "n1 \<or> n2"
    using none
  proof
    assume "no_value (store t NVS_SETTINGS_ID_WIFI_SSID)"
    then obtain z where "z \<le> 0" "reply t (trace t) ?c1 = Some z" by (rule settings_load_no_value [OF ok])
    with x show ?thesis by simp
  next
    assume "no_value (store t NVS_SETTINGS_ID_WIFI_PSK)"
    then have "no_value (store_at (reply t) (flash0 t) (trace u1) NVS_SETTINGS_ID_WIFI_PSK)" unfolding same .
    then obtain z where "z \<le> 0" "reply t (trace u1) ?c2 = Some z" by (rule settings_load_no_value [OF ok])
    with y show ?thesis by simp
  qed
qed

lemma init_ap_schedules:
  assumes "wifi_init_ap s = Inr ((), s')"
  shows "KWorkSchedule ''start_ap_work'' 500 \<in> set (trace s')"
  using assms unfolding wifi_init_ap_def ob_wifi_ap_enable_def
  by (elim thn_last bnd_last) (auto simp: ext0_apply split: option.splits)

lemma init_without_credentials:
  assumes run: "ob_wifi_init deliver s = Inr (r, s')" and none: "no_credentials s"
    and d: "\<And>e. asks 0 (deliver e)" "\<And>e c. keeps (\<lambda>s. c \<in> set (trace s)) (deliver e)"
  shows "r = 0 \<and> connects s' \<le> connects s \<and>
    (CONFIG_ONBOARDING_WIFI_AP (cfg s) \<longrightarrow> KWorkSchedule ''start_ap_work'' 500 \<in> set (trace s'))"
proof -
  let ?J = "\<lambda>t. no_credentials t \<and> connects t \<le> connects s"
  let ?c = "KWorkSchedule ''start_ap_work'' 500"
  have env: "nvs_env_ok s" using none by (simp add: no_credentials_def)
  have quiet: "\<not> is_connect c" if "quiet_call c" for c
    using that by (auto simp: quiet_call_def is_connect_def split: call.splits net_call.splits net_request.splits)
  have fJ: "start_frame ?J"
    using quiet by (simp add: start_frame_def no_credentials_def nvs_env_ok_def connects_def)
  obtain ap t4 t where t: "cond ap wifi_init_ap t4 = Inr ((), t)" "?J t" "join_or_wait deliver ap t = Inr (r, s')"
    "ap = CONFIG_ONBOARDING_WIFI_AP (cfg s)"
    using init_reads_credentials [OF run env fJ] none by blast
  from t(3) obtain n1 n2 u1 u2 where u: "wifi_read_ssid t = Inr (n1, u1)" "wifi_read_psk u1 = Inr (n2, u2)"
    "thn (if n1 \<or> n2 then cond ap (bnd (ext_wait deliver (KSemTake wifi_ap_sem None)) (\<lambda>_. ret ()))
          else bnd (ob_wifi_connect deliver) (\<lambda>_. ret ())) (ret 0) u2 = Inr (r, s')"
    unfolding join_or_wait_def bnd_Inr by blast
  let ?wait = "thn (cond ap (bnd (ext_wait deliver (KSemTake wifi_ap_sem None)) (\<lambda>_. ret ()))) (ret (0 :: int))"
  have "no_credentials t" using t(2) by blast
  note apart = wifi_read_apart [OF u(1,2) this]
  from apart(1) u(3) have wait: "?wait u2 = Inr (r, s')" by auto
  obtain cs where cs: "trace u2 = trace t @ cs" "\<forall>c \<in> set cs. quiet_call c" using apart(2) by blast
  have "filter is_connect cs = []" using cs(2) quiet by (simp add: filter_empty_conv)
  with cs(1) t(2) have u2: "connects u2 \<le> connects s" by (simp add: connects_def)
  have "asks 0 ?wait" by (intro asks_intros d) (simp add: is_connect_def)
  then have "connects (final (?wait u2)) \<le> connects u2" unfolding asks_def by (metis add_0_right)
  with wait u2 have "connects s' \<le> connects s" by simp
  moreover have "r = 0" using wait by (rule thn_last) simp
  moreover have "?c \<in> set (trace s')" if "CONFIG_ONBOARDING_WIFI_AP (cfg s)"
  proof -
    have "?c \<in> set (trace t)" using t(1,4) that by (intro init_ap_schedules [of t4]) simp
    then have u2: "?c \<in> set (trace u2)" by (simp add: cs(1))
    have "keeps (\<lambda>s. ?c \<in> set (trace s)) ?wait" by (intro keeps_intros keeps_ext_wait d) simp
    then have "?c \<in> set (trace (final (?wait u2)))" using u2 unfolding keeps_def by blast
    then show ?thesis unfolding wait by simp
  qed
  ultimately show ?thesis by blast
qed

section \<open>The name of the access point\<close>

lemma list6: "length m = 6 \<Longrightarrow> \<exists>a b c d e f. m = [a, b, c, d, e, f]"
  by (auto simp: numeral_eq_Suc length_Suc_conv)

definition mac_suffix :: "8 word list \<Rightarrow> string" where
  "mac_suffix m = concat (map hex2 (drop 3 m))"

lemma Mac2String_suffix:
  assumes "length m = 6"
  shows "[Mac2String m ! 9, Mac2String m ! 10, Mac2String m ! 12, Mac2String m ! 13,
    Mac2String m ! 15, Mac2String m ! 16] = mac_suffix m"
proof -
  obtain a b c d e f where m: "m = [a, b, c, d, e, f]" using list6 [OF assms] by blast
  show ?thesis by (simp add: m Mac2String_def mac_suffix_def hex2_def)
qed

lemma wifi_init_ap_name:
  assumes env: "responsive s" and iface: "reply s (trace s) (NetIfGet wifi_sap) = Some iface" "iface \<noteq> 0"
    and mac: "data s (trace s @ [NetIfGet wifi_sap]) (NetIfGetLinkAddr iface) = m" "length m = 6"
    and fit: "length (CONFIG_ONBOARDING_WIFI_AP_ADDRESS (cfg s)) < WIFI_AP_ADDRESS_SIZE"
      "length (CONFIG_ONBOARDING_WIFI_AP_PSK (cfg s)) < WIFI_PSK_MAX_LEN (cfg s)"
      "length (CONFIG_ONBOARDING_WIFI_AP_SSID (cfg s)) < WIFI_SSID_MAX_LEN (cfg s)"
  shows "if length (CONFIG_ONBOARDING_WIFI_AP_SSID (cfg s)) + 6 < WIFI_SSID_MAX_LEN (cfg s)
    then \<exists>s'. wifi_init_ap s = Inr ((), s') \<and>
      wifi_ap_ssid s' = CONFIG_ONBOARDING_WIFI_AP_SSID (cfg s) @ mac_suffix (map of_char m) \<and>
      wifi_ap_psk s' = CONFIG_ONBOARDING_WIFI_AP_PSK (cfg s)
    else \<exists>s'. wifi_init_ap s = Inl (OutOfBounds, s')"
proof -
  obtain x where x: "reply s (trace s @ [NetIfGet wifi_sap]) (NetIfGetLinkAddr iface) = Some x"
    using env by (auto elim: repliesE)
  obtain q where q: "\<And>tr f. reply s tr (KWorkInit f) = Some (q tr f)"
    using that [of "\<lambda>tr f. the (reply s tr (KWorkInit f))"] env by (auto simp: replies_def)
  obtain w where w: "\<And>tr f d. reply s tr (KWorkSchedule f d) = Some (w tr f d)"
    using that [of "\<lambda>tr f d. the (reply s tr (KWorkSchedule f d))"] env by (auto simp: replies_def)
  have suf: "length (mac_suffix (map of_char m)) = 6"
    using list6 [OF mac(2)] by (auto simp: mac_suffix_def)
  note suffix = Mac2String_suffix [of "map of_char m", simplified, OF mac(2)]
  show ?thesis
    using iface mac fit x suf
    by (auto simp: wifi_init_ap_def get_mac_address_def ob_wifi_ap_enable_def ext_data_apply ext0_apply
        q w Let_def suffix)
qed

section \<open>A scan\<close>

text \<open>The strength of a network is a percentage, whatever power was measured.\<close>

lemma scan_strength_range: "2 \<le> scan_strength rssi \<and> scan_strength rssi \<le> 100"
proof -
  have "- (2 ^ (LENGTH(8) - 1)) \<le> sint rssi" by (rule sint_ge)
  then show ?thesis by (simp add: scan_strength_def Let_def)
qed

definition scan_event :: "string \<times> nat \<times> 8 word \<times> bool \<Rightarrow> net_event" where
  "scan_event r = (case r of (x, n, rssi, sec) \<Rightarrow> WIFI_SCAN_RESULT x n rssi sec)"

definition scan_entry :: "string \<times> nat \<times> 8 word \<times> bool \<Rightarrow> scan_result" where
  "scan_entry r = (case r of (x, n, rssi, sec) \<Rightarrow> (x, n, sec, scan_strength rssi))"

lemma deliver_scan_results:
  "each (map scan_event rs) (wifi_deliver run_cb) =
   each (map scan_entry rs) (\<lambda>(x, n, sec, str). ssid_add_item x n sec str)"
  by (induction rs) (auto simp: scan_event_def scan_entry_def wifi_deliver_def
      ob_wifi_mgmt_event_handler_def handle_wifi_scan_result_def split: prod.split)

lemma list_models_trace [simp]: "list_models s l \<Longrightarrow> list_models (s\<lparr>trace := t\<rparr>) l"
  by (simp add: list_models_def ssid_models_def)

lemma has_memory_frame: "keeps (\<lambda>s. reply s = r) ssid_init_list"
  by (rule keeps_ssid_init_list) (simp add: list_frame_def)

lemma scan_starts:
  assumes l: "list_models s l" and inited: "wifi_inited s"
  shows "\<exists>s'. ob_wifi_scan s = Inr (0, s') \<and> list_models s' [] \<and> reply s' = reply s"
proof -
  have env: "responsive s" using l by (simp add: list_models_def)
  obtain i where i: "reply s (trace s) (NetIfGet wifi_sta) = Some i" using env by (auto elim: repliesE)
  let ?s1 = "s\<lparr>trace := trace s @ [NetIfGet wifi_sta]\<rparr>"
  have l1: "list_models ?s1 l" using l by simp
  obtain s2 where s2: "ssid_init_list ?s1 = Inr ((), s2)" "list_models s2 []"
    using sl.clear_law [OF l1] by blast
  have r2: "reply s2 = reply s" using keeps_Inr [OF has_memory_frame _ s2(1)] by simp
  obtain x where x: "reply s2 (trace s2) (NetMgmt NET_REQUEST_WIFI_SCAN i) = Some x"
    using env r2 by (auto elim: repliesE)
  have "ob_wifi_scan s = Inr (0, s2\<lparr>trace := trace s2 @ [NetMgmt NET_REQUEST_WIFI_SCAN i]\<rparr>)"
    using i inited s2(1) x by (simp add: ob_wifi_scan_def ext0_apply)
  with s2 r2 show ?thesis by simp
qed

lemma scan_collects:
  assumes l: "list_models s l" and inited: "wifi_inited s"
  shows "\<exists>s' l'. thn ob_wifi_scan (each (map scan_event rs) (wifi_deliver run_cb)) s = Inr ((), s') \<and>
    list_models s' l' \<and> names_distinct l' \<and>
    (has_memory (reply s) \<longrightarrow> l' = fold ap_add_result (map scan_entry rs) [])"
proof -
  obtain s3 where run: "ob_wifi_scan s = Inr (0, s3)" "list_models s3 []" "reply s3 = reply s"
    using scan_starts [OF assms] by blast
  have "names_distinct []" by (simp add: names_distinct_def)
  from sl.add_all [OF run(2) this, of "map scan_entry rs"] run show ?thesis
    unfolding deliver_scan_results by auto
qed

text \<open>A scan that found something leaves a list that is not empty.\<close>

lemma fold_ap_add_nonempty: "l \<noteq> [] \<Longrightarrow> fold ap_add_result rs l \<noteq> []"
  by (induction rs arbitrary: l) (auto simp: ap_add_result_def ap_add_def split: prod.split)

lemma found_nonempty: "rs \<noteq> [] \<Longrightarrow> fold ap_add_result (map scan_entry rs) [] \<noteq> []"
  by (cases rs) (auto simp: scan_entry_def ap_add_def ap_listed_def fold_ap_add_nonempty split: prod.split)

section \<open>Shutting down\<close>

lemma deinit_clears:
  "ob_wifi_deinit deliver s = Inr (u, s') \<Longrightarrow> \<not> wifi_inited s'"
  unfolding ob_wifi_deinit_def thn_Inr bnd_Inr by auto

lemma not_inited_refuses:
  assumes "\<not> wifi_inited s" and "responsive s"
  shows "\<exists>s1. ob_wifi_scan s = Inr (- 1, s1) \<and> connects s1 = connects s"
    and "\<exists>s2. ob_wifi_connect deliver s = Inr (- 1, s2) \<and> connects s2 = connects s"
proof -
  obtain i where i: "reply s (trace s) (NetIfGet wifi_sta) = Some i" using assms(2) by (auto elim: repliesE)
  obtain x where x: "\<And>tr y. reply s tr (ReadyLedSet y) = Some (x tr y)"
    using that [of "\<lambda>tr y. the (reply s tr (ReadyLedSet y))"] assms(2) by (auto simp: replies_def)
  show "\<exists>s1. ob_wifi_scan s = Inr (- 1, s1) \<and> connects s1 = connects s"
    using i assms(1) by (simp add: ob_wifi_scan_def is_connect_def)
  show "\<exists>s2. ob_wifi_connect deliver s = Inr (- 1, s2) \<and> connects s2 = connects s"
    using i assms(1) by (simp add: ob_wifi_connect_def ext0_apply x connects_def is_connect_def)
qed

end
