(* ===== verification/Ob_Sock.thy ===== *)
theory Ob_Sock
  imports Ob_Wifi_Facts
begin

text \<open>
  src/ob_web_server.c, the two ends of a connection: the bytes a handler receives one at a
  time, and \<open>sendall\<close>. What the peer and the network do on a socket is a script: \<open>rx\<close> is
  what the next calls of \<open>zsock_recv\<close> find, \<open>tx\<close> what the next calls of \<open>zsock_send\<close>
  answer to a chunk of a given length. A call with no script left does not come back.
  \<open>wire\<close> is what \<open>zsock_send\<close> has taken so far.

  The theory ends with the interface \<open>byte_sink\<close>: what a page may rely on when it sends its
  parts one after the other.
\<close>

section \<open>State\<close>

text \<open>A byte, the end of the stream, a try again (EAGAIN, EINTR), or an errno.\<close>

datatype rx_event = RxByte char | RxClosed | RxAgain | RxError int

record socks = wifi +
  rx :: "int \<Rightarrow> rx_event list"
  tx :: "int \<Rightarrow> (nat \<Rightarrow> int) list"
  wire :: "int \<Rightarrow> string"

definition zsock_recv :: "int \<Rightarrow> ('z socks_scheme, rx_event) prog" where
  "zsock_recv sock = bnd (gets (\<lambda>s. rx s sock)) (\<lambda>es. case es of
     [] \<Rightarrow> halted NoReturn
   | e # es' \<Rightarrow> thn (modify (\<lambda>s. s\<lparr>rx := (rx s)(sock := es')\<rparr>)) (ret e))"

definition zsock_send :: "int \<Rightarrow> string \<Rightarrow> ('z socks_scheme, int) prog" where
  "zsock_send sock chunk = bnd (gets (\<lambda>s. tx s sock)) (\<lambda>fs. case fs of
     [] \<Rightarrow> halted NoReturn
   | f # fs' \<Rightarrow>
       thn (modify (\<lambda>s. s\<lparr>trace := trace s @ [ZsockSend sock chunk], tx := (tx s)(sock := fs'),
              wire := (wire s)(sock := wire s sock @ take (nat (f (length chunk))) chunk)\<rparr>))
         (ret (f (length chunk))))"

section \<open>sendall\<close>

definition SENDALL_MAX_LEN :: nat where "SENDALL_MAX_LEN = 1024"

text \<open>
  The first argument bounds the iterations; each one calls \<open>zsock_send\<close>, so the length of
  the script is always enough. A result larger than what was left would make \<open>len\<close>
  wrap around and the loop read past the buffer.
\<close>

primrec sendall_loop :: "nat \<Rightarrow> int \<Rightarrow> string \<Rightarrow> ('z socks_scheme, int) prog" where
  "sendall_loop 0 sock buf = (if buf = [] then ret 0 else halted NoReturn)"
| "sendall_loop (Suc n) sock buf =
     (if buf = [] then ret 0
      else bnd (zsock_send sock (take SENDALL_MAX_LEN buf)) (\<lambda>out_len.
        if out_len < 0 then ret out_len
        else thn (require (nat out_len \<le> length buf) OutOfBounds)
               (sendall_loop n sock (drop (nat out_len) buf))))"

definition sendall :: "int \<Rightarrow> string \<Rightarrow> ('z socks_scheme, int) prog" where
  "sendall sock buf = bnd (gets (\<lambda>s. length (tx s sock))) (\<lambda>n. sendall_loop n sock buf)"

lemma zsock_send_Cons:
  "tx s c = f # fs \<Longrightarrow> zsock_send c b s = Inr (f (length b),
     s\<lparr>trace := trace s @ [ZsockSend c b], tx := (tx s)(c := fs),
       wire := (wire s)(c := wire s c @ take (nat (f (length b))) b)\<rparr>)"
  by (simp add: zsock_send_def)

lemma zsock_send_Nil: "tx s c = [] \<Longrightarrow> zsock_send c b s = Inl (NoReturn, s)"
  by (simp add: zsock_send_def)

text \<open>One iteration of the loop.\<close>

definition sent :: "int \<Rightarrow> string \<Rightarrow> nat \<Rightarrow> 'z socks_scheme \<Rightarrow> 'z socks_scheme" where
  "sent c chunk k s = s\<lparr>trace := trace s @ [ZsockSend c chunk], tx := (tx s)(c := tl (tx s c)),
     wire := (wire s)(c := wire s c @ take k chunk)\<rparr>"

lemma sent_fields [simp]:
  "tx (sent c b k s) = (tx s)(c := tl (tx s c))"
  "wire (sent c b k s) = (wire s)(c := wire s c @ take k b)"
  "trace (sent c b k s) = trace s @ [ZsockSend c b]"
  by (simp_all add: sent_def)

lemma sendall_step:
  assumes "tx s c = f # fs" and "b \<noteq> []"
  shows "sendall_loop (Suc n) c b s =
    (let chunk = take SENDALL_MAX_LEN b; r = f (length chunk); s1 = sent c chunk (nat r) s in
     if r < 0 then Inr (r, s1)
     else if nat r \<le> length b then sendall_loop n c (drop (nat r) b) s1
     else Inl (OutOfBounds, s1))"
  using assms by (simp add: zsock_send_Cons sent_def Let_def)

text \<open>
  The documented behaviour of \<open>zsock_send\<close> on a socket: it takes at most what it was given;
  on a live one, it takes at least a byte, for the next \<open>k\<close> calls.
\<close>

definition tx_law :: "(nat \<Rightarrow> int) list \<Rightarrow> bool" where
  "tx_law fs \<longleftrightarrow> (\<forall>f \<in> set fs. \<forall>k. f k \<le> int k)"

definition tx_live :: "(nat \<Rightarrow> int) list \<Rightarrow> nat \<Rightarrow> bool" where
  "tx_live fs k \<longleftrightarrow> k \<le> length fs \<and> (\<forall>f \<in> set fs. \<forall>k. 1 \<le> k \<longrightarrow> 1 \<le> f k)"

text \<open>
  What a completed call has done: the peer has been given a prefix of the buffer, all of it
  when the result is 0, and no other result is positive.
\<close>

lemma sendall_loop_prefix:
  assumes "sendall_loop n c b s = Inr (r, s')" and "tx_law (tx s c)"
  shows "r \<le> 0 \<and> tx_law (tx s' c) \<and> (\<forall>d. d \<noteq> c \<longrightarrow> wire s' d = wire s d) \<and>
    (\<exists>p. prefix p b \<and> wire s' c = wire s c @ p \<and> (r = 0 \<longrightarrow> p = b))"
  using assms
proof (induction n arbitrary: b s)
  case 0
  then show ?case by (auto split: if_splits)
next
  case (Suc n)
  consider "b = []" | "b \<noteq> []" "tx s c = []" | f fs where "b \<noteq> []" "tx s c = f # fs"
    by (cases "tx s c") auto
  then show ?case
  proof cases
    case 1
    with Suc.prems show ?thesis by auto
  next
    case 2
    with Suc.prems show ?thesis by (simp add: zsock_send_Nil)
  next
    case 3
    let ?ch = "take SENDALL_MAX_LEN b"
    let ?r = "f (length ?ch)"
    let ?s1 = "sent c ?ch (nat ?r) s"
    have law: "tx_law (tx ?s1 c)" "?r \<le> int (length ?ch)"
      using Suc.prems(2) 3(2) by (simp_all add: tx_law_def)
    note run = Suc.prems(1) [unfolded sendall_step [OF 3(2,1)] Let_def]
    show ?thesis
    proof (cases "?r < 0")
      case True
      then have "r = ?r" "s' = ?s1" using run by simp_all
      with True law(1) show ?thesis by (simp add: take_is_prefix)
    next
      case False
      with law(2) have k: "nat ?r \<le> length ?ch" by linarith
      then have kb: "nat ?r \<le> length b" by simp
      with run False have run1: "sendall_loop n c (drop (nat ?r) b) ?s1 = Inr (r, s')" by simp
      have b: "b = take (nat ?r) b @ drop (nat ?r) b" by simp
      have ch: "take (nat ?r) ?ch = take (nat ?r) b" using k by (simp add: min_absorb1)
      from Suc.IH [OF run1 law(1)] obtain p where p: "prefix p (drop (nat ?r) b)"
        "wire s' c = wire ?s1 c @ p" "r = 0 \<longrightarrow> p = drop (nat ?r) b" "r \<le> 0" "tx_law (tx s' c)"
        "\<forall>d. d \<noteq> c \<longrightarrow> wire s' d = wire ?s1 d" by blast
      have "prefix (take (nat ?r) b @ p) (take (nat ?r) b @ drop (nat ?r) b)"
        using p(1) by (simp only: same_prefix_prefix)
      then have "prefix (take (nat ?r) b @ p) b" using b by simp
      moreover have "r = 0 \<longrightarrow> take (nat ?r) b @ p = b" using p(3) b by simp
      moreover have "wire s' c = wire s c @ take (nat ?r) b @ p" using p(2) ch by simp
      ultimately show ?thesis using p(4,5,6) by auto
    qed
  qed
qed

text \<open>On a live socket it returns 0, and the buffer has gone out in order, once.\<close>

lemma sendall_loop_live:
  assumes "tx_law (tx s c)" and "tx_live (tx s c) (length b + k)" and "length b \<le> n"
  shows "\<exists>s'. sendall_loop n c b s = Inr (0, s') \<and> tx_law (tx s' c) \<and> tx_live (tx s' c) k"
  using assms
proof (induction n arbitrary: b s)
  case 0
  then show ?case by simp
next
  case (Suc n)
  show ?case
  proof (cases "b = []")
    case True
    with Suc.prems show ?thesis by simp
  next
    case False
    then have "tx s c \<noteq> []" using Suc.prems(2) by (auto simp: tx_live_def)
    then obtain f fs where f: "tx s c = f # fs" by (cases "tx s c") auto
    let ?ch = "take SENDALL_MAX_LEN b"
    let ?r = "f (length ?ch)"
    let ?s1 = "sent c ?ch (nat ?r) s"
    have "1 \<le> length ?ch" using False by (cases b) (simp_all add: SENDALL_MAX_LEN_def)
    then have r: "1 \<le> ?r" "?r \<le> int (length ?ch)" using Suc.prems(1,2) f by (simp_all add: tx_live_def tx_law_def)
    then have k: "nat ?r \<le> length b" "0 < nat ?r" by auto
    have "tx_live (tx ?s1 c) (length (drop (nat ?r) b) + k)" "tx_law (tx ?s1 c)"
      using Suc.prems(1,2) f k False by (auto simp: tx_live_def tx_law_def)
    moreover have "length (drop (nat ?r) b) \<le> n" using Suc.prems(3) k by simp
    ultimately obtain s' where "sendall_loop n c (drop (nat ?r) b) ?s1 = Inr (0, s')"
      "tx_law (tx s' c)" "tx_live (tx s' c) k"
      using Suc.IH by blast
    then show ?thesis unfolding sendall_step [OF f False] Let_def using r k by simp
  qed
qed

text \<open>No chunk is longer than the most one call may send.\<close>

lemma sendall_loop_chunks:
  "\<exists>cs. trace (final (sendall_loop n c b s)) = trace s @ map (ZsockSend c) cs \<and>
    (\<forall>x \<in> set cs. length x \<le> SENDALL_MAX_LEN)"
proof (induction n arbitrary: b s)
  case 0
  show ?case by (auto intro: exI [of _ "[]"])
next
  case (Suc n)
  consider "b = []" | "b \<noteq> []" "tx s c = []" | f fs where "b \<noteq> []" "tx s c = f # fs"
    by (cases "tx s c") auto
  then show ?case
  proof cases
    case 3
    let ?ch = "take SENDALL_MAX_LEN b"
    obtain cs where cs: "trace (final (sendall_loop n c (drop (nat (f (length ?ch))) b)
        (sent c ?ch (nat (f (length ?ch))) s))) = (trace s @ [ZsockSend c ?ch]) @ map (ZsockSend c) cs"
      "\<forall>x \<in> set cs. length x \<le> SENDALL_MAX_LEN"
      using Suc.IH [of "drop (nat (f (length ?ch))) b" "sent c ?ch (nat (f (length ?ch))) s"] by auto
    show ?thesis
    proof (cases "f (length ?ch) < 0 \<or> length b < nat (f (length ?ch))")
      case True
      then have "trace (final (sendall_loop (Suc n) c b s)) = trace s @ map (ZsockSend c) [?ch]"
        unfolding sendall_step [OF 3(2,1)] Let_def by auto
      moreover have "\<forall>x \<in> set [?ch]. length x \<le> SENDALL_MAX_LEN" by simp
      ultimately show ?thesis by blast
    next
      case False
      then have "trace (final (sendall_loop (Suc n) c b s)) = trace s @ map (ZsockSend c) (?ch # cs)"
        unfolding sendall_step [OF 3(2,1)] Let_def using cs(1) by auto
      moreover have "\<forall>x \<in> set (?ch # cs). length x \<le> SENDALL_MAX_LEN" using cs(2) by simp
      ultimately show ?thesis by blast
    qed
  qed (auto simp: zsock_send_Nil intro: exI [of _ "[]"])
qed

text \<open>A property that the bookkeeping of sockets does not touch.\<close>

definition sock_frame :: "('z socks_scheme \<Rightarrow> bool) \<Rightarrow> bool" where
  "sock_frame I \<longleftrightarrow> (\<forall>s. I s \<longrightarrow> (\<forall>c b t w. I (s\<lparr>trace := trace s @ [ZsockSend c b], tx := t, wire := w\<rparr>)) \<and>
     (\<forall>r. I (s\<lparr>rx := r\<rparr>)))"

lemma keeps_zsock_send:
  assumes "sock_frame I"
  shows "keeps I (zsock_send c b)"
proof -
  have "keeps I (modify (\<lambda>s. s\<lparr>trace := trace s @ [ZsockSend c b], tx := (tx s)(c := fs),
      wire := (wire s)(c := wire s c @ x)\<rparr>))" for fs x
    by (rule keeps_modify) (use assms in \<open>unfold sock_frame_def, blast\<close>)
  then show ?thesis
    unfolding zsock_send_def by (intro keeps_intros) (auto split: list.split intro!: keeps_intros)
qed

lemma keeps_sendall: "sock_frame I \<Longrightarrow> keeps I (sendall c b)"
proof -
  assume I: "sock_frame I"
  have "keeps I (sendall_loop n c b)" for n
    by (induction n arbitrary: b) (auto intro!: keeps_intros keeps_zsock_send I)
  then show ?thesis unfolding sendall_def by (intro keeps_intros)
qed

section \<open>The interface of a byte sink\<close>

locale byte_sink =
  fixes snd_all :: "int \<Rightarrow> string \<Rightarrow> ('s, int) prog"
    and out :: "'s \<Rightarrow> int \<Rightarrow> string"
    and law :: "'s \<Rightarrow> int \<Rightarrow> bool"
    and live :: "'s \<Rightarrow> int \<Rightarrow> nat \<Rightarrow> bool"
  assumes snd_prefix: "law s c \<Longrightarrow> snd_all c b s = Inr (r, s') \<Longrightarrow>
      r \<le> 0 \<and> law s' c \<and> (\<exists>p. prefix p b \<and> out s' c = out s c @ p \<and> (r = 0 \<longrightarrow> p = b))"
    and snd_live: "law s c \<Longrightarrow> live s c (length b + k) \<Longrightarrow>
      \<exists>s'. snd_all c b s = Inr (0, s') \<and> live s' c k"
begin

text \<open>The parts of a page, each sent whatever the one before returned; the last result counts.\<close>

primrec send_parts :: "int \<Rightarrow> string list \<Rightarrow> int \<Rightarrow> ('s, int) prog" where
  "send_parts c [] r = ret r"
| "send_parts c (b # bs) r = bnd (snd_all c b) (send_parts c bs)"

lemma snd_whole:
  assumes "law s c" and "live s c (length b + k)"
  shows "\<exists>s'. snd_all c b s = Inr (0, s') \<and> law s' c \<and> live s' c k \<and> out s' c = out s c @ b"
proof -
  obtain s' where s': "snd_all c b s = Inr (0, s')" "live s' c k" using snd_live [OF assms] by blast
  with snd_prefix [OF assms(1) s'(1)] show ?thesis by auto
qed

lemma send_parts_whole:
  assumes "law s c" and "live s c (length (concat bs) + k)" and "bs \<noteq> [] \<or> r = 0"
  shows "\<exists>s'. send_parts c bs r s = Inr (0, s') \<and> law s' c \<and> live s' c k \<and>
    out s' c = out s c @ concat bs"
  using assms
proof (induction bs arbitrary: r s)
  case Nil
  then show ?case by simp
next
  case (Cons b bs)
  have "live s c (length b + (length (concat bs) + k))" using Cons.prems(2) by (simp add: add.assoc)
  from snd_whole [OF Cons.prems(1) this] obtain s1 where
    s1: "snd_all c b s = Inr (0, s1)" "law s1 c" "live s1 c (length (concat bs) + k)" "out s1 c = out s c @ b"
    by blast
  with Cons.IH [OF s1(2,3), of 0] show ?case by auto
qed

end

definition sock_law :: "'z socks_scheme \<Rightarrow> int \<Rightarrow> bool" where
  "sock_law s c \<longleftrightarrow> tx_law (tx s c)"

definition sock_live :: "'z socks_scheme \<Rightarrow> int \<Rightarrow> nat \<Rightarrow> bool" where
  "sock_live s c k \<longleftrightarrow> tx_live (tx s c) k"

interpretation bs: byte_sink sendall wire sock_law sock_live
proof (unfold_locales, goal_cases)
  case (1 s c b r s')
  then show ?case
    using sendall_loop_prefix [of "length (tx s c)" c b s r s'] by (simp add: sendall_def sock_law_def)
next
  case (2 s c b k)
  then have "length b \<le> length (tx s c)" by (simp add: sock_live_def tx_live_def)
  with 2 sendall_loop_live [of s c b k "length (tx s c)"] show ?case
    by (auto simp: sendall_def sock_law_def sock_live_def)
qed

end
