(* ===== verification/Ob_Pages.thy ===== *)
theory Ob_Pages
  imports Ob_Sock
begin

unbundle bit_operations_syntax

text \<open>
  src/ob_web_server.c, include/ob_web_server.h: the registered web pages, the menu and the
  header of a page, and the home page. Pages are only ever added, at the head of the list
  \<open>web_pages\<close>; a pointer to one is its distance to the end of the list, which registering
  others does not change. The callbacks of a page are functions of other files, so
  \<open>run_page\<close> says how to run one.
\<close>

section \<open>The registry\<close>

definition MAX_WEB_PATH_NAME_LEN :: nat where "MAX_WEB_PATH_NAME_LEN = 32"
definition MAX_WEB_TITLE_LEN :: nat where "MAX_WEB_TITLE_LEN = 32"

definition PAGE_IS_HOME_PAGE :: int where "PAGE_IS_HOME_PAGE = 1"
definition PAGE_IS_CAPTIVE_PORTAL :: int where "PAGE_IS_CAPTIVE_PORTAL = 2"

record web_page =
  pathname :: string        \<comment> \<open>the array\<close>
  title :: string           \<comment> \<open>the array\<close>
  flags :: int
  content_length :: int
  get_callback :: "fnptr option"
  post_callback :: "fnptr option"

record pages = socks +
  web_pages :: "web_page list"

text \<open>The loop over the pages: the first one a test accepts, with its pointer.\<close>

primrec find_wp ::
  "(web_page \<Rightarrow> ('s, bool) prog) \<Rightarrow> web_page list \<Rightarrow> ('s, (nat \<times> web_page) option) prog" where
  "find_wp test [] = ret None"
| "find_wp test (wp # wps) =
     bnd (test wp) (\<lambda>b. if b then ret (Some (Suc (length wps), wp)) else find_wp test wps)"

definition load_wp :: "nat \<Rightarrow> ('z pages_scheme, web_page) prog" where
  "load_wp p = bnd (gets web_pages) (\<lambda>ps.
     if p = 0 \<or> length ps < p then halted NullDeref else ret (ps ! (length ps - p)))"

definition set_content_length :: "nat \<Rightarrow> int \<Rightarrow> ('z pages_scheme, unit) prog" where
  "set_content_length p n = bnd (load_wp p) (\<lambda>wp.
     modify (\<lambda>s. s\<lparr>web_pages := (web_pages s)[length (web_pages s) - p := wp\<lparr>content_length := n\<rparr>]\<rparr>))"

definition ob_ws_register_web_page ::
  "string \<Rightarrow> string \<Rightarrow> fnptr option \<Rightarrow> fnptr option \<Rightarrow> int \<Rightarrow> ('z pages_scheme, int) prog" where
  "ob_ws_register_web_page path ttl get_cb post_cb flgs =
     bnd (gets web_pages) (\<lambda>ps.
     bnd (find_wp (\<lambda>wp. ret (strncmp_eq path (pathname wp) MAX_WEB_PATH_NAME_LEN)) ps) (\<lambda>found.
     case found of
       Some _ \<Rightarrow> ret 0
     | None \<Rightarrow> bnd (malloc 84) (\<lambda>wp.
         if wp \<noteq> 0 then
           thn (modify (\<lambda>s. s\<lparr>web_pages :=
              \<lparr>pathname = strncpy_buf MAX_WEB_PATH_NAME_LEN path, title = strncpy_buf MAX_WEB_TITLE_LEN ttl,
               flags = flgs, content_length = 0, get_callback = get_cb, post_callback = post_cb\<rparr> # ps\<rparr>))
             (ret 0)
         else ret (- 1))))"

definition ob_web_get_option_fmt :: string where
  "ob_web_get_option_fmt = ''<option value='' @ [DQ] @ ''%s'' @ [DQ] @ ''>%s</option>''"

definition ob_web_get_selected_option_fmt :: string where
  "ob_web_get_selected_option_fmt = ''<option value='' @ [DQ] @ ''%s'' @ [DQ] @ '' selected>%s</option>''"

section \<open>The menu\<close>

definition WEB_MENU_LEN :: nat where "WEB_MENU_LEN = 256"

definition MENU_ELEM_START :: string where "MENU_ELEM_START = ''<a href='' @ [DQ]"
definition MENU_ELEM_END :: string where "MENU_ELEM_END = ''</a>''"

definition menu_start :: string where
  "menu_start = ''<div>'' @ [LF] @ ''<h1 style='' @ [DQ] @ ''text-align:center;background-color:#3EE427;'' @ [DQ] @
     ''>Beechwoods</h1>'' @ [LF] @ ''</div>'' @ [LF] @ ''<div>'' @ [LF] @ ''<h3 style='' @ [DQ] @
     ''background-color:#1E90FF;'' @ [DQ] @ ''>''"

definition menu_end :: string where
  "menu_end = ''</h3>'' @ [LF] @ ''</div>'' @ [LF]"

text \<open>\<open>strcat\<close> on an array of \<open>n\<close> characters whose contents are \<open>dst\<close>.\<close>

definition strcat :: "nat \<Rightarrow> string \<Rightarrow> string \<Rightarrow> ('s, string) prog" where
  "strcat n dst src = thn (require (length dst + length src < n) OutOfBounds) (ret (dst @ src))"

text \<open>The appends of a list of strings, in order.\<close>

primrec strcats :: "nat \<Rightarrow> string \<Rightarrow> string list \<Rightarrow> ('s, string) prog" where
  "strcats n dst [] = ret dst"
| "strcats n dst (x # xs) = bnd (strcat n dst x) (\<lambda>d. strcats n d xs)"

text \<open>\<open>strlen\<close> of an array, and its contents.\<close>

definition str_of :: "string \<Rightarrow> ('s, string) prog" where
  "str_of b = thn (require (terminated b) Unterminated) (ret (cstr b))"

primrec menu_items :: "web_page list \<Rightarrow> nat \<Rightarrow> string \<Rightarrow> ('s, string option) prog" where
  "menu_items [] len menu = ret (Some menu)"
| "menu_items (wp # wps) len menu =
     bnd (str_of (pathname wp)) (\<lambda>path. bnd (str_of (title wp)) (\<lambda>ttl.
     if WEB_MENU_LEN < len + 19 + length path + length ttl then ret None
     else bnd (strcats WEB_MENU_LEN menu
            [''&nbsp;'', MENU_ELEM_START, path, [DQ] @ ''>'', ttl, MENU_ELEM_END]) (\<lambda>menu.
          menu_items wps (len + 19 + length path + length ttl) menu)))"

definition create_menu :: "('z pages_scheme, string option) prog" where
  "create_menu =
     bnd (strcat WEB_MENU_LEN [] menu_start) (\<lambda>menu.
     bnd (gets web_pages) (\<lambda>ps.
     bnd (menu_items ps (5 + length menu) menu) (\<lambda>r. case r of
       None \<Rightarrow> ret None
     | Some menu \<Rightarrow> bnd (strcat WEB_MENU_LEN menu menu_end) (\<lambda>menu. ret (Some menu)))))"

section \<open>The header\<close>

definition HEADER200_SIZE :: nat where "HEADER200_SIZE = 1024"
definition MAX_HEADER_CONTENT_LEN :: nat where "MAX_HEADER_CONTENT_LEN = 40"

definition http1_1_OK :: string where "http1_1_OK = ''HTTP/1.1 200 OK'' @ [CR, LF]"
definition content_head :: string where
  "content_head = ''<html>'' @ [LF] @ ''<head>'' @ [LF] @ ''<title>''"
definition content_head_tail :: string where
  "content_head_tail = ''</title>'' @ [LF] @ ''</head>'' @ [LF] @ ''<body>'' @ [LF]"
definition CONTENT_TYPE :: string where
  "CONTENT_TYPE = ''Content-Type: text/html; charset=UTF-8'' @ [CR, LF, CR, LF]"

text \<open>\<open>"Content-Length: %d"\<close> and a line end, printed.\<close>

definition content_length_line :: "int \<Rightarrow> string" where
  "content_length_line n = ''Content-Length: '' @ dec_int n @ [CR, LF]"

definition CreateHeader200 :: "int \<Rightarrow> string \<Rightarrow> ('z pages_scheme, string option) prog" where
  "CreateHeader200 contentlen ttl =
     bnd create_menu (\<lambda>m. case m of
       None \<Rightarrow> ret None
     | Some menu \<Rightarrow>
         (let contentlen = contentlen + int (length content_head + length ttl +
                length content_head_tail + length menu);
              itembuf = take (MAX_HEADER_CONTENT_LEN - 1) (content_length_line contentlen);
              len = length http1_1_OK + length itembuf + length content_head + (length CONTENT_TYPE + 1)
                + length menu + 1
          in if len < HEADER200_SIZE then
               bnd (strcats HEADER200_SIZE []
                 [http1_1_OK, itembuf, CONTENT_TYPE, content_head, ttl, content_head_tail, menu])
                 (\<lambda>h. ret (Some h))
             else ret None))"

section \<open>Error pages and the home page\<close>

definition http1_1_404 :: string where
  "http1_1_404 = ''HTTP/1.1 404 Not Found'' @ [CR, LF] @ ''Content-Length=162'' @ [CR, LF, CR, LF] @
     ''<html><head><title>404 Not Found</title></head>'' @ [LF] @ ''<body bgcolor='' @ [DQ] @ ''white'' @ [DQ] @
     ''><center><h1>404 Not Found</h1></center><hr><center>nginx/0.8.54</center></body></html>''"

definition http1_1_500 :: string where
  "http1_1_500 = ''HTTP/1.1 500 Internal Server Error'' @ [CR, LF] @ ''Content-Length=199'' @ [CR, LF, CR, LF] @
     ''<html><head><title>500 Internal Server Error</title></head>'' @ [LF] @ ''<body bgcolor='' @ [DQ] @
     ''white'' @ [DQ] @
     ''><center><h1>500 Internal Server Error</h1></center><hr><center>nginx/0.8.54</center></body></html>''"

definition display_404 :: "int \<Rightarrow> ('z socks_scheme, unit) prog" where
  "display_404 client = bnd (sendall client http1_1_404) (\<lambda>rc. ret ())"

definition display_500 :: "int \<Rightarrow> ('z socks_scheme, unit) prog" where
  "display_500 client = bnd (sendall client http1_1_500) (\<lambda>rc. ret ())"

type_synonym 's page_runner = "fnptr \<Rightarrow> int \<Rightarrow> nat \<Rightarrow> ('s, int) prog"

definition ob_web_server_display_home ::
  "'z pages_scheme page_runner \<Rightarrow> int \<Rightarrow> ('z pages_scheme, int) prog" where
  "ob_web_server_display_home run_page client =
     bnd (gets web_pages) (\<lambda>ps.
     bnd (find_wp (\<lambda>wp. ret (flags wp AND PAGE_IS_HOME_PAGE \<noteq> 0 \<and> get_callback wp \<noteq> None)) ps) (\<lambda>r.
     case r of
       Some (p, wp) \<Rightarrow> run_page (the (get_callback wp)) client p
     | None \<Rightarrow> thn (display_404 client) (ret (- 1))))"

section \<open>Facts on the registry\<close>

text \<open>A test that always answers and changes nothing: the loop is a search.\<close>

lemma find_wp_pure:
  assumes "\<And>wp. wp \<in> set ps \<Longrightarrow> test wp s = Inr (P wp, s)"
  shows "find_wp test ps s = Inr (map_option (\<lambda>i. (length ps - i, ps ! i)) (first_index P ps), s)"
  using assms
proof (induction ps)
  case Nil
  then show ?case by simp
next
  case (Cons wp ps)
  then have "test wp s = Inr (P wp, s)"
    "find_wp test ps s = Inr (map_option (\<lambda>i. (length ps - i, ps ! i)) (first_index P ps), s)"
    by simp_all
  then show ?case by (auto simp: option.map_comp comp_def)
qed

lemma keeps_find_wp: "(\<And>wp. keeps I (test wp)) \<Longrightarrow> keeps I (find_wp test ps)"
  by (induction ps) (auto intro!: keeps_intros)

text \<open>The name a page is known by: what \<open>strncmp\<close> compares.\<close>

definition page_key :: "web_page \<Rightarrow> string" where
  "page_key wp = take MAX_WEB_PATH_NAME_LEN (cstr (pathname wp))"

definition path_key :: "string \<Rightarrow> string" where
  "path_key path = take MAX_WEB_PATH_NAME_LEN (cstr path)"

definition page_of :: "'z pages_scheme \<Rightarrow> string \<Rightarrow> web_page option" where
  "page_of s k = find (\<lambda>wp. page_key wp = k) (web_pages s)"

definition new_page :: "string \<Rightarrow> string \<Rightarrow> fnptr option \<Rightarrow> fnptr option \<Rightarrow> int \<Rightarrow> web_page" where
  "new_page path ttl get_cb post_cb flgs =
     \<lparr>pathname = strncpy_buf MAX_WEB_PATH_NAME_LEN path, title = strncpy_buf MAX_WEB_TITLE_LEN ttl,
      flags = flgs, content_length = 0, get_callback = get_cb, post_callback = post_cb\<rparr>"

lemma strncmp_key: "strncmp_eq path (pathname wp) MAX_WEB_PATH_NAME_LEN \<longleftrightarrow> page_key wp = path_key path"
  by (auto simp: strncmp_eq_def page_key_def path_key_def)

lemma page_key_new [simp]: "page_key (new_page path ttl g p f) = path_key path"
  by (simp add: page_key_def new_page_def path_key_def)

lemma register_apply:
  "ob_ws_register_web_page path ttl g p f s =
    (if \<exists>wp \<in> set (web_pages s). page_key wp = path_key path then Inr (0, s)
     else case reply s (trace s) (Malloc 84) of
       None \<Rightarrow> Inl (NoReturn, s\<lparr>trace := trace s @ [Malloc 84]\<rparr>)
     | Some r \<Rightarrow> if r = 0 then Inr (- 1, s\<lparr>trace := trace s @ [Malloc 84]\<rparr>)
         else Inr (0, s\<lparr>trace := trace s @ [Malloc 84], brk := Suc (brk s),
                web_pages := new_page path ttl g p f # web_pages s\<rparr>))"
proof -
  have "find_wp (\<lambda>wp. ret (strncmp_eq path (pathname wp) MAX_WEB_PATH_NAME_LEN)) (web_pages s) s =
    Inr (map_option (\<lambda>i. (length (web_pages s) - i, web_pages s ! i))
      (first_index (\<lambda>wp. page_key wp = path_key path) (web_pages s)), s)"
    by (rule find_wp_pure) (simp add: strncmp_key)
  moreover have "first_index (\<lambda>wp. page_key wp = path_key path) (web_pages s) \<noteq> None
    \<longleftrightarrow> (\<exists>wp \<in> set (web_pages s). page_key wp = path_key path)" by simp
  ultimately show ?thesis
    by (cases "first_index (\<lambda>wp. page_key wp = path_key path) (web_pages s)")
      (auto simp: ob_ws_register_web_page_def malloc_apply new_page_def split: option.split)
qed

text \<open>No two pages have the same name, however many are registered.\<close>

definition pages_distinct :: "'z pages_scheme \<Rightarrow> bool" where
  "pages_distinct s \<longleftrightarrow> distinct (map page_key (web_pages s))"

lemma register_distinct: "keeps pages_distinct (ob_ws_register_web_page path ttl g p f)"
  by (rule keepsI) (auto simp: register_apply pages_distinct_def split: option.split)

section \<open>The interface of the registry\<close>

locale page_registry =
  fixes reg :: "string \<Rightarrow> string \<Rightarrow> fnptr option \<Rightarrow> fnptr option \<Rightarrow> int \<Rightarrow> ('s, int) prog"
    and lookup :: "'s \<Rightarrow> string \<Rightarrow> web_page option"
    and invar :: "'s \<Rightarrow> bool"
  assumes reg_new: "invar s \<Longrightarrow> lookup s (path_key path) = None \<Longrightarrow>
      \<exists>r s'. reg path ttl g p f s = Inr (r, s') \<and> invar s' \<and>
        (r = 0 \<and> lookup s' = (lookup s)(path_key path \<mapsto> new_page path ttl g p f) \<or>
         r < 0 \<and> lookup s' = lookup s)"
    and reg_old: "invar s \<Longrightarrow> lookup s (path_key path) = Some wp \<Longrightarrow> reg path ttl g p f s = Inr (0, s)"
begin

text \<open>A registration that returned 0 leaves a page with that name; a second one changes nothing.\<close>

lemma reg_found:
  assumes "invar s" and "reg path ttl g p f s = Inr (0, s')"
  shows "lookup s' (path_key path) \<noteq> None \<and> invar s'"
proof (cases "lookup s (path_key path)")
  case None
  from reg_new [OF assms(1) this, of ttl g p f] assms(2) show ?thesis by auto
next
  case (Some wp)
  from reg_old [OF assms(1) this, of ttl g p f] Some assms show ?thesis by simp
qed

lemma reg_twice:
  assumes "invar s" and "reg path ttl g p f s = Inr (0, s')"
  shows "reg path ttl' g' p' f' s' = Inr (0, s')"
proof -
  obtain wp where "lookup s' (path_key path) = Some wp" using reg_found [OF assms] by auto
  with reg_found [OF assms] show ?thesis using reg_old by blast
qed

lemma reg_keeps_others:
  assumes "invar s" and "reg path ttl g p f s = Inr (r, s')" and "k \<noteq> path_key path"
  shows "lookup s' k = lookup s k"
proof (cases "lookup s (path_key path)")
  case None
  from reg_new [OF assms(1) this, of ttl g p f] assms(2,3) show ?thesis by auto
next
  case (Some wp)
  from reg_old [OF assms(1) this, of ttl g p f] assms(2) show ?thesis by simp
qed

end

interpretation pr: page_registry ob_ws_register_web_page page_of "\<lambda>s. responsive s"
proof (unfold_locales, goal_cases)
  case (1 s path ttl g p f)
  obtain r where r: "reply s (trace s) (Malloc 84) = Some r" using 1(1) by (auto elim: repliesE)
  have no: "\<not> (\<exists>wp \<in> set (web_pages s). page_key wp = path_key path)"
    using 1(2) by (auto simp: page_of_def find_None_iff)
  show ?case
    using 1(1) r no by (auto simp: register_apply page_of_def fun_eq_iff)
next
  case (2 s path wp ttl g p f)
  then have "\<exists>wp \<in> set (web_pages s). page_key wp = path_key path"
    unfolding page_of_def find_Some_iff by (metis nth_mem)
  then show ?case by (simp add: register_apply)
qed

section \<open>Facts on the menu\<close>

definition page_ok :: "web_page \<Rightarrow> bool" where
  "page_ok wp \<longleftrightarrow> terminated (pathname wp) \<and> terminated (title wp)"

lemma page_ok_new: "length (cstr path) < 32 \<Longrightarrow> length (cstr ttl) < 32 \<Longrightarrow> page_ok (new_page path ttl g p f)"
  by (simp add: page_ok_def new_page_def terminated_strncpy_buf MAX_WEB_PATH_NAME_LEN_def MAX_WEB_TITLE_LEN_def)

definition menu_item :: "web_page \<Rightarrow> string" where
  "menu_item wp = ''&nbsp;'' @ MENU_ELEM_START @ cstr (pathname wp) @ [DQ] @ ''>'' @ cstr (title wp) @ MENU_ELEM_END"

definition menu_text :: "web_page list \<Rightarrow> string" where
  "menu_text ps = menu_start @ concat (map menu_item ps) @ menu_end"

text \<open>What the source counts for an entry, and what it is: two characters more.\<close>

definition counted :: "web_page \<Rightarrow> nat" where
  "counted wp = 19 + length (cstr (pathname wp)) + length (cstr (title wp))"

lemma length_menu_item: "length (menu_item wp) = counted wp + 2"
  by (simp add: menu_item_def counted_def MENU_ELEM_START_def MENU_ELEM_END_def)

lemma length_menu_start: "length menu_start = 129"
  by (simp add: menu_start_def)

lemma strcat_apply [simp]:
  "strcat n d x s = (if length d + length x < n then Inr (d @ x, s) else Inl (OutOfBounds, s))"
  by (simp add: strcat_def)

lemma strcats_apply:
  "strcats n d xs s = (if xs = [] \<or> length d + length (concat xs) < n then Inr (d @ concat xs, s)
     else Inl (OutOfBounds, s))"
proof (induction xs arbitrary: d)
  case Nil
  then show ?case by simp
next
  case (Cons x xs)
  then show ?case by (auto simp: Cons.IH)
qed

declare strcats.simps [simp del]

lemma str_of_ok [simp]: "terminated b \<Longrightarrow> str_of b s = Inr (cstr b, s)"
  by (simp add: str_of_def)

text \<open>One round of the loop: the size test, then the entry appended if it fits.\<close>

lemma menu_items_step:
  assumes "page_ok wp"
  shows "menu_items (wp # ps) len menu s =
    (if WEB_MENU_LEN < len + counted wp then Inr (None, s)
     else if length menu + length (menu_item wp) < WEB_MENU_LEN
     then menu_items ps (len + counted wp) (menu @ menu_item wp) s
     else Inl (OutOfBounds, s))"
proof -
  have item: "concat [''&nbsp;'', MENU_ELEM_START, cstr (pathname wp), [DQ] @ ''>'', cstr (title wp), MENU_ELEM_END]
      = menu_item wp" by (simp add: menu_item_def)
  show ?thesis
    using assms by (simp add: page_ok_def strcats_apply item counted_def add.assoc
        del: concat.simps append_assoc append.simps)
qed

declare menu_items.simps(2) [simp del]

text \<open>The loop, from a menu of some length: in bounds it appends every entry.\<close>

lemma menu_items_fit:
  assumes "\<forall>wp \<in> set ps. page_ok wp" and "len + sum_list (map counted ps) \<le> WEB_MENU_LEN"
    and "length menu + length (concat (map menu_item ps)) < WEB_MENU_LEN"
  shows "menu_items ps len menu s = Inr (Some (menu @ concat (map menu_item ps)), s)"
  using assms by (induction ps arbitrary: len menu) (simp_all add: menu_items_step)

text \<open>A menu the loop made is the text of the pages, and every strcat of it was in bounds.\<close>

lemma menu_items_Some:
  assumes "\<forall>wp \<in> set ps. page_ok wp" and "menu_items ps len menu s = Inr (Some m, s')"
  shows "s' = s \<and> m = menu @ concat (map menu_item ps)"
  using assms
proof (induction ps arbitrary: len menu)
  case (Cons wp ps)
  then have "menu_items ps (len + counted wp) (menu @ menu_item wp) s = Inr (Some m, s')"
    by (auto simp: menu_items_step split: if_splits)
  with Cons.IH [of "len + counted wp" "menu @ menu_item wp"] Cons.prems(1) show ?case by simp
qed simp

text \<open>
  The size test of the loop is passed, yet the text does not fit: the write past the array
  is reached, in the loop or with the tail.
\<close>

lemma menu_items_overflow:
  assumes "\<forall>wp \<in> set ps. page_ok wp" and "len + sum_list (map counted ps) \<le> WEB_MENU_LEN"
    and "length menu < WEB_MENU_LEN" "WEB_MENU_LEN \<le> length menu + length (concat (map menu_item ps))"
  shows "menu_items ps len menu s = Inl (OutOfBounds, s)"
  using assms by (induction ps arbitrary: len menu) (simp_all add: menu_items_step)

text \<open>The size of the menu as the source counts it.\<close>

definition menu_counted :: "web_page list \<Rightarrow> nat" where
  "menu_counted ps = 5 + length menu_start + sum_list (map counted ps)"

lemma length_menu_text: "length (menu_text ps) = menu_counted ps + 2 * length ps + 8"
proof -
  have "length (concat (map menu_item ps)) = sum_list (map counted ps) + 2 * length ps"
    by (induction ps) (simp_all add: length_menu_item)
  then show ?thesis by (simp add: menu_text_def menu_counted_def menu_end_def)
qed

lemma create_menu_apply:
  "create_menu s = (case menu_items (web_pages s) (5 + length menu_start) menu_start s of
     Inl x \<Rightarrow> Inl x
   | Inr (None, s') \<Rightarrow> Inr (None, s')
   | Inr (Some m, s') \<Rightarrow> if length m + length menu_end < WEB_MENU_LEN then Inr (Some (m @ menu_end), s')
       else Inl (OutOfBounds, s'))"
proof -
  have "length menu_start < WEB_MENU_LEN" by (simp add: length_menu_start WEB_MENU_LEN_def)
  then show ?thesis by (auto simp: create_menu_def split: sum.split option.split)
qed

lemma create_menu_fits:
  assumes "\<forall>wp \<in> set (web_pages s). page_ok wp" and "length (menu_text (web_pages s)) < WEB_MENU_LEN"
  shows "create_menu s = Inr (Some (menu_text (web_pages s)), s)"
proof -
  have "5 + length menu_start + sum_list (map counted (web_pages s)) \<le> WEB_MENU_LEN"
    using assms(2) unfolding length_menu_text menu_counted_def by linarith
  from menu_items_fit [OF assms(1) this, of menu_start s] assms(2) show ?thesis
    by (simp add: create_menu_apply menu_text_def)
qed

lemma create_menu_Some:
  assumes "\<forall>wp \<in> set (web_pages s). page_ok wp" and "create_menu s = Inr (Some m, s')"
  shows "s' = s \<and> m = menu_text (web_pages s) \<and> length m < WEB_MENU_LEN"
proof -
  obtain m0 s1 where m0: "menu_items (web_pages s) (5 + length menu_start) menu_start s = Inr (Some m0, s1)"
    and m: "length m0 + length menu_end < WEB_MENU_LEN" "m = m0 @ menu_end" "s' = s1"
    using assms(2) unfolding create_menu_apply by (auto split: if_splits sum.splits option.splits)
  from menu_items_Some [OF assms(1) m0] m show ?thesis by (simp add: menu_text_def)
qed

lemma create_menu_overflow:
  assumes "\<forall>wp \<in> set (web_pages s). page_ok wp" and "menu_counted (web_pages s) \<le> WEB_MENU_LEN"
    and "WEB_MENU_LEN \<le> length (menu_text (web_pages s))"
  shows "create_menu s = Inl (OutOfBounds, s)"
proof -
  have c: "5 + length menu_start + sum_list (map counted (web_pages s)) \<le> WEB_MENU_LEN"
    using assms(2) by (simp add: menu_counted_def)
  show ?thesis
  proof (cases "length menu_start + length (concat (map menu_item (web_pages s))) < WEB_MENU_LEN")
    case True
    from menu_items_fit [OF assms(1) c True, of s] assms(3) show ?thesis
      by (simp add: create_menu_apply menu_text_def)
  next
    case False
    have "length menu_start < WEB_MENU_LEN" by (simp add: length_menu_start WEB_MENU_LEN_def)
    from menu_items_overflow [OF assms(1) c this, of s] False show ?thesis by (simp add: create_menu_apply)
  qed
qed

section \<open>Facts on the header\<close>

text \<open>The part of a page that the header already holds.\<close>

definition page_head :: "string \<Rightarrow> string \<Rightarrow> string" where
  "page_head ttl menu = content_head @ ttl @ content_head_tail @ menu"

definition header_text :: "int \<Rightarrow> string \<Rightarrow> string \<Rightarrow> string" where
  "header_text n ttl menu = http1_1_OK @ content_length_line (n + int (length (page_head ttl menu))) @
     CONTENT_TYPE @ page_head ttl menu"

lemma dec_int_length: "in_int z \<Longrightarrow> length (dec_int z) \<le> 11"
proof -
  assume z: "in_int z"
  then have "nat \<bar>z\<bar> < 10 ^ 10" by (auto simp: in_int_def)
  then have "length (dec_nat (nat \<bar>z\<bar>)) \<le> 10" using dec_nat_length [of "nat \<bar>z\<bar>" 10] by simp
  then show ?thesis by (cases "z < 0") (simp_all add: dec_int_def)
qed

lemma CreateHeader200_text:
  assumes menu: "create_menu s = Inr (Some m, s)" "length m < WEB_MENU_LEN"
    and ttl: "length ttl \<le> 512" and n: "in_int (n + int (length (page_head ttl m)))"
  shows "CreateHeader200 n ttl s = Inr (Some (header_text n ttl m), s)"
proof -
  define line where "line = content_length_line (n + int (length (page_head ttl m)))"
  have cl: "n + int (length content_head + length ttl + length content_head_tail + length m) =
      n + int (length (page_head ttl m))" by (simp add: page_head_def)
  have line: "length line \<le> 29"
    using dec_int_length [OF n] by (simp add: line_def content_length_line_def)
  have cut: "take (MAX_HEADER_CONTENT_LEN - 1) line = line"
    using line by (simp add: MAX_HEADER_CONTENT_LEN_def)
  have fits: "length [] + length (concat [http1_1_OK, line, CONTENT_TYPE, content_head, ttl, content_head_tail, m])
      < HEADER200_SIZE"
    using line menu(2) ttl by (simp add: http1_1_OK_def CONTENT_TYPE_def content_head_def
        content_head_tail_def HEADER200_SIZE_def WEB_MENU_LEN_def)
  have len: "length http1_1_OK + length line + length content_head + (length CONTENT_TYPE + 1) + length m + 1
      < HEADER200_SIZE"
    using line menu(2) by (simp add: http1_1_OK_def CONTENT_TYPE_def content_head_def HEADER200_SIZE_def WEB_MENU_LEN_def)
  have h: "concat [http1_1_OK, line, CONTENT_TYPE, content_head, ttl, content_head_tail, m] = header_text n ttl m"
    by (simp add: header_text_def line_def page_head_def)
  have run: "strcats HEADER200_SIZE [] [http1_1_OK, line, CONTENT_TYPE, content_head, ttl, content_head_tail, m] s
      = Inr (header_text n ttl m, s)"
    unfolding strcats_apply h [symmetric] append_Nil by (rule if_P) (rule disjI2 [OF fits])
  show ?thesis
    unfolding CreateHeader200_def bnd_apply menu(1) sum.case prod.case option.case Let_def cl
      line_def [symmetric] cut
    using len run by simp
qed

text \<open>The length the header announces is that of all that follows it.\<close>

lemma header_announces:
  "header_text (int n') ttl m @ rest = http1_1_OK @ ''Content-Length: '' @
      dec_nat (n' + length (page_head ttl m)) @ [CR, LF] @ CONTENT_TYPE @ page_head ttl m @ rest"
  by (simp add: header_text_def content_length_line_def dec_int_def nat_add_distrib nat_int_add)

end
