(* ===== verification/Ob_Request.thy ===== *)
theory Ob_Request
  imports Ob_Pages
begin

text \<open>
  src/ob_web_server.c, the request scanner inside \<open>client_conn_handler\<close>: the local variables
  of the handler as a record, one character of the request as a step (\<open>scan_char\<close>), the
  loop as a run over what the socket delivers. The theory shows when the scan is safe, and
  what method, path and length it takes from a request.
\<close>

section \<open>The scanner\<close>

datatype page_type = GET | POST | UNKNOWN

record req =
  rq_i :: nat
  rq_start_page :: nat
  rq_page_type :: page_type
  rq_filename :: string     \<comment> \<open>the array, MAX_WEB_PATH_NAME_LEN characters\<close>
  rq_getbuf :: string       \<comment> \<open>the array, 6 characters\<close>
  rq_req_state :: nat
  rq_doGetLength :: bool
  rq_length :: int
  rq_ct_index :: nat

definition CONTENT_LENGTH_END :: nat where "CONTENT_LENGTH_END = 15"

definition content_length_pattern :: string where
  "content_length_pattern = ''Content-Length: %d'' @ [CR, LF, NUL]"

definition req_init :: req where
  "req_init = \<lparr>rq_i = 0, rq_start_page = 0, rq_page_type = UNKNOWN,
     rq_filename = replicate MAX_WEB_PATH_NAME_LEN NUL, rq_getbuf = replicate 6 NUL, rq_req_state = 0,
     rq_doGetLength = False, rq_length = 0, rq_ct_index = 0\<rparr>"

text \<open>The first block: the characters of the method, and those of the path.\<close>

definition scan_getbuf :: "char \<Rightarrow> req \<Rightarrow> req" where
  "scan_getbuf c r = (if rq_i r < 5 then r\<lparr>rq_getbuf := (rq_getbuf r)[rq_i r := c]\<rparr> else r)"

definition scan_path :: "char \<Rightarrow> req \<Rightarrow> halt + req" where
  "scan_path c r =
     (if 0 < rq_start_page r then
        (case put_char (rq_filename r) (rq_i r - rq_start_page r) (if c = SP then NUL else c) of
           None \<Rightarrow> Inl OutOfBounds
         | Some b \<Rightarrow> Inr (r\<lparr>rq_filename := b, rq_start_page := (if c = SP then 0 else rq_start_page r)\<rparr>))
      else Inr r)"

definition scan_method :: "char \<Rightarrow> req \<Rightarrow> req" where
  "scan_method c r =
     (let r1 = (if rq_i r = 4 \<and> strncmp_eq ''GET '' (rq_getbuf r) 4
            then r\<lparr>rq_page_type := GET, rq_start_page := 4, rq_filename := (rq_filename r)[0 := c]\<rparr> else r)
      in if rq_start_page r1 = 0 \<and> rq_i r1 = 5 \<and> strncmp_eq ''POST'' (rq_getbuf r1) 4
         then r1\<lparr>rq_page_type := POST, rq_start_page := 5, rq_filename := (rq_filename r1)[0 := c]\<rparr>
         else r1)"

text \<open>The digits of the length, then the search for the header's name.\<close>

definition scan_length :: "char \<Rightarrow> req \<Rightarrow> halt + req" where
  "scan_length c r =
     (if rq_doGetLength r then
        (if c = CR then Inr (r\<lparr>rq_doGetLength := False\<rparr>)
         else if is_digit c then
           (if in_int (rq_length r * 10) \<and> in_int (rq_length r * 10 + int (digit_val c))
            then Inr (r\<lparr>rq_length := rq_length r * 10 + int (digit_val c)\<rparr>) else Inl SignedOverflow)
         else Inr r)
      else Inr r)"

definition scan_name :: "char \<Rightarrow> req \<Rightarrow> req" where
  "scan_name c r =
     (if content_length_pattern ! rq_ct_index r = c then
        (if rq_ct_index r = CONTENT_LENGTH_END then r\<lparr>rq_doGetLength := True, rq_ct_index := 0\<rparr>
         else r\<lparr>rq_ct_index := rq_ct_index r + 1\<rparr>)
      else r)"

text \<open>The end of the headers: true when the blank line is complete.\<close>

definition scan_end :: "char \<Rightarrow> req \<Rightarrow> req \<times> bool" where
  "scan_end c r =
     (if rq_req_state r = 0 \<and> c = CR then (r\<lparr>rq_req_state := 1\<rparr>, False)
      else if rq_req_state r = 1 \<and> c = LF then (r\<lparr>rq_req_state := 2\<rparr>, False)
      else if rq_req_state r = 2 \<and> c = CR then (r\<lparr>rq_req_state := 3\<rparr>, False)
      else if rq_req_state r = 3 \<and> c = LF then (r, True)
      else (r\<lparr>rq_req_state := 0\<rparr>, False))"

definition scan_char :: "char \<Rightarrow> req \<Rightarrow> halt + (req \<times> bool)" where
  "scan_char c r =
     (case scan_path c (scan_getbuf c r) of
        Inl h \<Rightarrow> Inl h
      | Inr r1 \<Rightarrow> (case scan_length c (scan_method c r1) of
          Inl h \<Rightarrow> Inl h
        | Inr r2 \<Rightarrow> (case scan_end c (scan_name c r2) of
            (r3, True) \<Rightarrow> Inr (r3, True)
          | (r3, False) \<Rightarrow> Inr (r3\<lparr>rq_i := rq_i r3 + 1\<rparr>, False))))"

text \<open>
  The loop over what the socket delivers: the request as scanned, whether the socket failed,
  and what is left to read. No more script: the handler waits for ever.
\<close>

datatype scan_outcome =
    Scanned req bool "rx_event list"
  | ScanHalt halt "rx_event list"

fun scan_request :: "rx_event list \<Rightarrow> req \<Rightarrow> scan_outcome" where
  "scan_request [] r = ScanHalt NoReturn []"
| "scan_request (e # es) r =
     (case e of
        RxClosed \<Rightarrow> Scanned r False es
      | RxAgain \<Rightarrow> scan_request es r
      | RxError _ \<Rightarrow> Scanned r True es
      | RxByte c \<Rightarrow>
          (case scan_char c r of
             Inl h \<Rightarrow> ScanHalt h es
           | Inr (r', True) \<Rightarrow> Scanned r' False es
           | Inr (r', False) \<Rightarrow> scan_request es r'))"

section \<open>Three automata\<close>

text \<open>
  The scanner is three independent automata that read the same characters: one takes the
  method and the path, one the length, one finds the blank line.
\<close>

type_synonym path_state = "nat \<times> nat \<times> page_type \<times> string \<times> string"
type_synonym length_state = "bool \<times> int \<times> nat"

definition mk_req :: "path_state \<Rightarrow> length_state \<Rightarrow> nat \<Rightarrow> req" where
  "mk_req p l e = (case p of (i, sp, pt, fn, gb) \<Rightarrow> case l of (d, n, k) \<Rightarrow>
     \<lparr>rq_i = i, rq_start_page = sp, rq_page_type = pt, rq_filename = fn, rq_getbuf = gb, rq_req_state = e,
      rq_doGetLength = d, rq_length = n, rq_ct_index = k\<rparr>)"

fun path_step :: "char \<Rightarrow> path_state \<Rightarrow> halt + path_state" where
  "path_step c (i, sp, pt, fn, gb) =
     (let gb = (if i < 5 then gb[i := c] else gb) in
      case (if 0 < sp then put_char fn (i - sp) (if c = SP then NUL else c) else Some fn) of
        None \<Rightarrow> Inl OutOfBounds
      | Some fn \<Rightarrow>
         (let sp = (if c = SP then 0 else sp) in
          if i = 4 \<and> strncmp_eq ''GET '' gb 4 then Inr (Suc i, 4, GET, fn[0 := c], gb)
          else if sp = 0 \<and> i = 5 \<and> strncmp_eq ''POST'' gb 4 then Inr (Suc i, 5, POST, fn[0 := c], gb)
          else Inr (Suc i, sp, pt, fn, gb)))"

fun length_step :: "char \<Rightarrow> length_state \<Rightarrow> halt + length_state" where
  "length_step c (d, n, k) =
     (if d \<and> c \<noteq> CR \<and> is_digit c \<and> \<not> (in_int (n * 10) \<and> in_int (n * 10 + int (digit_val c)))
      then Inl SignedOverflow
      else let n = (if d \<and> c \<noteq> CR \<and> is_digit c then n * 10 + int (digit_val c) else n);
               d = (d \<and> c \<noteq> CR)
           in if content_length_pattern ! k \<noteq> c then Inr (d, n, k)
              else if k = CONTENT_LENGTH_END then Inr (True, n, 0) else Inr (d, n, Suc k))"

fun end_step :: "char \<Rightarrow> nat \<Rightarrow> nat option" where
  "end_step c e =
     (if e = 0 \<and> c = CR then Some 1 else if e = 1 \<and> c = LF then Some 2
      else if e = 2 \<and> c = CR then Some 3 else if e = 3 \<and> c = LF then None else Some 0)"

lemma path_part:
  assumes "path_step c p = Inr p'"
  shows "\<exists>r1. scan_path c (scan_getbuf c (mk_req p l e)) = Inr r1 \<and>
    scan_method c r1 = mk_req (fst p, snd p') l e \<and> fst p' = Suc (fst p)"
proof -
  obtain i sp pt fn gb where p: "p = (i, sp, pt, fn, gb)" by (cases p)
  define gb1 where "gb1 = (if i < 5 then gb[i := c] else gb)"
  obtain fn1 where fn1: "(if 0 < sp then put_char fn (i - sp) (if c = SP then NUL else c) else Some fn) = Some fn1"
    using assms by (auto simp: p Let_def split: option.splits)
  define sp1 where "sp1 = (if c = SP then 0 else sp)"
  have p': "p' = (if i = 4 \<and> strncmp_eq ''GET '' gb1 4 then (Suc i, 4, GET, fn1[0 := c], gb1)
          else if sp1 = 0 \<and> i = 5 \<and> strncmp_eq ''POST'' gb1 4 then (Suc i, 5, POST, fn1[0 := c], gb1)
          else (Suc i, sp1, pt, fn1, gb1))"
    using assms fn1 by (auto simp: p gb1_def sp1_def Let_def split: if_splits)
  have g: "scan_getbuf c (mk_req p l e) = mk_req (i, sp, pt, fn, gb1) l e"
    by (cases l) (simp add: scan_getbuf_def mk_req_def p gb1_def)
  have path: "scan_path c (mk_req (i, sp, pt, fn, gb1) l e) = Inr (mk_req (i, sp1, pt, fn1, gb1) l e)"
    using fn1 by (cases l; cases "0 < sp") (simp_all add: scan_path_def mk_req_def sp1_def)
  have "scan_method c (mk_req (i, sp1, pt, fn1, gb1) l e) = mk_req (fst p, snd p') l e"
    by (cases l) (simp add: p p' scan_method_def mk_req_def Let_def)
  moreover have "fst p' = Suc (fst p)" by (simp add: p p')
  ultimately show ?thesis using g path by simp
qed

lemma length_part:
  assumes "length_step c l = Inr l'"
  shows "\<exists>r2. scan_length c (mk_req p l e) = Inr r2 \<and> scan_name c r2 = mk_req p l' e"
proof -
  obtain d n k where l: "l = (d, n, k)" by (cases l)
  define d1 where "d1 \<longleftrightarrow> d \<and> c \<noteq> CR"
  define n1 where "n1 = (if d \<and> c \<noteq> CR \<and> is_digit c then n * 10 + int (digit_val c) else n)"
  have len: "scan_length c (mk_req p l e) = Inr (mk_req p (d1, n1, k) e)"
    using assms by (cases p) (auto simp: l scan_length_def mk_req_def d1_def n1_def split: if_splits)
  have "l' = (if content_length_pattern ! k \<noteq> c then (d1, n1, k)
      else if k = CONTENT_LENGTH_END then (True, n1, 0) else (d1, n1, Suc k))"
    using assms by (auto simp: l d1_def n1_def Let_def split: if_splits)
  then have "scan_name c (mk_req p (d1, n1, k) e) = mk_req p l' e"
    by (cases p) (simp add: scan_name_def mk_req_def)
  with len show ?thesis by simp
qed

lemma end_part:
  "scan_end c (mk_req p l e) =
    (case end_step c e of None \<Rightarrow> (mk_req p l 3, True) | Some e' \<Rightarrow> (mk_req p l e', False))"
  by (cases p; cases l) (simp add: scan_end_def mk_req_def)

lemma inc_part: "mk_req p l e\<lparr>rq_i := rq_i (mk_req p l e) + 1\<rparr> = mk_req (Suc (fst p), snd p) l e"
  by (cases p; cases l) (simp add: mk_req_def)

lemma scan_char_mk:
  assumes "path_step c p = Inr p'" and "length_step c l = Inr l'"
  shows "scan_char c (mk_req p l e) =
      Inr (case end_step c e of None \<Rightarrow> (mk_req (fst p, snd p') l' 3, True)
        | Some e' \<Rightarrow> (mk_req p' l' e', False))"
proof -
  obtain r1 where r1: "scan_path c (scan_getbuf c (mk_req p l e)) = Inr r1"
    "scan_method c r1 = mk_req (fst p, snd p') l e" "fst p' = Suc (fst p)"
    using path_part [OF assms(1)] by blast
  obtain r2 where r2: "scan_length c (mk_req (fst p, snd p') l e) = Inr r2"
    "scan_name c r2 = mk_req (fst p, snd p') l' e"
    using length_part [OF assms(2)] by blast
  have "(Suc (fst p), snd p') = p'" using r1(3) by (cases p') simp
  then show ?thesis
    by (simp only: scan_char_def r1 sum.case r2 end_part)
      (cases "end_step c e", simp_all only: option.case prod.case bool.case inc_part fst_conv snd_conv)
qed

lemma scan_char_mk_path:
  assumes "path_step c p = Inl h"
  shows "scan_char c (mk_req p l e) = Inl h"
proof -
  obtain i sp pt fn gb where p: "p = (i, sp, pt, fn, gb)" by (cases p)
  obtain d n k where l: "l = (d, n, k)" by (cases l)
  show ?thesis
    using assms
    by (auto simp: p l scan_char_def mk_req_def scan_getbuf_def scan_path_def Let_def split: option.splits if_splits)
qed

text \<open>A step that may halt, run over a text.\<close>

fun runs :: "(char \<Rightarrow> 'a \<Rightarrow> halt + 'a) \<Rightarrow> string \<Rightarrow> 'a \<Rightarrow> halt + 'a" where
  "runs step [] a = Inr a"
| "runs step (c # cs) a = (case step c a of Inl h \<Rightarrow> Inl h | Inr a' \<Rightarrow> runs step cs a')"

fun end_runs :: "string \<Rightarrow> nat \<Rightarrow> nat option" where
  "end_runs [] e = Some e"
| "end_runs (c # cs) e = (case end_step c e of None \<Rightarrow> None | Some e' \<Rightarrow> end_runs cs e')"

lemma runs_append: "runs f (xs @ ys) a = (case runs f xs a of Inl h \<Rightarrow> Inl h | Inr a' \<Rightarrow> runs f ys a')"
  by (induction xs arbitrary: a) (auto split: sum.split)

lemma end_runs_append: "end_runs (xs @ ys) e = (case end_runs xs e of None \<Rightarrow> None | Some e' \<Rightarrow> end_runs ys e')"
  by (induction xs arbitrary: e) (auto split: option.split simp del: end_step.simps)

declare path_step.simps [simp del] length_step.simps [simp del] end_step.simps [simp del]

lemma scan_text:
  assumes "runs path_step xs p = Inr p'" and "runs length_step xs l = Inr l'" and "end_runs xs e = Some e'"
  shows "scan_request (map RxByte xs @ es) (mk_req p l e) = scan_request es (mk_req p' l' e')"
  using assms
proof (induction xs arbitrary: p l e)
  case Nil
  then show ?case by simp
next
  case (Cons c xs)
  obtain p1 where p1: "path_step c p = Inr p1" "runs path_step xs p1 = Inr p'"
    using Cons.prems(1) by (auto split: sum.splits)
  obtain l1 where l1: "length_step c l = Inr l1" "runs length_step xs l1 = Inr l'"
    using Cons.prems(2) by (auto split: sum.splits)
  obtain e1 where e1: "end_step c e = Some e1" "end_runs xs e1 = Some e'"
    using Cons.prems(3) by (auto split: option.splits)
  have "scan_char c (mk_req p l e) = Inr (mk_req p1 l1 e1, False)"
    using scan_char_mk [OF p1(1) l1(1), of e] e1(1) by auto
  with Cons.IH [OF p1(2) l1(2) e1(2)] show ?case by simp
qed

text \<open>The scan of a text whose last character completes the blank line.\<close>

lemma scan_text_end:
  assumes "runs path_step (xs @ [LF]) p = Inr p'" and "runs length_step (xs @ [LF]) l = Inr l'"
    and "end_runs xs e = Some 3"
  shows "\<exists>p''. scan_request (map RxByte (xs @ [LF]) @ es) (mk_req p l e) = Scanned (mk_req p'' l' 3) False es \<and>
    snd p'' = snd p'"
proof -
  obtain p1 where p1: "runs path_step xs p = Inr p1" "path_step LF p1 = Inr p'"
    using assms(1) by (auto simp: runs_append split: sum.splits)
  obtain l1 where l1: "runs length_step xs l = Inr l1" "length_step LF l1 = Inr l'"
    using assms(2) by (auto simp: runs_append split: sum.splits)
  have "scan_request (map RxByte (xs @ [LF]) @ es) (mk_req p l e) =
    scan_request (RxByte LF # es) (mk_req p1 l1 3)"
    using scan_text [OF p1(1) l1(1) assms(3), of "RxByte LF # es"] by simp
  moreover have "end_step LF 3 = None" by (simp add: end_step.simps)
  ultimately show ?thesis
    using scan_char_mk [OF p1(2) l1(2), of 3] by (intro exI [of _ "(fst p1, snd p')"]) simp
qed

lemma req_init_mk: "req_init = mk_req (0, 0, UNKNOWN, replicate MAX_WEB_PATH_NAME_LEN NUL, replicate 6 NUL) (False, 0, 0) 0"
  by (simp add: req_init_def mk_req_def)

section \<open>The path\<close>

text \<open>A run of characters of the path, from the second one on.\<close>

lemma path_run:
  assumes "SP \<notin> set xs" and "5 \<le> i" and "0 < sp" and "i - sp = length pre" and "sp \<le> i"
    and "length pre + length xs \<le> 32"
  shows "runs path_step xs (i, sp, pt, pre @ replicate (32 - length pre) NUL, gb) =
    Inr (i + length xs, sp, pt, (pre @ xs) @ replicate (32 - (length pre + length xs)) NUL, gb)"
  using assms
proof (induction xs arbitrary: i pre)
  case Nil
  then show ?case by simp
next
  case (Cons c xs)
  have "32 - length pre = Suc (31 - length pre)" using Cons.prems(6) by simp
  then have upd: "(pre @ replicate (32 - length pre) NUL)[length pre := c] =
      (pre @ [c]) @ replicate (32 - length (pre @ [c])) NUL"
    by (simp add: list_update_end)
  have step: "path_step c (i, sp, pt, pre @ replicate (32 - length pre) NUL, gb) =
      Inr (Suc i, sp, pt, (pre @ [c]) @ replicate (32 - length (pre @ [c])) NUL, gb)"
    using Cons.prems upd by (auto simp: path_step.simps Let_def)
  have "runs path_step xs (Suc i, sp, pt, (pre @ [c]) @ replicate (32 - length (pre @ [c])) NUL, gb) =
    Inr (Suc i + length xs, sp, pt, ((pre @ [c]) @ xs) @
      replicate (32 - (length (pre @ [c]) + length xs)) NUL, gb)"
    by (rule Cons.IH) (use Cons.prems in auto)
  with step show ?case by simp
qed

text \<open>After the path, nothing changes the method and the path again.\<close>

lemma path_rest:
  assumes "6 \<le> i"
  shows "\<exists>i'. runs path_step xs (i, 0, pt, fn, gb) = Inr (i', 0, pt, fn, gb)"
  using assms
proof (induction xs arbitrary: i)
  case (Cons c xs)
  then have "path_step c (i, 0, pt, fn, gb) = Inr (Suc i, 0, pt, fn, gb)"
    by (simp add: path_step.simps)
  with Cons show ?case by simp
qed simp

definition no_path :: path_state where
  "no_path = (0, 0, UNKNOWN, replicate 32 NUL, replicate 6 NUL)"

lemma path_GET_start:
  "runs path_step (''GET '' @ [c]) no_path = Inr (5, 4, GET, c # replicate 31 NUL,
     ''GET '' @ [c, NUL])"
  by (simp add: no_path_def path_step.simps Let_def numeral_eq_Suc strncmp_eq_def)

lemma path_POST_start:
  "runs path_step (''POST '' @ [c]) no_path = Inr (6, 5, POST, c # replicate 31 NUL, ''POST '' @ [NUL])"
  by (simp add: no_path_def path_step.simps Let_def numeral_eq_Suc strncmp_eq_def)

definition method_text :: "page_type \<Rightarrow> string" where
  "method_text pt = (case pt of GET \<Rightarrow> ''GET '' | POST \<Rightarrow> ''POST '' | UNKNOWN \<Rightarrow> [])"

lemma path_start:
  assumes "pt \<noteq> UNKNOWN"
  shows "\<exists>sp gb. runs path_step (method_text pt @ [c]) no_path =
      Inr (Suc sp, sp, pt, c # replicate 31 NUL, gb) \<and> 4 \<le> sp \<and> (sp = 4 \<longrightarrow> \<not> strncmp_eq ''POST'' gb 4)"
  using assms path_GET_start [of c] path_POST_start [of c]
  by (cases pt) (auto simp: method_text_def strncmp_eq_def)

text \<open>The path of a request line ends up in the array when it is shorter than it.\<close>

lemma path_taken:
  assumes pt: "pt \<noteq> UNKNOWN" and path: "SP \<notin> set path" "path \<noteq> []" "length path < 32"
  shows "\<exists>i gb. runs path_step (method_text pt @ path @ SP # xs) no_path =
    Inr (i, 0, pt, path @ replicate (32 - length path) NUL, gb)"
proof -
  obtain c cs where c: "path = c # cs" using path(2) by (cases path) auto
  obtain sp gb where st: "runs path_step (method_text pt @ [c]) no_path =
      Inr (Suc sp, sp, pt, c # replicate 31 NUL, gb)" "4 \<le> sp" "sp = 4 \<longrightarrow> \<not> strncmp_eq ''POST'' gb 4"
    using path_start [OF pt] by blast
  have "runs path_step cs (Suc sp, sp, pt, [c] @ replicate (32 - length [c]) NUL, gb) =
    Inr (Suc sp + length cs, sp, pt, ([c] @ cs) @ replicate (32 - (length [c] + length cs)) NUL, gb)"
    by (rule path_run) (use path c st(2) in auto)
  then have run: "runs path_step (method_text pt @ path) no_path =
      Inr (sp + length path, sp, pt, path @ replicate (32 - length path) NUL, gb)"
    using st(1) runs_append [of path_step "method_text pt @ [c]" cs no_path] by (simp add: c)
  have "32 - length path = Suc (31 - length path)" using path(3) by simp
  then have "(path @ replicate (32 - length path) NUL)[length path := NUL] = path @ replicate (32 - length path) NUL"
    by (simp add: list_update_end)
  then have step: "path_step SP (sp + length path, sp, pt, path @ replicate (32 - length path) NUL, gb) =
      Inr (Suc (sp + length path), 0, pt, path @ replicate (32 - length path) NUL, gb)"
    using path(3) st(2,3) by (auto simp: path_step.simps Let_def c)
  have "6 \<le> Suc (sp + length path)" using st(2) c by simp
  from path_rest [OF this, of xs pt "path @ replicate (32 - length path) NUL" gb] run step
  show ?thesis
    using runs_append [of path_step "method_text pt @ path" "SP # xs" no_path] by auto
qed

text \<open>A longer one is written past it.\<close>

lemma path_too_long:
  assumes pt: "pt \<noteq> UNKNOWN" and path: "SP \<notin> set path" "32 \<le> length path"
  shows "\<exists>pre c post. method_text pt @ path @ [SP] = pre @ c # post \<and>
    length pre = length (method_text pt) + 32 \<and>
    (\<exists>p. runs path_step pre no_path = Inr p \<and> path_step c p = Inl OutOfBounds)"
proof -
  define a where "a = take 32 path"
  define rest where "rest = drop 32 path @ [SP]"
  have "length a = 32" using path(2) by (simp add: a_def)
  then obtain c cs where c: "a = c # cs" "length cs = 31" by (cases a) auto
  obtain sp gb where st: "runs path_step (method_text pt @ [c]) no_path =
      Inr (Suc sp, sp, pt, c # replicate 31 NUL, gb)" "4 \<le> sp"
    using path_start [OF pt] by blast
  have "SP \<notin> set cs" using path(1) c(1) in_set_takeD [of SP 32 path] by (auto simp: a_def)
  then have "runs path_step cs (Suc sp, sp, pt, [c] @ replicate (32 - length [c]) NUL, gb) =
    Inr (Suc sp + length cs, sp, pt, ([c] @ cs) @ replicate (32 - (length [c] + length cs)) NUL, gb)"
    by (intro path_run) (use c st(2) in auto)
  then have run: "runs path_step (method_text pt @ a) no_path = Inr (sp + 32, sp, pt, a, gb)"
    using st(1) c runs_append [of path_step "method_text pt @ [c]" cs no_path] by simp
  obtain d ds where d: "rest = d # ds" by (cases rest) (auto simp: rest_def)
  have "path_step d (sp + 32, sp, pt, a, gb) = Inl OutOfBounds"
    using c st(2) by (simp add: path_step.simps Let_def)
  moreover have "method_text pt @ path @ [SP] = (method_text pt @ a) @ d # ds"
    using d by (simp add: a_def rest_def flip: append_assoc)
      (metis append_assoc append_take_drop_id)
  moreover have "length (method_text pt @ a) = length (method_text pt) + 32" using c by simp
  ultimately show ?thesis using run by blast
qed

section \<open>The length\<close>

text \<open>
  The matcher never goes back: it takes the characters of the name as they come, whatever is
  between them. So it has found the name once the name is a subsequence of what was read.
\<close>

definition length_name :: string where
  "length_name = ''Content-Length: ''"

lemma length_length_name [simp]: "length length_name = 16"
  by (simp add: length_name_def)

lemma pattern_nth: "k < 16 \<Longrightarrow> content_length_pattern ! k = length_name ! k"
proof -
  have split: "content_length_pattern = length_name @ ''%d'' @ [CR, LF, NUL]"
    by (simp add: content_length_pattern_def length_name_def)
  show "content_length_pattern ! k = length_name ! k" if "k < 16"
    using that unfolding split by (subst nth_append) (simp del: append.simps)
qed

fun greedy :: "string \<Rightarrow> string \<Rightarrow> string" where
  "greedy [] p = p"
| "greedy (c # cs) [] = []"
| "greedy (c # cs) (q # p) = (if c = q then greedy cs p else greedy cs (q # p))"

lemma greedy_Nil [simp]: "greedy cs [] = []"
  by (cases cs) simp_all

lemma greedy_append: "greedy (a @ b) p = greedy b (greedy a p)"
  by (induction a p rule: greedy.induct) auto

lemma greedy_subseq: "greedy cs p = [] \<longleftrightarrow> subseq p cs"
proof (induction cs p rule: greedy.induct)
  case (3 c cs q p)
  then show ?case by (auto simp: subseq_Cons2_iff)
qed auto

lemma greedy_drop: "\<exists>k \<le> length p. greedy cs p = drop k p"
proof (induction cs p rule: greedy.induct)
  case (3 c cs q p)
  show ?case
  proof (cases "c = q")
    case True
    with 3 obtain k where "k \<le> length p" "greedy cs p = drop k p" by auto
    with True show ?thesis by (intro exI [of _ "Suc k"]) simp
  next
    case False
    with 3 show ?thesis by auto
  qed
qed (auto intro: exI [of _ 0])

text \<open>Outside a length, as long as the name is not complete.\<close>

lemma length_step_out:
  "k < 16 \<Longrightarrow> length_step c (False, n, k) =
    Inr (if length_name ! k \<noteq> c then (False, n, k)
      else if k = 15 then (True, n, 0) else (False, n, Suc k))"
  by (simp add: length_step.simps pattern_nth CONTENT_LENGTH_END_def)

lemma length_run_out:
  assumes "k < 16" and "greedy xs (drop k length_name) \<noteq> []"
  shows "\<exists>k' < 16. runs length_step xs (False, n, k) = Inr (False, n, k') \<and>
    drop k' length_name = greedy xs (drop k length_name)"
  using assms
proof (induction xs arbitrary: k)
  case Nil
  then show ?case by auto
next
  case (Cons c xs)
  have d: "drop k length_name = length_name ! k # drop (Suc k) length_name"
    using Cons.prems(1) by (simp add: Cons_nth_drop_Suc)
  show ?case
  proof (cases "length_name ! k = c")
    case False
    then have g: "greedy (c # xs) (drop k length_name) = greedy xs (drop k length_name)" using d by simp
    with Cons.IH [of k] Cons.prems False show ?thesis by (simp add: length_step_out)
  next
    case True
    then have g: "greedy xs (drop (Suc k) length_name) \<noteq> []" using Cons.prems(2) d by simp
    then have "drop (Suc k) length_name \<noteq> []" by auto
    then have "Suc k < 16" by simp
    with Cons.IH [of "Suc k"] g True d show ?thesis by (simp add: length_step_out)
  qed
qed

text \<open>
  The header's own name completes the match at its last character, wherever the matcher was:
  what was still missing is a part of it, and the blank is its only blank.
\<close>

lemma length_name_run:
  assumes "k < 16"
  shows "runs length_step length_name (False, n, k) = Inr (True, n, 0)"
proof -
  have "\<forall>k \<in> set [0..<16]. runs length_step length_name (False, n, k) = Inr (True, n, 0)"
    by (simp add: upt_rec length_name_def length_step.simps content_length_pattern_def CONTENT_LENGTH_END_def)
  then show ?thesis using assms by simp
qed

text \<open>The digits after it, within the range of an int.\<close>

lemma dec_read_Cons: "dec_read v (c # s) = dec_read (v * 10 + digit_val c) s"
  by (simp add: dec_read_def)

lemma dec_read_ge: "v \<le> dec_read v s"
proof (induction s arbitrary: v)
  case (Cons c s)
  have "v \<le> v * 10 + digit_val c" by simp
  also have "\<dots> \<le> dec_read v (c # s)" unfolding dec_read_Cons by (rule Cons.IH)
  finally show ?case .
qed (simp add: dec_read_def)

lemma length_digits_run:
  assumes "\<forall>c \<in> set s. is_digit c" and "in_int (int (dec_read v s))"
  shows "runs length_step s (True, int v, 0) = Inr (True, int (dec_read v s), 0)"
  using assms
proof (induction s arbitrary: v)
  case Nil
  then show ?case by (simp add: dec_read_def)
next
  case (Cons c s)
  let ?v = "v * 10 + digit_val c"
  have c: "is_digit c" "c \<noteq> CR" using Cons.prems(1) by auto
  have "c \<noteq> CHR ''C''" using c(1) by (auto simp: is_digit_def)
  then have pat: "content_length_pattern ! 0 \<noteq> c" by (simp add: content_length_pattern_def)
  have b: "?v \<le> dec_read v (c # s)" unfolding dec_read_Cons by (rule dec_read_ge)
  then have "in_int (int v * 10)" "in_int (int v * 10 + int (digit_val c))"
    using Cons.prems(2) unfolding in_int_def by linarith+
  then have "length_step c (True, int v, 0) = Inr (True, int ?v, 0)"
    using c pat by (simp add: length_step.simps)
  with Cons.IH [of ?v] Cons.prems show ?case by (simp add: dec_read_Cons)
qed

text \<open>
  The length of a request in which nothing before the header spells its name, and nothing
  after it does again.
\<close>

lemma length_taken:
  assumes pre: "\<not> subseq length_name pre" and post: "\<not> subseq length_name post" and n: "in_int (int n)"
  shows "\<exists>k. runs length_step (pre @ length_name @ dec_nat n @ CR # post) (False, 0, 0) = Inr (False, int n, k)"
proof -
  have "greedy pre (drop 0 length_name) \<noteq> []" using pre by (simp add: greedy_subseq)
  then obtain k where k: "k < 16" "runs length_step pre (False, 0, 0) = Inr (False, 0, k)"
    using length_run_out [of 0 pre 0] by auto
  have dig: "runs length_step (dec_nat n) (True, 0, 0) = Inr (True, int n, 0)"
    using length_digits_run [of "dec_nat n" 0] n by (simp add: dec_nat_digits dec_read_dec_nat)
  have cr: "length_step CR (True, int n, 0) = Inr (False, int n, 0)"
    by (simp add: length_step.simps content_length_pattern_def)
  have "greedy post (drop 0 length_name) \<noteq> []" using post by (simp add: greedy_subseq)
  then obtain k' where "runs length_step post (False, int n, 0) = Inr (False, int n, k')"
    using length_run_out [of 0 post "int n"] by auto
  with k length_name_run [OF k(1), of 0] dig cr show ?thesis by (simp add: runs_append)
qed

lemma length_absent:
  assumes "\<not> subseq length_name xs"
  shows "\<exists>k. runs length_step xs (False, 0, 0) = Inr (False, 0, k)"
  using length_run_out [of 0 xs 0] assms by (auto simp: greedy_subseq)

section \<open>The blank line\<close>

definition crlf :: string where "crlf = [CR, LF]"

definition http_lines :: "string list \<Rightarrow> string" where
  "http_lines ls = concat (map (\<lambda>l. l @ crlf) ls)"

definition plain_line :: "string \<Rightarrow> bool" where
  "plain_line l \<longleftrightarrow> l \<noteq> [] \<and> CR \<notin> set l \<and> LF \<notin> set l"

lemma end_run_plain: "CR \<notin> set l \<Longrightarrow> LF \<notin> set l \<Longrightarrow> l \<noteq> [] \<Longrightarrow> end_runs l e = Some 0"
proof (induction l arbitrary: e)
  case (Cons c l)
  then have "end_step c e = Some 0" by (auto simp: end_step.simps)
  with Cons show ?case by (cases "l = []") auto
qed simp

lemma end_run_lines:
  assumes "\<forall>l \<in> set ls. plain_line l" and "ls \<noteq> []"
  shows "end_runs (http_lines ls) e = Some 2"
  using assms
proof (induction ls arbitrary: e)
  case (Cons l ls)
  have "end_runs (l @ crlf) e = Some 2"
    using Cons.prems(1)
    by (auto simp: end_runs_append plain_line_def end_run_plain crlf_def end_step.simps)
  then have "end_runs (http_lines (l # ls)) e = end_runs (http_lines ls) 2"
    using end_runs_append [of "l @ crlf" "http_lines ls" e] by (simp add: http_lines_def)
  with Cons show ?case by (cases "ls = []") (auto simp: http_lines_def)
qed simp

lemma end_run_head:
  assumes "\<forall>l \<in> set ls. plain_line l" and "ls \<noteq> []"
  shows "end_runs (http_lines ls @ [CR]) 0 = Some 3"
  using end_run_lines [OF assms, of 0] by (simp add: end_runs_append end_step.simps)

section \<open>A request\<close>

text \<open>A request line and the headers, then the blank line.\<close>

definition request_line :: "page_type \<Rightarrow> string \<Rightarrow> string" where
  "request_line pt path = method_text pt @ path @ '' HTTP/1.1''"

definition http_request :: "page_type \<Rightarrow> string \<Rightarrow> string list \<Rightarrow> string" where
  "http_request pt path hs = http_lines (request_line pt path # hs) @ crlf"

definition good_path :: "string \<Rightarrow> bool" where
  "good_path path \<longleftrightarrow> path \<noteq> [] \<and> length path < 32 \<and> SP \<notin> set path \<and> CR \<notin> set path \<and> LF \<notin> set path \<and>
     nul_free path"

lemma plain_request_line: "CR \<notin> set path \<Longrightarrow> LF \<notin> set path \<Longrightarrow> plain_line (request_line pt path)"
  by (cases pt) (auto simp: plain_line_def request_line_def method_text_def)

lemma request_scanned:
  assumes pt: "pt \<noteq> UNKNOWN" and path: "good_path path" and hs: "\<forall>l \<in> set hs. plain_line l"
    and len: "runs length_step (http_request pt path hs) (False, 0, 0) = Inr (d, n, k)"
  shows "\<exists>r. scan_request (map RxByte (http_request pt path hs) @ es) req_init = Scanned r False es \<and>
    rq_page_type r = pt \<and> cstr (rq_filename r) = path \<and> terminated (rq_filename r) \<and> rq_length r = n"
proof -
  have req: "http_request pt path hs = (http_lines (request_line pt path # hs) @ [CR]) @ [LF]"
    by (simp add: http_request_def crlf_def)
  have "http_request pt path hs = method_text pt @ path @ SP # (''HTTP/1.1'' @ crlf @ http_lines hs @ crlf)"
    by (simp add: http_request_def http_lines_def request_line_def)
  then obtain i gb where p: "runs path_step (http_request pt path hs) no_path =
      Inr (i, 0, pt, path @ replicate (32 - length path) NUL, gb)"
    using path_taken [OF pt, of path "''HTTP/1.1'' @ crlf @ http_lines hs @ crlf"] path
    by (auto simp: good_path_def)
  have "end_runs (http_lines (request_line pt path # hs) @ [CR]) 0 = Some 3"
    by (rule end_run_head) (use hs path plain_request_line in \<open>auto simp: good_path_def\<close>)
  from scan_text_end [OF p [unfolded req] len [unfolded req] this, of es]
  obtain q where q: "scan_request (map RxByte (http_request pt path hs) @ es) (mk_req no_path (False, 0, 0) 0) =
      Scanned (mk_req q (d, n, k) 3) False es" "snd q = (0, pt, path @ replicate (32 - length path) NUL, gb)"
    unfolding req by auto
  moreover obtain j where "q = (j, 0, pt, path @ replicate (32 - length path) NUL, gb)"
    using q(2) by (cases q) auto
  moreover have "req_init = mk_req no_path (False, 0, 0) 0"
    by (simp add: req_init_mk no_path_def MAX_WEB_PATH_NAME_LEN_def)
  ultimately show ?thesis using path by (simp add: mk_req_def good_path_def terminated_def)
qed

text \<open>What the handler takes from a POST: its path, and the number in its length header.\<close>

lemma post_scanned:
  assumes path: "good_path path" and hs: "\<forall>l \<in> set (hs1 @ hs2). plain_line l" and n: "in_int (int n)"
    and pre: "\<not> subseq length_name (http_lines (request_line POST path # hs1))"
    and post: "\<not> subseq length_name (LF # http_lines hs2 @ crlf)"
  shows "\<exists>r. scan_request (map RxByte (http_request POST path (hs1 @ (length_name @ dec_nat n) # hs2)) @ es) req_init
      = Scanned r False es \<and> rq_page_type r = POST \<and> cstr (rq_filename r) = path \<and>
    terminated (rq_filename r) \<and> rq_length r = int n"
proof -
  have "http_request POST path (hs1 @ (length_name @ dec_nat n) # hs2) =
      http_lines (request_line POST path # hs1) @ length_name @ dec_nat n @ CR # (LF # http_lines hs2 @ crlf)"
    by (simp add: http_request_def http_lines_def crlf_def)
  then obtain k where "runs length_step (http_request POST path (hs1 @ (length_name @ dec_nat n) # hs2)) (False, 0, 0) =
      Inr (False, int n, k)"
    using length_taken [OF pre post n] by auto
  moreover have "plain_line (length_name @ dec_nat n)"
    using dec_nat_digits [of CR n] dec_nat_digits [of LF n]
    by (auto simp: plain_line_def length_name_def is_digit_def)
  ultimately show ?thesis using request_scanned [OF _ path, of POST "hs1 @ (length_name @ dec_nat n) # hs2" False "int n" k es] hs
    by auto
qed

lemma get_scanned:
  assumes "good_path path" and "\<forall>l \<in> set hs. plain_line l" and "\<not> subseq length_name (http_request GET path hs)"
  shows "\<exists>r. scan_request (map RxByte (http_request GET path hs) @ es) req_init = Scanned r False es \<and>
    rq_page_type r = GET \<and> cstr (rq_filename r) = path \<and> terminated (rq_filename r)"
  using length_absent [OF assms(3)] request_scanned [OF _ assms(1,2), of GET False 0 _ es] by auto

text \<open>A request whose path does not fit the array is a write past the array.\<close>

lemma long_path_overflows:
  assumes pt: "pt \<noteq> UNKNOWN" and path: "SP \<notin> set path" "CR \<notin> set path" "LF \<notin> set path" "32 \<le> length path"
  shows "\<exists>es'. scan_request (map RxByte (method_text pt @ path @ [SP]) @ es) req_init = ScanHalt OutOfBounds es'"
proof -
  obtain pre c post p where split: "method_text pt @ path @ [SP] = pre @ c # post"
    "length pre = length (method_text pt) + 32"
    and p: "runs path_step pre no_path = Inr p" "path_step c p = Inl OutOfBounds"
    using path_too_long [OF pt path(1,4)] by blast
  have pre: "pre = method_text pt @ take 32 path"
    using arg_cong [OF split(1), of "take (length (method_text pt) + 32)"] split(2) path(4) by simp
  have "greedy (method_text pt) length_name = length_name"
    by (cases pt) (simp_all add: method_text_def length_name_def)
  moreover have "\<not> subseq length_name (take 32 path)"
  proof
    assume "subseq length_name (take 32 path)"
    moreover have "subseq [SP] length_name" by (simp add: length_name_def subseq_singleton_left)
    ultimately have "subseq [SP] (take 32 path)" by (blast intro: subseq_order.order_trans)
    then have "SP \<in> set (take 32 path)" by (simp add: subseq_singleton_left)
    with path(1) show False by (auto dest: in_set_takeD)
  qed
  ultimately have "\<not> subseq length_name pre"
    by (simp add: pre greedy_append flip: greedy_subseq)
  then obtain k where l: "runs length_step pre (False, 0, 0) = Inr (False, 0, k)" using length_absent by blast
  have "set pre \<subseteq> set (method_text pt) \<union> set path" by (auto simp: pre dest: in_set_takeD)
  then have "CR \<notin> set pre" "LF \<notin> set pre" "pre \<noteq> []"
    using pt path(2,3) split(2) by (cases pt; auto simp: method_text_def)+
  then have "end_runs pre 0 = Some 0" by (rule end_run_plain)
  from scan_text [OF p(1) l this, of "map RxByte (c # post) @ es"]
  have "scan_request (map RxByte (method_text pt @ path @ [SP]) @ es) (mk_req no_path (False, 0, 0) 0) =
      scan_request (RxByte c # map RxByte post @ es) (mk_req p (False, 0, k) 0)"
    unfolding split(1) by simp
  with scan_char_mk_path [OF p(2)] show ?thesis
    by (simp add: req_init_mk no_path_def MAX_WEB_PATH_NAME_LEN_def)
qed

section \<open>The types of the scanner's variables\<close>

text \<open>
  What every array access of the scanner relies on: the arrays keep their sizes, the indices
  that are not tested stay in range, the path starts where the method ends, and the length is
  a non-negative \<open>int\<close>.
\<close>

definition req_typed :: "req \<Rightarrow> bool" where
  "req_typed r \<longleftrightarrow> length (rq_filename r) = MAX_WEB_PATH_NAME_LEN \<and> length (rq_getbuf r) = 6 \<and>
     rq_req_state r \<le> 3 \<and> rq_ct_index r \<le> CONTENT_LENGTH_END \<and>
     rq_start_page r \<in> {0, 4, 5} \<and> rq_start_page r \<le> rq_i r \<and>
     0 \<le> rq_length r \<and> in_int (rq_length r)"

lemma req_typed_init: "req_typed req_init"
  by (simp add: req_typed_def req_init_def in_int_def)

lemma scan_getbuf_typed: "req_typed r \<Longrightarrow> req_typed (scan_getbuf c r)"
  by (auto simp: req_typed_def scan_getbuf_def)

lemma scan_path_typed: "req_typed r \<Longrightarrow> scan_path c r = Inr r' \<Longrightarrow> req_typed r'"
  by (auto simp: req_typed_def scan_path_def put_char_def split: if_splits)

lemma scan_method_typed: "req_typed r \<Longrightarrow> req_typed (scan_method c r)"
  by (auto simp: req_typed_def scan_method_def Let_def)

lemma scan_length_typed: "req_typed r \<Longrightarrow> scan_length c r = Inr r' \<Longrightarrow> req_typed r'"
  by (auto simp: req_typed_def scan_length_def split: if_splits)

lemma scan_name_typed: "req_typed r \<Longrightarrow> req_typed (scan_name c r)"
  by (auto simp: req_typed_def scan_name_def)

lemma scan_end_typed: "req_typed r \<Longrightarrow> req_typed (fst (scan_end c r))"
  by (auto simp: req_typed_def scan_end_def)

lemma req_typed_next: "req_typed r \<Longrightarrow> req_typed (r\<lparr>rq_i := rq_i r + 1\<rparr>)"
  by (auto simp: req_typed_def)

lemma scan_char_typed:
  assumes "req_typed r" and "scan_char c r = Inr (r', b)"
  shows "req_typed r'"
proof -
  obtain r1 where r1: "scan_path c (scan_getbuf c r) = Inr r1"
    using assms(2) by (auto simp: scan_char_def split: sum.splits)
  obtain r2 where r2: "scan_length c (scan_method c r1) = Inr r2"
    using assms(2) r1 by (auto simp: scan_char_def split: sum.splits)
  have "req_typed r2"
    using scan_length_typed [OF scan_method_typed [OF scan_path_typed [OF scan_getbuf_typed [OF assms(1)] r1]] r2] .
  then have "req_typed (fst (scan_end c (scan_name c r2)))"
    by (intro scan_end_typed scan_name_typed)
  moreover have "r' = fst (scan_end c (scan_name c r2)) \<or>
      r' = (fst (scan_end c (scan_name c r2)))\<lparr>rq_i := rq_i (fst (scan_end c (scan_name c r2))) + 1\<rparr>"
    using assms(2) r1 r2 by (cases "scan_end c (scan_name c r2)"; cases "snd (scan_end c (scan_name c r2))")
      (auto simp: scan_char_def)
  ultimately show ?thesis using req_typed_next by metis
qed

lemma scan_char_halts: "scan_char c r = Inl h \<Longrightarrow> h = OutOfBounds \<or> h = SignedOverflow"
  by (auto simp: scan_char_def scan_path_def scan_length_def split: sum.splits if_splits option.splits prod.splits bool.splits)

lemma scan_request_typed:
  assumes "req_typed r"
  shows "case scan_request es r of
      Scanned r' b rest \<Rightarrow> req_typed r' \<and> suffix rest es
    | ScanHalt h rest \<Rightarrow> h \<in> {OutOfBounds, SignedOverflow, NoReturn} \<and> suffix rest es"
  using assms
proof (induction es arbitrary: r)
  case Nil
  then show ?case by simp
next
  case (Cons e es)
  show ?case
  proof (cases e)
    case (RxByte c)
    show ?thesis
    proof (cases "scan_char c r")
      case (Inl h)
      from scan_char_halts [OF this] Inl show ?thesis by (auto simp: RxByte suffix_ConsI)
    next
      case (Inr x)
      obtain r' b where x: "x = (r', b)" by (cases x)
      have t: "req_typed r'" using scan_char_typed [OF Cons.prems] Inr x by simp
      from Cons.IH [OF t] Inr x t show ?thesis
        by (cases b) (auto simp: RxByte suffix_ConsI split: scan_outcome.splits)
    qed
  next
    case RxAgain
    with Cons.IH [OF Cons.prems] show ?thesis by (auto simp: suffix_ConsI split: scan_outcome.splits)
  qed (use Cons.prems in \<open>auto simp: suffix_ConsI\<close>)
qed

end
