(* ===== verification/Ob_Web.thy ===== *)
theory Ob_Web
  imports Ob_Request
begin

unbundle bit_operations_syntax

text \<open>
  src/ob_web_server.c: the server itself. Its state, the handler of one connection (scan the
  request, find the page, run its callback, close), the table of accepted connections, the
  listener threads, and starting and stopping. A connection belongs to a slot of the table of
  its listener; the thread table it clears is the one of the client's address family.
\<close>

section \<open>State\<close>

datatype family = AF_INET | AF_INET6

record web = pages +
  web_server_inited :: bool
  mWebServerRunning :: bool
  web_connected :: bool           \<comment> \<open>connected\<close>
  want_to_quit :: bool
  tcp4_listen_sock :: int
  tcp6_listen_sock :: int
  tcp4_accepted :: "int list"
  tcp6_accepted :: "int list"
  tcp4_handler_tid :: "int list"  \<comment> \<open>0 is NULL\<close>
  tcp6_handler_tid :: "int list"

text \<open>The values the variables of the file start with. The tables hold 0 until \<open>start_listener\<close> runs.\<close>

definition web_static :: "'z web_scheme \<Rightarrow> bool" where
  "web_static s \<longleftrightarrow> (let zeros = replicate (CONFIG_HTTP_NUM_HANDLERS (cfg s)) 0 in
     \<not> web_server_inited s \<and> \<not> mWebServerRunning s \<and> web_pages s = [] \<and>
     tcp4_handler_tid s = zeros \<and> tcp6_handler_tid s = zeros \<and>
     \<not> web_connected s \<and> \<not> want_to_quit s \<and>
     tcp4_listen_sock s = - 1 \<and> tcp4_accepted s = zeros \<and>
     tcp6_listen_sock s = 0 \<and> tcp6_accepted s = zeros)"

definition accepted :: "family \<Rightarrow> 'z web_scheme \<Rightarrow> int list" where
  "accepted f s = (case f of AF_INET \<Rightarrow> tcp4_accepted s | AF_INET6 \<Rightarrow> tcp6_accepted s)"

definition set_accepted :: "family \<Rightarrow> nat \<Rightarrow> int \<Rightarrow> ('z web_scheme, unit) prog" where
  "set_accepted f i v = modify (\<lambda>s. case f of
     AF_INET \<Rightarrow> s\<lparr>tcp4_accepted := (tcp4_accepted s)[i := v]\<rparr>
   | AF_INET6 \<Rightarrow> s\<lparr>tcp6_accepted := (tcp6_accepted s)[i := v]\<rparr>)"

definition set_tid :: "family \<Rightarrow> nat \<Rightarrow> int \<Rightarrow> ('z web_scheme, unit) prog" where
  "set_tid f i v = modify (\<lambda>s. case f of
     AF_INET \<Rightarrow> s\<lparr>tcp4_handler_tid := (tcp4_handler_tid s)[i := v]\<rparr>
   | AF_INET6 \<Rightarrow> s\<lparr>tcp6_handler_tid := (tcp6_handler_tid s)[i := v]\<rparr>)"

definition listen_sock :: "family \<Rightarrow> 'z web_scheme \<Rightarrow> int" where
  "listen_sock f s = (case f of AF_INET \<Rightarrow> tcp4_listen_sock s | AF_INET6 \<Rightarrow> tcp6_listen_sock s)"

definition set_listen_sock :: "family \<Rightarrow> int \<Rightarrow> ('z web_scheme, unit) prog" where
  "set_listen_sock f v = modify (\<lambda>s. case f of
     AF_INET \<Rightarrow> s\<lparr>tcp4_listen_sock := v\<rparr> | AF_INET6 \<Rightarrow> s\<lparr>tcp6_listen_sock := v\<rparr>)"

definition af :: "family \<Rightarrow> int" where
  "af f = (case f of AF_INET \<Rightarrow> 1 | AF_INET6 \<Rightarrow> 2)"

section \<open>Network events\<close>

definition ob_web_event_handler :: "net_event \<Rightarrow> ('z web_scheme, unit) prog" where
  "ob_web_event_handler mgmt_event =
     (if mgmt_event \<noteq> L4_CONNECTED \<and> mgmt_event \<noteq> L4_DISCONNECTED then ret ()
      else bnd (gets want_to_quit) (\<lambda>quit.
        if quit then ext0 (KSemGive run_app)
        else if mgmt_event = L4_CONNECTED then
          thn (modify (\<lambda>s. s\<lparr>web_connected := True\<rparr>)) (ext0 (KSemGive run_app))
        else modify (\<lambda>s. s\<lparr>web_connected := False\<rparr>)))"

section \<open>One connection\<close>

definition wp_matches :: "string \<Rightarrow> web_page \<Rightarrow> ('s, bool) prog" where
  "wp_matches filename wp = bnd (str_of (pathname wp)) (\<lambda>path.
     ret (strncmp_eq (pathname wp) filename (length path)))"

definition wp_answers :: "string \<Rightarrow> web_page \<Rightarrow> ('s, bool) prog" where
  "wp_answers filename wp = bnd (wp_matches filename wp) (\<lambda>m. ret (m \<and> get_callback wp \<noteq> None))"

text \<open>A page for \<open>/\<close>: the home page, or the captive portal's while there is an access point.\<close>

definition wp_is_home :: "web_page \<Rightarrow> ('z wifi_scheme, bool) prog" where
  "wp_is_home wp = bnd ob_wifi_HasAP (\<lambda>has.
     ret (flags wp AND (if has then PAGE_IS_CAPTIVE_PORTAL else PAGE_IS_HOME_PAGE) \<noteq> 0))"

text \<open>
  \<open>case GET\<close>. The break after the home page's callback leaves the switch, so its result is
  not looked at; that of another page is.
\<close>

definition serve_get ::
  "'z web_scheme page_runner \<Rightarrow> int \<Rightarrow> string \<Rightarrow> ('z web_scheme, unit) prog" where
  "serve_get run_page client filename =
     bnd (str_of filename) (\<lambda>file. bnd (gets web_pages) (\<lambda>ps.
     if length file = 1 then
       bnd (find_wp wp_is_home ps) (\<lambda>r.
       case r of
         None \<Rightarrow> display_404 client
       | Some (p, wp) \<Rightarrow> (case get_callback wp of
             None \<Rightarrow> display_404 client
           | Some f \<Rightarrow> bnd (run_page f client p) (\<lambda>rc. ret ())))
     else
       bnd (find_wp (wp_answers filename) ps) (\<lambda>r.
       case r of
         None \<Rightarrow> display_404 client
       | Some (p, wp) \<Rightarrow> bnd (run_page (the (get_callback wp)) client p) (\<lambda>rc.
           cond (rc < 0) (display_500 client)))))"

text \<open>\<open>case POST\<close>: it is the get callback that is tested, and the post callback that is called.\<close>

definition serve_post ::
  "'z web_scheme page_runner \<Rightarrow> int \<Rightarrow> string \<Rightarrow> int \<Rightarrow> ('z web_scheme, unit) prog" where
  "serve_post run_page client filename len =
     bnd (gets web_pages) (\<lambda>ps.
     bnd (find_wp (wp_answers filename) ps) (\<lambda>r.
     case r of
       None \<Rightarrow> display_404 client
     | Some (p, wp) \<Rightarrow>
         thn (set_content_length p len)
         (case post_callback wp of
            None \<Rightarrow> halted NullCall
          | Some f \<Rightarrow> bnd (run_page f client p) (\<lambda>rc. cond (rc < 0) (display_500 client)))))"

definition serve ::
  "'z web_scheme page_runner \<Rightarrow> int \<Rightarrow> req \<Rightarrow> ('z web_scheme, unit) prog" where
  "serve run_page client r =
     (case rq_page_type r of
        GET \<Rightarrow> serve_get run_page client (rq_filename r)
      | POST \<Rightarrow> serve_post run_page client (rq_filename r) (rq_length r)
      | UNKNOWN \<Rightarrow> ret ())"

definition set_rx :: "int \<Rightarrow> rx_event list \<Rightarrow> ('z socks_scheme, unit) prog" where
  "set_rx client es = modify (\<lambda>s. s\<lparr>rx := (rx s)(client := es)\<rparr>)"

definition client_conn_handler ::
  "'z web_scheme page_runner \<Rightarrow> family \<Rightarrow> family \<Rightarrow> nat \<Rightarrow> ('z web_scheme, unit) prog" where
  "client_conn_handler run_page lf cf slot =
     bnd (gets (\<lambda>s. accepted lf s ! slot)) (\<lambda>client.
     bnd (gets (\<lambda>s. rx s client)) (\<lambda>es.
     case scan_request es req_init of
       ScanHalt h es' \<Rightarrow> thn (set_rx client es') (halted h)
     | Scanned r failed es' \<Rightarrow>
         thn (set_rx client es')
         (thn (cond failed (set_accepted lf slot (- 1)))
         (thn (serve run_page client r)
         (thn (ext0 (ZsockClose client))
         (thn (set_accepted lf slot (- 1))
              (set_tid cf slot 0)))))))"

section \<open>Listening\<close>

definition get_free_slot :: "int list \<Rightarrow> nat option" where
  "get_free_slot tab = first_index (\<lambda>v. v < 0) tab"

definition web_setup :: "family \<Rightarrow> ('z web_scheme, int) prog" where
  "web_setup f =
     bnd (ext (ZsockSocket (af f))) (\<lambda>sock.
     thn (set_listen_sock f sock)
     (if sock < 0 then ret (- 1)
      else thn (bnd (gets (\<lambda>s. CONFIG_ONBOARDING_WEB_SERVER_HTTPS (cfg s))) (\<lambda>https.
                  cond https (ext0 (ZsockSetsockopt sock))))
        (bnd (ext (ZsockBind sock)) (\<lambda>r.
         if r < 0 then ret (- 1)
         else bnd (gets (\<lambda>s. CONFIG_HTTP_NUM_HANDLERS (cfg s))) (\<lambda>n.
           bnd (ext (ZsockListen sock n)) (\<lambda>r. ret (if r < 0 then - 1 else r)))))))"

text \<open>The thread that will run the handler, for a peer of the family the address says.\<close>

definition start_handler :: "string \<Rightarrow> nat \<Rightarrow> ('z web_scheme, unit) prog" where
  "start_handler addr slot =
     bnd (gets cfg) (\<lambda>c.
     let cf = (if addr = [] then 0 else of_char (hd addr) :: int) in
     thn (cond (CONFIG_NET_IPV6 c \<and> cf = af AF_INET6)
           (bnd (ext (KThreadCreate (af AF_INET6) slot)) (set_tid AF_INET6 slot)))
     (thn (cond (CONFIG_NET_IPV4 c \<and> cf = af AF_INET)
           (bnd (ext (KThreadCreate (af AF_INET) slot)) (set_tid AF_INET slot)))
          (cond (CONFIG_NET_IPV4 c) (ext0 (KThreadNameSet slot)))))"

text \<open>
  One accepted connection. The family of the peer is the first byte of the address that
  \<open>zsock_accept\<close> writes; an accept that fails answers minus the errno.
\<close>

definition process_tcp :: "family \<Rightarrow> ('z web_scheme, int) prog" where
  "process_tcp f =
     bnd (gets (listen_sock f)) (\<lambda>sock.
     bnd (ext_data (ZsockAccept sock)) (\<lambda>(client, addr).
     if client < 0 then ret client
     else bnd (gets (accepted f)) (\<lambda>tab.
       case get_free_slot tab of
         None \<Rightarrow> thn (ext0 (ZsockClose client)) (ret 0)
       | Some slot \<Rightarrow> thn (set_accepted f slot client) (thn (start_handler addr slot) (ret 0)))))"

text \<open>
  The loops of the two listener threads. The argument is the number of iterations looked
  at; the result says whether the loop has ended by then.
\<close>

primrec tcp4_loop :: "nat \<Rightarrow> int \<Rightarrow> ('z web_scheme, bool) prog" where
  "tcp4_loop 0 r = ret False"
| "tcp4_loop (Suc n) r = bnd (gets want_to_quit) (\<lambda>quit.
     if r = 0 \<or> \<not> quit then bnd (process_tcp AF_INET) (tcp4_loop n) else ret True)"

primrec tcp6_loop :: "nat \<Rightarrow> int \<Rightarrow> ('z web_scheme, bool) prog" where
  "tcp6_loop 0 r = ret False"
| "tcp6_loop (Suc n) r = bnd (gets want_to_quit) (\<lambda>quit.
     if r = 0 \<or> \<not> quit then
       bnd (process_tcp AF_INET6) (\<lambda>r. if r \<noteq> 0 then ret True else tcp6_loop n r)
     else ret True)"

definition process_tcp4 :: "nat \<Rightarrow> ('z web_scheme, bool) prog" where
  "process_tcp4 n = bnd (web_setup AF_INET) (\<lambda>r.
     if r < 0 then ret True
     else bnd (tcp4_loop n r) (\<lambda>ended.
       if ended then
         bnd (gets tcp4_listen_sock) (\<lambda>sock.
         if sock \<ge> 0 then thn (ext0 (ZsockClose sock)) (thn (set_listen_sock AF_INET (- 1)) (ret True))
         else ret True)
       else ret False))"

definition process_tcp6 :: "nat \<Rightarrow> ('z web_scheme, bool) prog" where
  "process_tcp6 n = bnd (web_setup AF_INET6) (\<lambda>r. if r < 0 then ret True else tcp6_loop n r)"

section \<open>Start and stop\<close>

definition start_listener :: "('z web_scheme, unit) prog" where
  "start_listener =
     bnd (gets cfg) (\<lambda>c. let none = replicate (CONFIG_HTTP_NUM_HANDLERS c) (- 1) in
     thn (cond (CONFIG_NET_IPV4 c) (modify (\<lambda>s. s\<lparr>tcp4_accepted := none\<rparr>)))
     (thn (cond (CONFIG_NET_IPV6 c) (modify (\<lambda>s. s\<lparr>tcp6_accepted := none\<rparr>)))
     (thn (cond (CONFIG_NET_IPV6 c) (modify (\<lambda>s. s\<lparr>tcp6_listen_sock := - 1\<rparr>)))
     (thn (cond (CONFIG_NET_IPV6 c) (ext0 (KThreadStart tcp6_thread_id)))
          (cond (CONFIG_NET_IPV4 c) (ext0 (KThreadStart tcp4_thread_id)))))))"

definition stop_web_server :: "('z web_scheme, int) prog" where
  "stop_web_server =
     thn (modify (\<lambda>s. s\<lparr>want_to_quit := True\<rparr>))
     (bnd (gets cfg) (\<lambda>c.
      thn (cond (CONFIG_NET_IPV6 c) (ext0 (KThreadAbort tcp6_thread_id)))
      (thn (cond (CONFIG_NET_IPV4 c) (ext0 (KThreadAbort tcp4_thread_id)))
      (thn (modify (\<lambda>s. s\<lparr>mWebServerRunning := False\<rparr>)) (ret 0)))))"

definition do_start_web_server ::
  "(net_event \<Rightarrow> ('z web_scheme, unit) prog) \<Rightarrow> ('z web_scheme, unit) prog" where
  "do_start_web_server deliver =
     bnd (gets mWebServerRunning) (\<lambda>running.
     if running then ret ()
     else
       thn (modify (\<lambda>s. s\<lparr>mWebServerRunning := True\<rparr>))
       (thn (modify (\<lambda>s. s\<lparr>want_to_quit := False\<rparr>))
       (bnd (gets cfg) (\<lambda>c.
        thn (cond (\<not> CONFIG_NET_CONNECTION_MANAGER c) (ext0 (KSemGive run_app)))
        (bnd (ext_wait deliver (KSemTake run_app None)) (\<lambda>rc.
         cond (\<not> rc < 0) start_listener))))))"

definition add_credential :: "string \<Rightarrow> ob_cert_type \<Rightarrow> ('z certs_scheme, int) prog" where
  "add_credential name type =
     bnd (ob_cert_get type) (\<lambda>p. bnd (ob_cert_len type) (\<lambda>n.
     ext (TlsCredentialAdd name (case p of None \<Rightarrow> [] | Some b \<Rightarrow> take n b))))"

definition init_web_server ::
  "(net_event \<Rightarrow> ('z web_scheme, unit) prog) \<Rightarrow> ('z web_scheme, int) prog" where
  "init_web_server deliver =
     bnd ob_nvs_data_init (\<lambda>err.
     if err < 0 then ret err
     else
       thn (ext0 (KWorkInit ''do_start_web_server''))
       (bnd (gets cfg) (\<lambda>c.
        bnd (if CONFIG_ONBOARDING_WEB_SERVER_HTTPS c then
               bnd (add_credential ''TLS_CREDENTIAL_CA_CERTIFICATE'' CA_CERT) (\<lambda>err.
               bnd (add_credential ''TLS_CREDENTIAL_SERVER_CERTIFICATE'' PUBLIC_CERT) (\<lambda>err.
                    add_credential ''TLS_CREDENTIAL_PRIVATE_KEY'' PRIVATE_KEY))
             else ret err) (\<lambda>err.
        thn (cond (CONFIG_NET_CONNECTION_MANAGER c)
              (thn (ext0 (NetMgmtAddCallback ''ob_web_event_handler''))
                   (bnd (ext_wait deliver ConnMgrResendStatus) (\<lambda>_. ret ()))))
        (thn (modify (\<lambda>s. s\<lparr>web_server_inited := True\<rparr>)) (ret err))))))"

definition start_web_server ::
  "(net_event \<Rightarrow> ('z web_scheme, unit) prog) \<Rightarrow> ('z web_scheme, unit) prog" where
  "start_web_server deliver =
     thn (bnd (gets web_server_inited) (\<lambda>i.
           if i then ret () else bnd (init_web_server deliver) (\<lambda>_. ret ())))
       (ext0 (KWorkSubmit ''do_start_web_server''))"

text \<open>The events the handlers of the wifi and of the web server receive.\<close>

definition web_deliver ::
  "(fnptr \<Rightarrow> nat \<Rightarrow> ('z web_scheme, unit) prog) \<Rightarrow> net_event \<Rightarrow> ('z web_scheme, unit) prog" where
  "web_deliver run_cb e = thn (wifi_deliver run_cb e) (ob_web_event_handler e)"

end
