(* ===== verification/Ob_Web_Facts.thy ===== *)
theory Ob_Web_Facts
  imports Ob_Web
begin

text \<open>
  Facts about src/ob_web_server.c: which page answers a request, what the handler of a
  connection leaves behind, the table of connections, the loops of the listeners, and the
  start of the server.
\<close>

section \<open>Which page answers\<close>

definition pages_ok :: "'z pages_scheme \<Rightarrow> bool" where
  "pages_ok s \<longleftrightarrow> (\<forall>wp \<in> set (web_pages s). page_ok wp)"

text \<open>A page answers for every path its own is a prefix of, if it has a get callback.\<close>

definition answers :: "string \<Rightarrow> web_page \<Rightarrow> bool" where
  "answers path wp \<longleftrightarrow> prefix (cstr (pathname wp)) path \<and> get_callback wp \<noteq> None"

definition is_home :: "bool \<Rightarrow> web_page \<Rightarrow> bool" where
  "is_home has wp \<longleftrightarrow> flags wp AND (if has then PAGE_IS_CAPTIVE_PORTAL else PAGE_IS_HOME_PAGE) \<noteq> 0"

lemma wp_matches_ok:
  "terminated (pathname wp) \<Longrightarrow> wp_matches filename wp s = Inr (prefix (cstr (pathname wp)) (cstr filename), s)"
  using strncmp_eq_prefix [of "cstr (pathname wp)" filename]
  by (simp add: wp_matches_def strncmp_eq_def)

lemma find_answer:
  assumes "pages_ok s"
  shows "find_wp (wp_answers filename) (web_pages s) s =
    Inr (map_option (\<lambda>i. (length (web_pages s) - i, web_pages s ! i))
      (first_index (answers (cstr filename)) (web_pages s)), s)"
  by (rule find_wp_pure) (use assms in \<open>auto simp: pages_ok_def page_ok_def wp_answers_def wp_matches_ok answers_def\<close>)

lemma find_answer_none:
  assumes "pages_ok s" and "\<forall>wp \<in> set (web_pages s). \<not> answers (cstr filename) wp"
  shows "find_wp (wp_answers filename) (web_pages s) s = Inr (None, s)"
proof -
  have "first_index (answers (cstr filename)) (web_pages s) = None" using assms(2) by simp
  then show ?thesis unfolding find_answer [OF assms(1)] by (simp only: option.map)
qed

lemma find_home:
  "find_wp wp_is_home (web_pages s) s =
    Inr (map_option (\<lambda>i. (length (web_pages s) - i, web_pages s ! i))
      (first_index (is_home (mHasAp s)) (web_pages s)), s)" for s :: "'z pages_scheme"
  by (rule find_wp_pure) (simp add: wp_is_home_def ob_wifi_HasAP_def is_home_def)

lemma load_wp_at:
  "i < length (web_pages s) \<Longrightarrow> load_wp (length (web_pages s) - i) s = Inr (web_pages s ! i, s)"
  by (simp add: load_wp_def)

lemma set_content_length_at:
  assumes "i < length (web_pages s)"
  shows "set_content_length (length (web_pages s) - i) n s =
    Inr ((), s\<lparr>web_pages := (web_pages s)[i := (web_pages s ! i)\<lparr>content_length := n\<rparr>]\<rparr>)"
  using load_wp_at [OF assms] assms by (simp add: set_content_length_def)

lemma serve_get_found:
  assumes "pages_ok s" and "terminated filename" and "length (cstr filename) \<noteq> 1"
    and "first_index (answers (cstr filename)) (web_pages s) = Some i"
  shows "serve_get run_page c filename s =
    bnd (run_page (the (get_callback (web_pages s ! i))) c (length (web_pages s) - i))
      (\<lambda>rc. cond (rc < 0) (display_500 c)) s"
  using assms by (simp add: serve_get_def find_answer)

lemma serve_get_none:
  assumes "pages_ok s" and "terminated filename" and "length (cstr filename) \<noteq> 1"
    and "\<forall>wp \<in> set (web_pages s). \<not> answers (cstr filename) wp"
  shows "serve_get run_page c filename s = display_404 c s"
  using assms find_answer_none [OF assms(1,4)] by (simp add: serve_get_def)

lemma serve_get_home:
  assumes "terminated filename" and "length (cstr filename) = 1"
    and "first_index (is_home (mHasAp s)) (web_pages s) = Some i"
    and "get_callback (web_pages s ! i) = Some f"
  shows "serve_get run_page c filename s = bnd (run_page f c (length (web_pages s) - i)) (\<lambda>rc. ret ()) s"
  using assms by (simp add: serve_get_def find_home)

text \<open>The post callback of a page, and what its result leads to.\<close>

definition run_post :: "'z web_scheme page_runner \<Rightarrow> int \<Rightarrow> nat \<Rightarrow> web_page \<Rightarrow> ('z web_scheme, unit) prog" where
  "run_post run_page c p wp =
     (case post_callback wp of
        None \<Rightarrow> halted NullCall
      | Some f \<Rightarrow> bnd (run_page f c p) (\<lambda>rc. cond (rc < 0) (display_500 c)))"

lemma serve_post_found:
  assumes "pages_ok s" and "first_index (answers (cstr filename)) (web_pages s) = Some i"
  shows "serve_post run_page c filename len s =
    run_post run_page c (length (web_pages s) - i) (web_pages s ! i) (s\<lparr>web_pages := (web_pages s)[i := (web_pages s ! i)\<lparr>content_length := len\<rparr>]\<rparr>)"
proof -
  have "i < length (web_pages s)" using first_index_bound [OF assms(2)] .
  from set_content_length_at [OF this] assms show ?thesis
    by (simp add: serve_post_def find_answer run_post_def)
qed

lemma serve_post_none:
  assumes "pages_ok s" and "\<forall>wp \<in> set (web_pages s). \<not> answers (cstr filename) wp"
  shows "serve_post run_page c filename len s = display_404 c s"
  using find_answer_none [OF assms] by (simp add: serve_post_def)

lemma display_404_live:
  assumes "sock_law s c" and "sock_live s c (length http1_1_404)"
  shows "\<exists>s'. display_404 c s = Inr ((), s') \<and> wire s' c = wire s c @ http1_1_404"
  using bs.snd_whole [of s c http1_1_404 0] assms by (auto simp: display_404_def)

section \<open>What the handler of a connection leaves\<close>

lemma accepted_set [simp]:
  "accepted f (s\<lparr>trace := t\<rparr>) = accepted f s" "accepted f (s\<lparr>rx := r\<rparr>) = accepted f s"
  "accepted f (s\<lparr>web_pages := p\<rparr>) = accepted f s"
  by (simp_all add: accepted_def split: family.split)

text \<open>The steps after the request has been served.\<close>

definition hang_up :: "int \<Rightarrow> family \<Rightarrow> family \<Rightarrow> nat \<Rightarrow> ('z web_scheme, unit) prog" where
  "hang_up client lf cf slot =
     thn (ext0 (ZsockClose client)) (thn (set_accepted lf slot (- 1)) (set_tid cf slot 0))"

lemma hang_up_frees:
  assumes "hang_up client lf cf slot s = Inr (u, s')" and "slot < length (accepted lf s)"
  shows "accepted lf s' ! slot = - 1 \<and> trace s' = trace s @ [ZsockClose client] \<and> wire s' = wire s \<and>
    (\<forall>f i. (f, i) \<noteq> (lf, slot) \<longrightarrow> accepted f s' ! i = accepted f s ! i)"
proof -
  obtain x where x: "reply s (trace s) (ZsockClose client) = Some x"
    using assms(1) by (cases "reply s (trace s) (ZsockClose client)") (auto simp: hang_up_def ext0_apply)
  show ?thesis
    using assms x
    by (cases lf; cases cf)
      (auto simp: hang_up_def ext0_apply set_accepted_def set_tid_def accepted_def nth_list_update
        split: family.split)
qed

lemma handler_scanned:
  assumes "rx s (accepted lf s ! slot) = es"
    and "scan_request es req_init = Scanned r False es'"
  shows "client_conn_handler run_page lf cf slot s =
    thn (serve run_page (accepted lf s ! slot) r) (hang_up (accepted lf s ! slot) lf cf slot)
      (s\<lparr>rx := (rx s)(accepted lf s ! slot := es')\<rparr>)"
  using assms by (simp add: client_conn_handler_def set_rx_def hang_up_def)

text \<open>What a request leaves alone, if the pages do.\<close>

lemma keeps_serve:
  assumes "sock_frame I" and "\<And>s ps. I s \<Longrightarrow> I (s\<lparr>web_pages := ps\<rparr>)" and "\<And>f c p. keeps I (run_page f c p)"
  shows "keeps I (serve run_page client r)"
  unfolding serve_def serve_get_def serve_post_def display_404_def display_500_def str_of_def wp_answers_def
    wp_matches_def wp_is_home_def ob_wifi_HasAP_def set_content_length_def load_wp_def
  by (cases "rq_page_type r")
    (auto intro!: keeps_intros keeps_modify keeps_sendall assms keeps_find_wp split: option.split)

lemma handler_frees_slot:
  assumes run: "client_conn_handler run_page lf cf slot s = Inr (u, s')"
    and slot: "slot < length (accepted lf s)"
    and page: "\<And>f c p n. keeps (\<lambda>t. length (accepted lf t) = n) (run_page f c p)"
  shows "accepted lf s' ! slot = - 1 \<and> (\<exists>pre. trace s' = pre @ [ZsockClose (accepted lf s ! slot)])"
proof -
  let ?c = "accepted lf s ! slot"
  let ?I = "\<lambda>t. length (accepted lf t) = length (accepted lf s)"
  obtain r failed es' where sc: "scan_request (rx s ?c) req_init = Scanned r failed es'"
    using run by (cases "scan_request (rx s ?c) req_init") (auto simp: client_conn_handler_def set_rx_def)
  have frame: "sock_frame ?I" by (simp add: sock_frame_def accepted_def split: family.split)
  have upd: "keeps ?I (set_accepted lf slot v)" for v
    unfolding set_accepted_def by (intro keeps_modify) (auto simp: accepted_def split: family.split)
  have serve: "keeps ?I (serve run_page ?c r)"
    by (rule keeps_serve [OF frame _ page]) (cases lf; simp add: accepted_def)
  have I0: "?I (s\<lparr>rx := (rx s)(?c := es')\<rparr>)" by simp
  have run1: "thn (cond failed (set_accepted lf slot (- 1)))
      (thn (serve run_page ?c r) (hang_up ?c lf cf slot)) (s\<lparr>rx := (rx s)(?c := es')\<rparr>) = Inr (u, s')"
    using run sc by (simp add: client_conn_handler_def set_rx_def hang_up_def)
  from keeps_thn_Inr [OF this keeps_cond [OF upd] I0] obtain t1 where
    t1: "?I t1" "thn (serve run_page ?c r) (hang_up ?c lf cf slot) t1 = Inr (u, s')" by blast
  from keeps_thn_Inr [OF t1(2) serve t1(1)] obtain t where
    t: "?I t" "hang_up ?c lf cf slot t = Inr (u, s')" by blast
  with hang_up_frees [OF t(2)] slot show ?thesis by auto
qed

text \<open>
  A request for a registered page, from the first byte on the socket to the free slot: the
  scan, the page, the close.
\<close>

lemma get_request_served:
  assumes slot: "accepted lf s ! slot = c" "slot < length (accepted lf s)"
    and req: "rx s c = map RxByte (http_request GET path hs) @ es" "good_path path"
      "\<forall>l \<in> set hs. plain_line l" "\<not> subseq length_name (http_request GET path hs)"
    and page: "pages_ok s" "length path \<noteq> 1" "first_index (answers path) (web_pages s) = Some i"
    and call: "run_page (the (get_callback (web_pages s ! i))) c (length (web_pages s) - i)
        (s\<lparr>rx := (rx s)(c := es)\<rparr>) = Inr (rc, s1)" "0 \<le> rc"
  shows "client_conn_handler run_page lf cf slot s = hang_up c lf cf slot s1"
proof -
  obtain r where r: "scan_request (rx s c) req_init = Scanned r False es" "rq_page_type r = GET"
    "cstr (rq_filename r) = path" "terminated (rq_filename r)"
    using get_scanned [OF req(2,3,4), of es] req(1) by auto
  let ?s0 = "s\<lparr>rx := (rx s)(c := es)\<rparr>"
  have "serve run_page c r ?s0 = Inr ((), s1)"
    using serve_get_found [of ?s0 "rq_filename r" i run_page c] r page call
    by (simp add: serve_def pages_ok_def)
  then show ?thesis using handler_scanned [of s lf slot "rx s c" r es run_page cf] r(1) slot(1) by simp
qed

lemma post_request_served:
  assumes slot: "accepted lf s ! slot = c" "slot < length (accepted lf s)"
    and req: "rx s c = map RxByte (http_request POST path (hs1 @ (length_name @ dec_nat n) # hs2)) @ es"
      "good_path path" "\<forall>l \<in> set (hs1 @ hs2). plain_line l" "in_int (int n)"
      "\<not> subseq length_name (http_lines (request_line POST path # hs1))"
      "\<not> subseq length_name (LF # http_lines hs2 @ crlf)"
    and page: "pages_ok s" "first_index (answers path) (web_pages s) = Some i"
  shows "client_conn_handler run_page lf cf slot s =
    thn (run_post run_page c (length (web_pages s) - i) (web_pages s ! i)) (hang_up c lf cf slot)
    (s\<lparr>rx := (rx s)(c := es), web_pages := (web_pages s)[i := (web_pages s ! i)\<lparr>content_length := int n\<rparr>]\<rparr>)"
proof -
  obtain r where r: "scan_request (rx s c) req_init = Scanned r False es" "rq_page_type r = POST"
    "cstr (rq_filename r) = path" "rq_length r = int n"
    using post_scanned [OF req(2,3,4,5,6), of es] req(1) by auto
  let ?s0 = "s\<lparr>rx := (rx s)(c := es)\<rparr>"
  have "serve run_page c r ?s0 = run_post run_page c (length (web_pages s) - i) (web_pages s ! i)
    (?s0\<lparr>web_pages := (web_pages s)[i := (web_pages s ! i)\<lparr>content_length := int n\<rparr>]\<rparr>)"
    using serve_post_found [of ?s0 "rq_filename r" i run_page c "int n"] r page
    by (simp add: serve_def pages_ok_def)
  then show ?thesis
    using handler_scanned [of s lf slot "rx s c" r es run_page cf] r(1) slot(1)
    by (simp only: thn_apply)
qed

text \<open>A path no page answers for: the 404 text, whole.\<close>

lemma unknown_path_404:
  assumes slot: "accepted lf s ! slot = c" "slot < length (accepted lf s)"
    and req: "rx s c = map RxByte (http_request GET path hs) @ es" "good_path path"
      "\<forall>l \<in> set hs. plain_line l" "\<not> subseq length_name (http_request GET path hs)"
    and page: "pages_ok s" "length path \<noteq> 1" "\<forall>wp \<in> set (web_pages s). \<not> answers path wp"
    and sock: "sock_law s c" "sock_live s c (length http1_1_404)" and env: "responsive s"
  shows "\<exists>s'. client_conn_handler run_page lf cf slot s = Inr ((), s') \<and>
    wire s' c = wire s c @ http1_1_404 \<and> accepted lf s' ! slot = - 1"
proof -
  obtain r where r: "scan_request (rx s c) req_init = Scanned r False es" "rq_page_type r = GET"
    "cstr (rq_filename r) = path" "terminated (rq_filename r)"
    using get_scanned [OF req(2,3,4), of es] req(1) by auto
  let ?s0 = "s\<lparr>rx := (rx s)(c := es)\<rparr>"
  obtain s1 where s1: "display_404 c ?s0 = Inr ((), s1)" "wire s1 c = wire s c @ http1_1_404"
    using display_404_live [of ?s0 c] sock by (auto simp: sock_law_def sock_live_def)
  have fr: "keeps (\<lambda>t. reply t = reply s \<and> length (accepted lf t) = length (accepted lf s)) (display_404 c)"
    unfolding display_404_def
    by (intro keeps_intros keeps_sendall) (auto simp: sock_frame_def accepted_def split: family.split)
  have fr1: "reply s1 = reply s" "length (accepted lf s1) = length (accepted lf s)"
    using keeps_Inr [OF fr _ s1(1)] by auto
  have "serve run_page c r ?s0 = Inr ((), s1)"
    using serve_get_none [of ?s0 "rq_filename r" run_page c] r page s1(1)
    by (simp add: serve_def pages_ok_def)
  then have run: "client_conn_handler run_page lf cf slot s = hang_up c lf cf slot s1"
    using handler_scanned [of s lf slot "rx s c" r es run_page cf] r(1) slot(1) by simp
  obtain x where "reply s1 (trace s1) (ZsockClose c) = Some x" using env fr1(1) by (auto elim: repliesE)
  then obtain s' where s': "hang_up c lf cf slot s1 = Inr ((), s')"
    by (simp add: hang_up_def ext0_apply set_accepted_def set_tid_def)
  with hang_up_frees [OF s'] run s1(2) fr1(2) slot(2) show ?thesis by auto
qed

section \<open>The table of connections\<close>

lemma free_slot_is_free: "get_free_slot tab = Some i \<Longrightarrow> i < length tab \<and> tab ! i < 0"
  by (simp add: get_free_slot_def first_index_Some)

lemma get_free_slot_none: "get_free_slot tab = None \<longleftrightarrow> (\<forall>v \<in> set tab. 0 \<le> v)"
  by (auto simp: get_free_slot_def not_less)

lemma accepted_set_accepted:
  "set_accepted f i v s = Inr ((), s') \<Longrightarrow> accepted g s' = (if g = f then (accepted f s)[i := v] else accepted g s)"
  by (cases f; cases g) (auto simp: set_accepted_def accepted_def)

definition slots_kept :: "'z web_scheme \<Rightarrow> 'z web_scheme \<Rightarrow> bool" where
  "slots_kept s t \<longleftrightarrow> (\<forall>g i. i < length (accepted g s) \<and> 0 \<le> accepted g s ! i \<longrightarrow>
     accepted g t ! i = accepted g s ! i) \<and> (\<forall>g. length (accepted g t) = length (accepted g s))"

lemma slots_kept_refl: "accepted AF_INET t = accepted AF_INET s \<Longrightarrow> accepted AF_INET6 t = accepted AF_INET6 s \<Longrightarrow> slots_kept s t"
  by (auto simp: slots_kept_def) (metis family.exhaust)+

text \<open>Accepting a connection never takes the slot of another one.\<close>

lemma process_tcp_slots: "slots_kept s (final (process_tcp f s))"
proof -
  let ?t = "s\<lparr>trace := trace s @ [ZsockAccept (listen_sock f s)]\<rparr>"
  have same: "slots_kept s ?t" by (rule slots_kept_refl) simp_all
  show ?thesis
  proof (cases "reply s (trace s) (ZsockAccept (listen_sock f s))")
    case None
    with same show ?thesis by (simp add: process_tcp_def ext_data_apply)
  next
    case (Some client)
    show ?thesis
    proof (cases "client < 0 \<or> get_free_slot (accepted f s) = None")
      case True
      then show ?thesis
        using Some same
        by (auto simp: process_tcp_def ext_data_apply ext0_apply Let_def intro: slots_kept_refl split: option.split)
    next
      case False
      then obtain slot where slot: "get_free_slot (accepted f s) = Some slot" "0 \<le> client" by auto
      let ?I = "\<lambda>t. accepted f t = (accepted f s)[slot := client] \<and> (\<forall>g. g \<noteq> f \<longrightarrow> accepted g t = accepted g s)"
      have h: "keeps ?I (start_handler a slot)" for a
        unfolding start_handler_def Let_def set_tid_def
        by (intro keeps_intros keeps_exts keeps_modify) (auto simp: accepted_def split: family.split)
      obtain t where t: "set_accepted f slot client ?t = Inr ((), t)" by (simp add: set_accepted_def)
      have It: "?I t" using accepted_set_accepted [OF t] by (auto split: if_splits)
      let ?a = "data s (trace s) (ZsockAccept (listen_sock f s))"
      have run: "process_tcp f s = thn (start_handler ?a slot) (ret 0) t"
        using Some slot t by (simp add: process_tcp_def ext_data_apply)
      have "keeps ?I (thn (start_handler ?a slot) (ret (0 :: int)))" by (intro keeps_intros h)
      from keepsD [OF this It] have "?I (final (process_tcp f s))" unfolding run .
      then have acc: "accepted g (final (process_tcp f s)) =
          (if g = f then (accepted f s)[slot := client] else accepted g s)" for g by simp
      have free: "slot < length (accepted f s)" "accepted f s ! slot < 0"
        using free_slot_is_free [OF slot(1)] by simp_all
      have "accepted g (final (process_tcp f s)) ! i = accepted g s ! i"
        if "i < length (accepted g s)" "0 \<le> accepted g s ! i" for g i
        using that free by (cases "g = f \<and> i = slot") (auto simp: acc nth_list_update)
      moreover have "length (accepted g (final (process_tcp f s))) = length (accepted g s)" for g
        by (simp add: acc)
      ultimately show ?thesis by (simp add: slots_kept_def)
    qed
  qed
qed

text \<open>A full table turns the new connection away, and nothing else happens.\<close>

lemma process_tcp_full:
  assumes "\<forall>v \<in> set (accepted f s). 0 \<le> v"
    and "reply s (trace s) (ZsockAccept (listen_sock f s)) = Some client" "0 \<le> client"
    and "reply s (trace s @ [ZsockAccept (listen_sock f s)]) (ZsockClose client) = Some x"
  shows "process_tcp f s =
    Inr (0, s\<lparr>trace := trace s @ [ZsockAccept (listen_sock f s), ZsockClose client]\<rparr>)"
proof -
  have "get_free_slot (accepted f s) = None" using assms(1) by (simp add: get_free_slot_none)
  with assms(2-4) show ?thesis by (simp add: process_tcp_def ext_data_apply ext0_apply)
qed

section \<open>The listeners\<close>

lemma process_tcp_fails:
  assumes "reply s (trace s) (ZsockAccept (listen_sock f s)) = Some r" and "r < 0"
  shows "process_tcp f s = Inr (r, s\<lparr>trace := trace s @ [ZsockAccept (listen_sock f s)]\<rparr>)"
  using assms by (simp add: process_tcp_def ext_data_apply)

text \<open>
  While nobody has asked to quit, an accept that keeps failing keeps the IPv4 listener busy:
  it has not ended after any number of iterations. The IPv6 listener ends at the first one.
\<close>

lemma listen_sock_trace [simp]: "listen_sock f (s\<lparr>trace := t\<rparr>) = listen_sock f s"
  by (simp add: listen_sock_def split: family.split)

lemma tcp4_loop_retries:
  assumes "\<not> want_to_quit s" and "\<And>tr. reply s tr (ZsockAccept (tcp4_listen_sock s)) = Some e" and "e < 0"
  shows "tcp4_loop n r s = Inr (False, s\<lparr>trace := trace s @ replicate n (ZsockAccept (tcp4_listen_sock s))\<rparr>)"
  using assms
proof (induction n arbitrary: r s)
  case (Suc n)
  let ?s = "s\<lparr>trace := trace s @ [ZsockAccept (tcp4_listen_sock s)]\<rparr>"
  have "process_tcp AF_INET s = Inr (e, ?s)"
    using process_tcp_fails [of s AF_INET e] Suc.prems by (simp add: listen_sock_def)
  moreover have "tcp4_loop n e ?s =
      Inr (False, ?s\<lparr>trace := trace ?s @ replicate n (ZsockAccept (tcp4_listen_sock ?s))\<rparr>)"
    by (rule Suc.IH) (use Suc.prems in simp_all)
  ultimately show ?case using Suc.prems by simp
qed simp

lemma tcp6_loop_ends:
  assumes "r = 0 \<or> \<not> want_to_quit s" and "reply s (trace s) (ZsockAccept (tcp6_listen_sock s)) = Some e" and "e < 0"
  shows "tcp6_loop (Suc n) r s = Inr (True, s\<lparr>trace := trace s @ [ZsockAccept (tcp6_listen_sock s)]\<rparr>)"
  using process_tcp_fails [of s AF_INET6 e] assms by (simp add: listen_sock_def)

text \<open>Once quitting, the IPv4 listener ends at the first accept that fails.\<close>

lemma tcp4_loop_quits:
  assumes "want_to_quit s" and "reply s (trace s) (ZsockAccept (tcp4_listen_sock s)) = Some e" and "e < 0"
  shows "tcp4_loop (Suc (Suc n)) 0 s = Inr (True, s\<lparr>trace := trace s @ [ZsockAccept (tcp4_listen_sock s)]\<rparr>)"
  using process_tcp_fails [of s AF_INET e] assms by (simp add: listen_sock_def)

section \<open>Start and stop\<close>

text \<open>A running server is not started again; a stopped one is.\<close>

lemma start_running: "mWebServerRunning s \<Longrightarrow> do_start_web_server deliver s = Inr ((), s)"
  by (simp add: do_start_web_server_def)

lemma stop_then_start:
  assumes "responsive s"
  shows "\<exists>s'. stop_web_server s = Inr (0, s') \<and> \<not> mWebServerRunning s' \<and> want_to_quit s' \<and>
    listen_sock f s' = listen_sock f s \<and> accepted f s' = accepted f s"
proof -
  obtain q where q: "\<And>tr t. reply s tr (KThreadAbort t) = Some (q tr t)"
    using that [of "\<lambda>tr t. the (reply s tr (KThreadAbort t))"] assms by (auto simp: replies_def)
  show ?thesis
    by (cases "CONFIG_NET_IPV6 (cfg s)"; cases "CONFIG_NET_IPV4 (cfg s)"; cases f)
      (simp_all add: stop_web_server_def ext0_apply q listen_sock_def accepted_def)
qed

text \<open>The listener threads start with every slot free.\<close>

lemma start_listener_free:
  assumes "responsive s" and "CONFIG_NET_IPV4 (cfg s)" and "\<not> CONFIG_NET_IPV6 (cfg s)"
  shows "start_listener s = Inr ((), s\<lparr>tcp4_accepted := replicate (CONFIG_HTTP_NUM_HANDLERS (cfg s)) (- 1),
    trace := trace s @ [KThreadStart tcp4_thread_id]\<rparr>)"
proof -
  obtain r where "reply s (trace s) (KThreadStart tcp4_thread_id) = Some r"
    using assms(1) by (auto elim: repliesE)
  with assms(2,3) show ?thesis by (simp add: start_listener_def ext0_apply Let_def)
qed

section \<open>TLS credentials\<close>

lemma add_credential_apply:
  "CONFIG_ONBOARDING_CERTS_GENERATE_CERTS (cfg s) \<Longrightarrow>
   add_credential name type s = ext (TlsCredentialAdd name
     (case type of PUBLIC_CERT \<Rightarrow> device_certificate (cfg s) | PRIVATE_KEY \<Rightarrow> device_private_key (cfg s)
        | _ \<Rightarrow> ca_certificate (cfg s))) (s\<lparr>certs_initialized := True\<rparr>)"
  by (cases type) (simp_all add: add_credential_def ob_cert_get_def ob_cert_len_def)

lemma init_https_credentials:
  assumes env: "responsive s" "nvs_data_inited s"
    and c: "CONFIG_ONBOARDING_WEB_SERVER_HTTPS (cfg s)" "CONFIG_ONBOARDING_CERTS_GENERATE_CERTS (cfg s)"
      "\<not> CONFIG_NET_CONNECTION_MANAGER (cfg s)"
  shows "\<exists>r s'. init_web_server deliver s = Inr (r, s') \<and> web_server_inited s' \<and>
    trace s' = trace s @ [KWorkInit ''do_start_web_server'',
      TlsCredentialAdd ''TLS_CREDENTIAL_CA_CERTIFICATE'' (ca_certificate (cfg s)),
      TlsCredentialAdd ''TLS_CREDENTIAL_SERVER_CERTIFICATE'' (device_certificate (cfg s)),
      TlsCredentialAdd ''TLS_CREDENTIAL_PRIVATE_KEY'' (device_private_key (cfg s))]"
proof -
  obtain q where q: "\<And>tr n b. reply s tr (TlsCredentialAdd n b) = Some (q tr n b)"
    using that [of "\<lambda>tr n b. the (reply s tr (TlsCredentialAdd n b))"] env(1) by (auto simp: replies_def)
  obtain w where w: "\<And>tr f. reply s tr (KWorkInit f) = Some (w tr f)"
    using that [of "\<lambda>tr f. the (reply s tr (KWorkInit f))"] env(1) by (auto simp: replies_def)
  show ?thesis
    using env(2) c
    by (simp add: init_web_server_def ob_nvs_data_init_def ext0_apply w add_credential_apply ext_apply q)
qed

end
