(* ===== verification/Ob_Post.thy ===== *)
theory Ob_Post
  imports Ob_Web_Facts
begin

text \<open>
  src/ob_web_server.c, \<open>ob_ws_process_post\<close>: the parser of the body of a POST (a form sent
  as text/plain, one \<open>name=value\<close> per line). The attribute array belongs to the caller, so it
  goes in and comes out. The parser refines an assignment of values to names.
\<close>

section \<open>The parser\<close>

definition NAME_BUFFER_SIZE :: nat where "NAME_BUFFER_SIZE = 32"
definition VALUE_BUFFER_SIZE :: nat where "VALUE_BUFFER_SIZE = 65"

record post_attributes =
  pa_name :: string          \<comment> \<open>a constant C string\<close>
  valuebuffer :: string      \<comment> \<open>the array, VALUE_BUFFER_SIZE characters\<close>

text \<open>
  The local variables: the array \<open>name\<close> is what was written to it so far, \<open>ps_value\<close> the
  attribute that \<open>valuebuffer\<close> points into.
\<close>

record post =
  ps_ap :: "post_attributes list"
  ps_doName :: bool
  ps_index :: nat
  ps_value_start :: nat
  ps_name :: string
  ps_value :: nat

definition EINVAL :: int where "EINVAL = 22"

datatype post_step = PostGo post | PostReturn int post | PostHalt halt

definition put_value :: "nat \<Rightarrow> char \<Rightarrow> post \<Rightarrow> post option" where
  "put_value i c p = (case put_char (valuebuffer (ps_ap p ! ps_value p)) i c of
     None \<Rightarrow> None
   | Some b \<Rightarrow> Some (p\<lparr>ps_ap := (ps_ap p)[ps_value p := (ps_ap p ! ps_value p)\<lparr>valuebuffer := b\<rparr>]\<rparr>))"

definition post_char :: "char \<Rightarrow> post \<Rightarrow> post_step" where
  "post_char c p =
     (if ps_doName p then
        (if c = CHR ''='' then
           (if NAME_BUFFER_SIZE \<le> ps_index p then PostHalt OutOfBounds
            else (case first_index (\<lambda>a. strncmp_eq (ps_name p) (pa_name a) NAME_BUFFER_SIZE) (ps_ap p) of
                None \<Rightarrow> PostReturn (- EINVAL) p
              | Some i \<Rightarrow> PostGo (p\<lparr>ps_value := i, ps_value_start := ps_index p + 1, ps_index := ps_index p + 1,
                    ps_doName := False\<rparr>)))
         else if c \<noteq> CR \<and> c \<noteq> LF then
           (if ps_index p < NAME_BUFFER_SIZE then
              PostGo (p\<lparr>ps_name := take (ps_index p) (ps_name p) @ [c], ps_index := ps_index p + 1\<rparr>)
            else PostGo p)
         else PostGo p)
      else if c = CR \<or> c = LF then
        (case put_value (ps_index p - ps_value_start p) NUL p of
           None \<Rightarrow> PostHalt OutOfBounds
         | Some p \<Rightarrow> PostGo (p\<lparr>ps_doName := True, ps_index := 0, ps_name := []\<rparr>))
      else
        (case put_value (ps_index p - ps_value_start p) c p of
           None \<Rightarrow> PostHalt OutOfBounds
         | Some p \<Rightarrow> PostGo (p\<lparr>ps_index := ps_index p + 1\<rparr>)))"

text \<open>The loop over \<open>content_length\<close>: a try-again counts as one of its rounds.\<close>

datatype post_outcome =
    PostDone int post "rx_event list"
  | PostStop halt "rx_event list"

fun post_loop :: "nat \<Rightarrow> rx_event list \<Rightarrow> post \<Rightarrow> post_outcome" where
  "post_loop 0 es p = PostDone 0 p es"
| "post_loop (Suc n) [] p = PostStop NoReturn []"
| "post_loop (Suc n) (e # es) p =
     (case e of
        RxClosed \<Rightarrow> PostDone 0 p es
      | RxAgain \<Rightarrow> post_loop n es p
      | RxError e \<Rightarrow> PostDone (- e) p es
      | RxByte c \<Rightarrow> (case post_char c p of
            PostGo p \<Rightarrow> post_loop n es p
          | PostReturn rc p \<Rightarrow> PostDone rc p es
          | PostHalt h \<Rightarrow> PostStop h es))"

definition post_init :: "post_attributes list \<Rightarrow> post" where
  "post_init ap = \<lparr>ps_ap = ap, ps_doName = True, ps_index = 0, ps_value_start = 0, ps_name = [], ps_value = 0\<rparr>"

definition ob_ws_process_post ::
  "int \<Rightarrow> post_attributes list \<Rightarrow> nat \<Rightarrow> ('z pages_scheme, int \<times> post_attributes list) prog" where
  "ob_ws_process_post client ap wp =
     bnd (load_wp wp) (\<lambda>wp. bnd (gets (\<lambda>s. rx s client)) (\<lambda>es.
     case post_loop (nat (content_length wp)) es (post_init ap) of
       PostDone rc p es' \<Rightarrow> thn (set_rx client es') (ret (rc, ps_ap p))
     | PostStop h es' \<Rightarrow> thn (set_rx client es') (halted h)))"

section \<open>What a form means\<close>

text \<open>The value of an attribute, and a form as its names and values.\<close>

definition attr_value :: "post_attributes \<Rightarrow> string" where
  "attr_value a = cstr (valuebuffer a)"

definition form_line :: "string \<times> string \<Rightarrow> string" where
  "form_line f = fst f @ ''='' @ snd f @ crlf"

definition form_text :: "(string \<times> string) list \<Rightarrow> string" where
  "form_text fs = concat (map form_line fs)"

text \<open>The first attribute of that name gets the value; the rest of its array stays.\<close>

definition assign :: "string \<times> string \<Rightarrow> post_attributes list \<Rightarrow> post_attributes list" where
  "assign f ap = (case first_index (\<lambda>a. pa_name a = fst f) ap of
     None \<Rightarrow> ap
   | Some i \<Rightarrow> ap[i := (ap ! i)\<lparr>valuebuffer := snd f @ NUL # drop (length (snd f) + 1) (valuebuffer (ap ! i))\<rparr>])"

definition good_field :: "post_attributes list \<Rightarrow> string \<times> string \<Rightarrow> bool" where
  "good_field ap f \<longleftrightarrow> fst f \<in> pa_name ` set ap \<and>
     CHR ''='' \<notin> set (fst f) \<and> CR \<notin> set (fst f) \<and> LF \<notin> set (fst f) \<and>
     CR \<notin> set (snd f) \<and> LF \<notin> set (snd f) \<and> nul_free (snd f) \<and> length (snd f) < VALUE_BUFFER_SIZE"

definition attrs_ok :: "post_attributes list \<Rightarrow> bool" where
  "attrs_ok ap \<longleftrightarrow> (\<forall>a \<in> set ap. nul_free (pa_name a) \<and> length (pa_name a) < NAME_BUFFER_SIZE \<and>
     length (valuebuffer a) = VALUE_BUFFER_SIZE)"

lemma assign_absent: "fst f \<notin> pa_name ` set ap \<Longrightarrow> assign f ap = ap"
proof -
  assume "fst f \<notin> pa_name ` set ap"
  then have "\<forall>a \<in> set ap. pa_name a \<noteq> fst f" by (auto simp: image_iff)
  then have "first_index (\<lambda>a. pa_name a = fst f) ap = None" by simp
  then show ?thesis unfolding assign_def by (simp only: option.case)
qed

lemma assign_at:
  "first_index (\<lambda>a. pa_name a = fst f) ap = Some i \<Longrightarrow>
   assign f ap = ap[i := (ap ! i)\<lparr>valuebuffer := snd f @ NUL # drop (length (snd f) + 1) (valuebuffer (ap ! i))\<rparr>]"
  by (simp add: assign_def)

lemma assign_names [simp]: "map pa_name (assign f ap) = map pa_name ap"
proof (cases "first_index (\<lambda>a. pa_name a = fst f) ap")
  case None
  then have "fst f \<notin> pa_name ` set ap" by auto
  then show ?thesis by (simp add: assign_absent)
next
  case (Some i)
  then have "i < length ap" by (rule first_index_bound)
  then show ?thesis
    unfolding assign_at [OF Some] by (simp add: map_update) (metis list_update_id nth_map)
qed

lemma assign_ok: "attrs_ok ap \<Longrightarrow> length (snd f) < VALUE_BUFFER_SIZE \<Longrightarrow> attrs_ok (assign f ap)"
proof -
  assume ok: "attrs_ok ap" and f: "length (snd f) < VALUE_BUFFER_SIZE"
  show ?thesis
  proof (cases "first_index (\<lambda>a. pa_name a = fst f) ap")
    case None
    then have "fst f \<notin> pa_name ` set ap" by auto
    with ok show ?thesis by (simp add: assign_absent)
  next
    case (Some i)
    then have "i < length ap" by (rule first_index_bound)
    then have i: "nul_free (pa_name (ap ! i))" "length (pa_name (ap ! i)) < NAME_BUFFER_SIZE"
      "length (valuebuffer (ap ! i)) = VALUE_BUFFER_SIZE"
      using ok by (simp_all add: attrs_ok_def)
    have "set (assign f ap) \<subseteq> insert ((ap ! i)\<lparr>valuebuffer := snd f @ NUL #
        drop (length (snd f) + 1) (valuebuffer (ap ! i))\<rparr>) (set ap)"
      unfolding assign_at [OF Some] by (rule set_update_subset_insert)
    moreover have "attrs_ok ((ap ! i)\<lparr>valuebuffer := snd f @ NUL #
        drop (length (snd f) + 1) (valuebuffer (ap ! i))\<rparr> # ap)"
      using ok i f by (simp add: attrs_ok_def)
    ultimately show ?thesis by (auto simp: attrs_ok_def)
  qed
qed

lemma good_field_names: "map pa_name ap = map pa_name ap' \<Longrightarrow> good_field ap f = good_field ap' f"
proof -
  assume "map pa_name ap = map pa_name ap'"
  then have "pa_name ` set ap = pa_name ` set ap'" by (metis list.set_map)
  then show ?thesis by (simp add: good_field_def)
qed

section \<open>Running the parser over a text\<close>

fun post_run :: "string \<Rightarrow> post \<Rightarrow> post option" where
  "post_run [] p = Some p"
| "post_run (c # cs) p = (case post_char c p of PostGo p \<Rightarrow> post_run cs p | _ \<Rightarrow> None)"

lemma post_run_append: "post_run (xs @ ys) p = (case post_run xs p of None \<Rightarrow> None | Some p \<Rightarrow> post_run ys p)"
  by (induction xs arbitrary: p) (auto split: post_step.split)

lemma post_loop_run:
  "post_run xs p = Some p' \<Longrightarrow> post_loop (length xs + n) (map RxByte xs @ es) p = post_loop n es p'"
  by (induction xs arbitrary: p) (auto split: post_step.splits)

text \<open>The name of a field: it is collected as it is.\<close>

lemma name_run:
  assumes "CHR ''='' \<notin> set xs" "CR \<notin> set xs" "LF \<notin> set xs" and "length pre + length xs \<le> NAME_BUFFER_SIZE"
    and "ps_doName p" "ps_index p = length pre" "ps_name p = pre"
  shows "post_run xs p = Some (p\<lparr>ps_name := pre @ xs, ps_index := length pre + length xs\<rparr>)"
  using assms
proof (induction xs arbitrary: pre p)
  case Nil
  then show ?case by (metis append_Nil2 list.size(3) add_0_right option.inject post.surjective post.update_convs(3,5) post_run.simps(1))
next
  case (Cons c xs)
  let ?p = "p\<lparr>ps_name := pre @ [c], ps_index := length pre + 1\<rparr>"
  have "post_char c p = PostGo ?p" using Cons.prems by (auto simp: post_char_def)
  moreover have "post_run xs ?p = Some (?p\<lparr>ps_name := (pre @ [c]) @ xs, ps_index := length (pre @ [c]) + length xs\<rparr>)"
    by (rule Cons.IH) (use Cons.prems in auto)
  ultimately show ?case by simp
qed


text \<open>The value: stored at the pointer, one character after the other.\<close>

definition store_at_value :: "nat \<Rightarrow> string \<Rightarrow> post \<Rightarrow> post_attributes list" where
  "store_at_value k xs p = (ps_ap p)[ps_value p := (ps_ap p ! ps_value p)\<lparr>valuebuffer :=
     take k (valuebuffer (ps_ap p ! ps_value p)) @ xs @
     drop (k + length xs) (valuebuffer (ps_ap p ! ps_value p))\<rparr>]"

lemma put_value_store:
  assumes "k < length (valuebuffer (ps_ap p ! ps_value p))"
  shows "put_value k c p = Some (p\<lparr>ps_ap := store_at_value k [c] p\<rparr>)"
  using assms by (simp add: put_value_def store_at_value_def upd_conv_take_nth_drop)

lemma store_at_value_snoc:
  assumes "ps_value p < length (ps_ap p)" and "k + length xs < length (valuebuffer (ps_ap p ! ps_value p))"
  shows "store_at_value (k + length xs) [c] (p\<lparr>ps_ap := store_at_value k xs p\<rparr>) = store_at_value k (xs @ [c]) p"
  using assms by (simp add: store_at_value_def)

lemma value_run:
  assumes "CR \<notin> set xs" "LF \<notin> set xs" and "\<not> ps_doName p" and "ps_value p < length (ps_ap p)"
    and "k = ps_index p - ps_value_start p" "ps_value_start p \<le> ps_index p"
    and "k + length xs \<le> length (valuebuffer (ps_ap p ! ps_value p))"
  shows "post_run xs p = Some (p\<lparr>ps_ap := store_at_value k xs p, ps_index := ps_index p + length xs\<rparr>)"
  using assms
proof (induction xs rule: rev_induct)
  case Nil
  then show ?case by (simp add: store_at_value_def)
next
  case (snoc c xs)
  let ?p = "p\<lparr>ps_ap := store_at_value k xs p, ps_index := ps_index p + length xs\<rparr>"
  have run: "post_run xs p = Some ?p" using snoc by simp
  have vb: "k + length xs < length (valuebuffer (ps_ap p ! ps_value p))" using snoc.prems(7) by simp
  have "length (valuebuffer (ps_ap ?p ! ps_value ?p)) = length (valuebuffer (ps_ap p ! ps_value p))"
    using snoc.prems(4,7) by (simp add: store_at_value_def)
  then have "put_value (k + length xs) c ?p = Some (?p\<lparr>ps_ap := store_at_value (k + length xs) [c] ?p\<rparr>)"
    using vb by (intro put_value_store) simp
  moreover have "store_at_value (k + length xs) [c] ?p = store_at_value k (xs @ [c]) p"
    using store_at_value_snoc [OF snoc.prems(4) vb, of c] by (simp add: store_at_value_def)
  moreover have "ps_index ?p - ps_value_start ?p = k + length xs" using snoc.prems(5,6) by simp
  ultimately have "post_char c ?p = PostGo (p\<lparr>ps_ap := store_at_value k (xs @ [c]) p,
      ps_index := ps_index p + length (xs @ [c])\<rparr>)"
    using snoc.prems(1-3) by (auto simp: post_char_def)
  then show ?case using run by (simp add: post_run_append)
qed

text \<open>One line of the form, from a state that expects a name to another.\<close>

definition expects_name :: "post \<Rightarrow> bool" where
  "expects_name p \<longleftrightarrow> ps_doName p \<and> ps_index p = 0 \<and> ps_name p = []"

lemma field_run:
  assumes p: "expects_name p" "attrs_ok (ps_ap p)" and f: "good_field (ps_ap p) f"
  shows "\<exists>p'. post_run (form_line f) p = Some p' \<and> expects_name p' \<and> ps_ap p' = assign f (ps_ap p)"
proof -
  obtain a where a: "a \<in> set (ps_ap p)" "pa_name a = fst f" using f by (auto simp: good_field_def)
  have nm: "nul_free (fst f)" "length (fst f) < NAME_BUFFER_SIZE" using p(2) a by (auto simp: attrs_ok_def)
  let ?p1 = "p\<lparr>ps_name := fst f, ps_index := length (fst f)\<rparr>"
  have run1: "post_run (fst f) p = Some ?p1"
    using name_run [of "fst f" "[]" p] f p(1) nm(2) by (simp add: good_field_def expects_name_def)
  obtain i where i: "first_index (\<lambda>a. pa_name a = fst f) (ps_ap p) = Some i"
    using a first_index_None [of "\<lambda>a. pa_name a = fst f" "ps_ap p"]
    by (cases "first_index (\<lambda>a. pa_name a = fst f) (ps_ap p)") auto
  have ib: "i < length (ps_ap p)" using first_index_bound [OF i] .
  have "first_index (\<lambda>a. strncmp_eq (fst f) (pa_name a) NAME_BUFFER_SIZE) (ps_ap p) =
      first_index (\<lambda>a. pa_name a = fst f) (ps_ap p)"
    by (rule first_index_cong) (use p(2) nm strncmp_eq_long in \<open>auto simp: attrs_ok_def\<close>)
  with i have found: "first_index (\<lambda>a. strncmp_eq (fst f) (pa_name a) NAME_BUFFER_SIZE) (ps_ap p) = Some i"
    by simp
  let ?p2 = "?p1\<lparr>ps_value := i, ps_value_start := length (fst f) + 1, ps_index := length (fst f) + 1, ps_doName := False\<rparr>"
  have run2: "post_char (CHR ''='') ?p1 = PostGo ?p2"
    using p(1) nm(2) found by (simp add: post_char_def expects_name_def)
  have vb: "length (valuebuffer (ps_ap p ! i)) = VALUE_BUFFER_SIZE" using p(2) ib by (simp add: attrs_ok_def)
  let ?p3 = "?p2\<lparr>ps_ap := store_at_value 0 (snd f) ?p2, ps_index := length (fst f) + 1 + length (snd f)\<rparr>"
  have run3: "post_run (snd f) ?p2 = Some ?p3"
    using value_run [of "snd f" ?p2 0] f ib vb by (simp add: good_field_def)
  have len: "length (snd f) < VALUE_BUFFER_SIZE" using f by (simp add: good_field_def)
  have vb3: "length (valuebuffer (ps_ap ?p3 ! ps_value ?p3)) = VALUE_BUFFER_SIZE"
    using ib vb len by (simp add: store_at_value_def)
  have put: "put_value (length (snd f)) NUL ?p3 = Some (?p3\<lparr>ps_ap := store_at_value (length (snd f)) [NUL] ?p3\<rparr>)"
    by (rule put_value_store) (use vb3 len in simp)
  have ap: "store_at_value (length (snd f)) [NUL] ?p3 = assign f (ps_ap p)"
    using ib vb len by (simp add: store_at_value_def assign_at [OF i])
  let ?p4 = "?p3\<lparr>ps_ap := assign f (ps_ap p), ps_doName := True, ps_index := 0, ps_name := []\<rparr>"
  have run4: "post_char CR ?p3 = PostGo ?p4" using put ap by (simp add: post_char_def)
  have run5: "post_char LF ?p4 = PostGo ?p4" by (simp add: post_char_def)
  have "post_run (form_line f) p = Some ?p4"
    using run1 run2 run3 run4 run5 by (simp add: form_line_def crlf_def post_run_append)
  then show ?thesis by (auto simp: expects_name_def)
qed

lemma form_run:
  assumes "expects_name p" "attrs_ok (ps_ap p)" and "\<forall>f \<in> set fs. good_field (ps_ap p) f"
  shows "\<exists>p'. post_run (form_text fs) p = Some p' \<and> expects_name p' \<and> ps_ap p' = fold assign fs (ps_ap p)"
  using assms
proof (induction fs arbitrary: p)
  case Nil
  then show ?case by (simp add: form_text_def)
next
  case (Cons f fs)
  obtain p1 where p1: "post_run (form_line f) p = Some p1" "expects_name p1" "ps_ap p1 = assign f (ps_ap p)"
    using field_run [OF Cons.prems(1,2), of f] Cons.prems(3) by auto
  have "attrs_ok (ps_ap p1)" using assign_ok Cons.prems(2,3) p1(3) by (auto simp: good_field_def)
  moreover have "\<forall>g \<in> set fs. good_field (ps_ap p1) g"
    using Cons.prems(3) good_field_names [of "ps_ap p1" "ps_ap p"] p1(3) by simp
  ultimately obtain p2 where "post_run (form_text fs) p1 = Some p2" "expects_name p2"
    "ps_ap p2 = fold assign fs (ps_ap p1)"
    using Cons.IH [OF p1(2)] by blast
  with p1 show ?case by (auto simp: form_text_def post_run_append)
qed

section \<open>The parser on a form\<close>

text \<open>
  A form whose length the page knows is read to its last byte, and every field ends up in
  its attribute: the last value given for each name.
\<close>

lemma process_post_form:
  assumes wp: "load_wp p s = Inr (wp, s)" "content_length wp = int (length (form_text fs))"
    and rx: "rx s c = map RxByte (form_text fs) @ es"
    and ap: "attrs_ok ap" "\<forall>f \<in> set fs. good_field ap f"
  shows "ob_ws_process_post c ap p s = Inr ((0, fold assign fs ap), s\<lparr>rx := (rx s)(c := es)\<rparr>)"
proof -
  obtain q where q: "post_run (form_text fs) (post_init ap) = Some q" "ps_ap q = fold assign fs ap"
    using form_run [of "post_init ap" fs] ap by (auto simp: post_init_def expects_name_def)
  have "post_loop (length (form_text fs) + 0) (map RxByte (form_text fs) @ es) (post_init ap) = post_loop 0 es q"
    by (rule post_loop_run [OF q(1)])
  then show ?thesis using wp rx q(2) by (simp add: ob_ws_process_post_def set_rx_def)
qed

text \<open>The value an attribute has after a form: the last one given for it, else the one it had.\<close>

lemma assign_value:
  assumes "i < length ap" and "\<forall>j < i. pa_name (ap ! j) \<noteq> pa_name (ap ! i)" and "nul_free v"
  shows "attr_value (assign (k, v) ap ! i) = (if pa_name (ap ! i) = k then v else attr_value (ap ! i))"
proof (cases "pa_name (ap ! i) = k")
  case True
  then have "first_index (\<lambda>a. pa_name a = fst (k, v)) ap = Some i"
    using assms(1,2) by (auto simp: first_index_Some)
  from assign_at [OF this] True assms(1,3) show ?thesis by (simp add: attr_value_def)
next
  case False
  show ?thesis
  proof (cases "first_index (\<lambda>a. pa_name a = fst (k, v)) ap")
    case None
    then have "k \<notin> pa_name ` set ap" by auto
    with False show ?thesis by (simp add: assign_absent)
  next
    case (Some j)
    then have "pa_name (ap ! j) = k" by (simp add: first_index_Some)
    with False have "j \<noteq> i" by auto
    with assign_at [OF Some] False show ?thesis by simp
  qed
qed

lemma form_values:
  assumes "distinct (map pa_name ap)" and "\<forall>f \<in> set fs. nul_free (snd f)" and "i < length ap"
  shows "attr_value (fold assign fs ap ! i) =
    (case map_of (rev fs) (pa_name (ap ! i)) of None \<Rightarrow> attr_value (ap ! i) | Some v \<Rightarrow> v)"
  using assms
proof (induction fs arbitrary: ap)
  case Nil
  show ?case by simp
next
  case (Cons f fs)
  obtain k v where f: "f = (k, v)" by (cases f)
  have len: "length (assign f ap) = length ap" by (metis assign_names length_map)
  have name: "pa_name (assign f ap ! i) = pa_name (ap ! i)"
    using Cons.prems(3) len by (metis assign_names nth_map)
  have "\<forall>j < i. pa_name (ap ! j) \<noteq> pa_name (ap ! i)"
    using Cons.prems(1,3) by (simp add: distinct_conv_nth)
  then have v: "attr_value (assign f ap ! i) = (if pa_name (ap ! i) = k then v else attr_value (ap ! i))"
    unfolding f using Cons.prems(2,3) f by (intro assign_value) simp_all
  have "attr_value (fold assign fs (assign f ap) ! i) = (case map_of (rev fs) (pa_name (assign f ap ! i)) of
      None \<Rightarrow> attr_value (assign f ap ! i) | Some v \<Rightarrow> v)"
    using Cons.prems len by (intro Cons.IH) simp_all
  then show ?case
    unfolding name v using f by (simp add: map_of_append map_add_def split: option.split)
qed

lemma fold_assign_names [simp]: "map pa_name (fold assign fs ap) = map pa_name ap"
  by (induction fs arbitrary: ap) simp_all

lemma good_fields_nul_free: "\<forall>f \<in> set fs. good_field ap f \<Longrightarrow> \<forall>f \<in> set fs. nul_free (snd f)"
  by (simp add: good_field_def)

text \<open>A value longer than its array is written past it.\<close>

lemma long_value_overflows:
  assumes "\<not> ps_doName p" and "ps_value p < length (ps_ap p)"
    and "length (valuebuffer (ps_ap p ! ps_value p)) \<le> ps_index p - ps_value_start p"
  shows "post_char c p = PostHalt OutOfBounds"
  using assms by (simp add: post_char_def put_value_def)

text \<open>A byte that had to be tried again is a byte the loop does not read.\<close>

lemma again_loses_a_round:
  "post_run xs p = Some p' \<Longrightarrow>
   post_loop (Suc (length xs)) (RxAgain # map RxByte (xs @ [c]) @ es) p = PostDone 0 p' (RxByte c # es)"
  using post_loop_run [of xs p p' 0 "RxByte c # es"] by simp

end
