(* ===== verification/Ob_Portal.thy ===== *)
theory Ob_Portal
  imports Ob_Post
begin

unbundle bit_operations_syntax

text \<open>
  src/ob_captive_portal.c and src/ob_reboot.c: the page that offers the networks found by a
  scan, the page that takes the chosen network and its key, and the restart that follows. The
  theory closes the loop between the files: \<open>portal_deliver\<close> runs the handlers of all files
  on an event, and \<open>portal_page\<close> the callbacks of the registered pages. A page or callback of
  the application is not under src/, so running it is a call out.
\<close>

section \<open>Restart\<close>

definition ob_reboot :: "(net_event \<Rightarrow> ('z web_scheme, unit) prog) \<Rightarrow> ('z web_scheme, unit) prog" where
  "ob_reboot deliver =
     bnd (gets cfg) (\<lambda>c.
     if CONFIG_ONBOARDING_OTA c then ota_reboot
     else
       thn (cond (CONFIG_ONBOARDING_WEB_SERVER c) (bnd stop_web_server (\<lambda>_. ret ())))
       (thn (cond (CONFIG_ONBOARDING_WIFI c) (ob_wifi_deinit deliver))
            (ext0 SysReboot)))"

section \<open>State\<close>

text \<open>The buffer with the list of networks: a pointer that is never set back to null.\<close>

datatype body_buffer =
    BodyNull
  | BodyFreed
  | Body nat string         \<comment> \<open>the bytes allocated, and the contents as a C string\<close>

record portal = web +
  content_wifi_body_ssid :: body_buffer
  wifi_setup_attrib :: "post_attributes list"

definition WIFI_SETUP_PAGE_PATH :: string where "WIFI_SETUP_PAGE_PATH = ''/setwifi.html''"
definition WIFI_SETUP_TITLE :: string where "WIFI_SETUP_TITLE = ''Wifi setup''"
definition NUM_WIFI_SETUP_ATTRIBUTES :: nat where "NUM_WIFI_SETUP_ATTRIBUTES = 2"
definition WIFI_SETUP_ATTRIB_SSID :: nat where "WIFI_SETUP_ATTRIB_SSID = 0"
definition WIFI_SETUP_ATTRIB_PASSWORD :: nat where "WIFI_SETUP_ATTRIB_PASSWORD = 1"

definition wifi_setup_attrib_init :: "post_attributes list" where
  "wifi_setup_attrib_init =
     [\<lparr>pa_name = ''ssid'', valuebuffer = replicate VALUE_BUFFER_SIZE NUL\<rparr>,
      \<lparr>pa_name = ''password'', valuebuffer = replicate VALUE_BUFFER_SIZE NUL\<rparr>]"

definition portal_static :: "'z portal_scheme \<Rightarrow> bool" where
  "portal_static s \<longleftrightarrow> content_wifi_body_ssid s = BodyNull \<and> wifi_setup_attrib s = wifi_setup_attrib_init"

definition content_wifi_body_start :: string where
  "content_wifi_body_start = ''<form method='' @ [DQ] @ ''post'' @ [DQ] @ '' enctype='' @ [DQ] @ ''text/plain'' @ [DQ] @
     '' action='' @ [DQ] @ WIFI_SETUP_PAGE_PATH @ [DQ] @ ''><div><label for='' @ [DQ] @ ''ssid'' @ [DQ] @
     ''>Select a SSID:</label><select name='' @ [DQ] @ ''ssid'' @ [DQ] @ '' id='' @ [DQ] @ ''ssid'' @ [DQ] @ ''> ''"

definition content_wifi_body_tail :: string where
  "content_wifi_body_tail = ''</select></div><div><label for='' @ [DQ] @ ''pass'' @ [DQ] @
     ''>Password (8 characters minimum):</label><input type='' @ [DQ] @ ''password'' @ [DQ] @ '' id='' @ [DQ] @
     ''pass'' @ [DQ] @ '' name='' @ [DQ] @ ''password'' @ [DQ] @ '' minlength='' @ [DQ] @ ''8'' @ [DQ] @
     '' required /></div>'' @ ''<input type='' @ [DQ] @ ''submit'' @ [DQ] @ '' value='' @ [DQ] @ ''Configure'' @ [DQ] @
     '' /></form></body></html>'' @ [CR, LF, CR, LF]"

text \<open>\<open>option_fmt\<close> printed for a name, and its size as an array.\<close>

definition option_text :: "string \<Rightarrow> string" where
  "option_text x = ''<option value='' @ [DQ] @ x @ [DQ] @ ''>'' @ x @ ''</option>''"

definition sizeof_option_fmt :: nat where "sizeof_option_fmt = length ob_web_get_option_fmt + 1"

section \<open>The list of networks\<close>

text \<open>The names in the list, from a pointer to its first node.\<close>

fun scan_names :: "nat \<Rightarrow> nat \<Rightarrow> ('z ssids_scheme, string list) prog" where
  "scan_names 0 it = halted NoReturn"
| "scan_names (Suc n) it =
     (if it = 0 then ret []
      else bnd (load_item it) (\<lambda>i. bnd (str_of (it_ssid i)) (\<lambda>x.
        bnd (scan_names n (it_next i)) (\<lambda>xs. ret (x # xs)))))"

text \<open>The second loop: each entry printed to \<open>ssidbuf\<close>, then appended to the buffer.\<close>

primrec scan_options :: "nat \<Rightarrow> nat \<Rightarrow> string list \<Rightarrow> string \<Rightarrow> ('s, string) prog" where
  "scan_options ssidbuf_len cap [] txt = ret txt"
| "scan_options ssidbuf_len cap (x # xs) txt =
     thn (require (length (option_text x) < ssidbuf_len) OutOfBounds)
     (bnd (strcat cap txt (option_text x)) (scan_options ssidbuf_len cap xs))"

definition client_scan_done :: "nat \<Rightarrow> ('z portal_scheme, unit) prog" where
  "client_scan_done ssid =
     bnd (gets brk) (\<lambda>b. bnd (scan_names (Suc b) ssid) (\<lambda>names.
     let len = sum_list (map (\<lambda>x. length x * 2 + (sizeof_option_fmt - 4)) names) in
     bnd (malloc len) (\<lambda>p.
     if p = 0 then modify (\<lambda>s. s\<lparr>content_wifi_body_ssid := BodyNull\<rparr>)
     else
       bnd (gets (\<lambda>s. WIFI_SSID_MAX_LEN (cfg s))) (\<lambda>maxlen.
       bnd (scan_options (maxlen * 2 + sizeof_option_fmt) len names []) (\<lambda>txt.
       thn (modify (\<lambda>s. s\<lparr>content_wifi_body_ssid := Body len txt\<rparr>))
           (ext0 (KSemGive scan_done_sem)))))))"

section \<open>The pages\<close>

text \<open>The block after the wait: the header, then the three parts of the body.\<close>

definition send_setup_page :: "int \<Rightarrow> body_buffer \<Rightarrow> ('z portal_scheme, int) prog" where
  "send_setup_page client body =
     (case body of
        BodyNull \<Rightarrow> ret (- 1)
      | BodyFreed \<Rightarrow> halted UseAfterFree
      | Body cap txt \<Rightarrow>
          thn (require (length txt < cap) OutOfBounds)
          (bnd (CreateHeader200 (int (length content_wifi_body_start + length txt +
                  length content_wifi_body_tail)) WIFI_SETUP_TITLE) (\<lambda>header. case header of
             None \<Rightarrow> ret (- 1)
           | Some header \<Rightarrow>
               bnd (sendall client header) (\<lambda>rc.
               bnd (sendall client content_wifi_body_start) (\<lambda>rc.
               bnd (sendall client txt) (\<lambda>rc.
                    sendall client content_wifi_body_tail))))))"

definition display_wifi_setup_page ::
  "(net_event \<Rightarrow> ('z portal_scheme, unit) prog) \<Rightarrow> int \<Rightarrow> ('z portal_scheme, int) prog" where
  "display_wifi_setup_page deliver client =
     thn (set_scan_done_callback (Some ''client_scan_done''))
     (bnd ob_wifi_scan (\<lambda>_.
      bnd (ext_wait deliver (KSemTake scan_done_sem None)) (\<lambda>_.
      bnd (gets content_wifi_body_ssid) (\<lambda>body.
      bnd (send_setup_page client body) (\<lambda>rc.
      thn (cond (body \<noteq> BodyNull) (modify (\<lambda>s. s\<lparr>content_wifi_body_ssid := BodyFreed\<rparr>)))
          (ret rc))))))"

text \<open>One attribute written to the store: its array, up to its NUL.\<close>

definition save_attrib :: "string \<Rightarrow> nat \<Rightarrow> ('z portal_scheme, int) prog" where
  "save_attrib key i =
     bnd (gets (\<lambda>s. valuebuffer (wifi_setup_attrib s ! i))) (\<lambda>b.
     bnd (str_of b) (\<lambda>v. ob_nvs_data_write key b (length v)))"

definition post_wifi_setup_page ::
  "'z portal_scheme page_runner \<Rightarrow> (net_event \<Rightarrow> ('z portal_scheme, unit) prog) \<Rightarrow> int \<Rightarrow> nat
   \<Rightarrow> ('z portal_scheme, int) prog" where
  "post_wifi_setup_page run_page deliver client wp =
     bnd (gets wifi_setup_attrib) (\<lambda>ap.
     bnd (ob_ws_process_post client ap wp) (\<lambda>(rc, ap').
     thn (modify (\<lambda>s. s\<lparr>wifi_setup_attrib := ap'\<rparr>))
     (bnd (if rc \<ge> 0 then
             bnd (save_attrib NVS_SETTINGS_ID_WIFI_SSID WIFI_SETUP_ATTRIB_SSID) (\<lambda>rc.
                  save_attrib NVS_SETTINGS_ID_WIFI_PSK WIFI_SETUP_ATTRIB_PASSWORD)
           else ret rc) (\<lambda>rc.
      bnd (ob_web_server_display_home run_page client) (\<lambda>_.
      if rc \<ge> 0 then thn (ob_reboot deliver) (ret rc) else ret rc)))))"

definition ob_cp_init :: "('z pages_scheme, int) prog" where
  "ob_cp_init = ob_ws_register_web_page WIFI_SETUP_PAGE_PATH WIFI_SETUP_TITLE
     (Some ''display_wifi_setup_page'') (Some ''post_wifi_setup_page'')
     (PAGE_IS_CAPTIVE_PORTAL OR PAGE_IS_HOME_PAGE)"

section \<open>The files together\<close>

definition portal_cb :: "fnptr \<Rightarrow> nat \<Rightarrow> ('z portal_scheme, unit) prog" where
  "portal_cb f p = (if f = ''client_scan_done'' then client_scan_done p else ext0 (CallPtr f))"

definition portal_deliver :: "net_event \<Rightarrow> ('z portal_scheme, unit) prog" where
  "portal_deliver = web_deliver portal_cb"

definition portal_get :: "'z portal_scheme page_runner" where
  "portal_get f client p =
     (if f = ''display_wifi_setup_page'' then display_wifi_setup_page portal_deliver client
      else ext (CallPtr f))"

definition portal_page :: "'z portal_scheme page_runner" where
  "portal_page f client p =
     (if f = ''post_wifi_setup_page'' then post_wifi_setup_page portal_get portal_deliver client p
      else portal_get f client p)"

end
