(* ===== verification/Ob_Boot.thy ===== *)
theory Ob_Boot
  imports Ob_Web_Facts
begin

text \<open>
  The start-up of src/ob_wifi.c comes to its end: on a platform whose calls return, with build
  options whose strings fit the arrays they are copied to, \<open>ob_wifi_init\<close> neither runs into
  undefined behaviour nor waits for ever, whatever the platform answers and whatever events but
  those of a scan arrive meanwhile.
\<close>

section \<open>A start-up returns\<close>

definition is_scan_event :: "net_event \<Rightarrow> bool" where
  "is_scan_event e \<longleftrightarrow> (case e of WIFI_SCAN_RESULT _ _ _ _ \<Rightarrow> True | WIFI_SCAN_DONE \<Rightarrow> True | _ \<Rightarrow> False)"

text \<open>
  The strings of the build fit the arrays they are copied to; the debug message finds the
  interface whose name it prints; the host name is not read from the store.
\<close>

definition build_ok :: "config \<Rightarrow> bool" where
  "build_ok c \<longleftrightarrow>
     (CONFIG_ONBOARDING_WIFI_AP c \<longrightarrow> length (CONFIG_ONBOARDING_WIFI_AP_ADDRESS c) < WIFI_AP_ADDRESS_SIZE \<and>
        length (CONFIG_ONBOARDING_WIFI_AP_SSID c) + 6 < WIFI_SSID_MAX_LEN c \<and>
        length (CONFIG_ONBOARDING_WIFI_AP_PSK c) < WIFI_PSK_MAX_LEN c) \<and>
     (CONFIG_ONBOARDING_PRECONFIG_WIFI c \<longrightarrow> length (CONFIG_ONBOARDING_WIFI_SSID c) < WIFI_SSID_MAX_LEN c \<and>
        length (CONFIG_ONBOARDING_WIFI_PSK c) < WIFI_PSK_MAX_LEN c) \<and>
     \<not> CONFIG_NET_HOSTNAME_DYNAMIC c"

definition boot_env :: "config \<Rightarrow> replier \<Rightarrow> (call list \<Rightarrow> call \<Rightarrow> net_event list) \<Rightarrow> bool" where
  "boot_env c r ar \<longleftrightarrow> replies r \<and> (\<forall>tr q e. e \<in> set (ar tr q) \<longrightarrow> \<not> is_scan_event e) \<and>
     (CONFIG_ONBOARDING_LOG_LEVEL_DBG c \<longrightarrow> (\<forall>tr. r tr (NetIfGet wifi_sap) \<noteq> Some 0))"

definition in_boot ::
  "config \<Rightarrow> replier \<Rightarrow> (call list \<Rightarrow> call \<Rightarrow> net_event list) \<Rightarrow> 'z kern_scheme \<Rightarrow> bool" where
  "in_boot c r ar s \<longleftrightarrow> cfg s = c \<and> reply s = r \<and> arrivals s = ar"

lemma returns_call:
  assumes "boot_env c r ar" and "q \<noteq> SysReboot"
  shows "returns (in_boot c r ar) (ext q)" "returns (in_boot c r ar) (ext0 q)" "returns (in_boot c r ar) (ext_data q)"
  using assms
  by (auto simp: boot_env_def replies_def in_boot_def intro!: returns_ext returns_ext0 returns_ext_data)

text \<open>Updates of the program's own fields.\<close>

lemma returns_own:
  assumes "\<And>s. cfg (f s) = cfg s \<and> reply (f s) = reply s \<and> arrivals (f s) = arrivals s"
  shows "returns (in_boot c r ar) (modify f)"
  by (rule returns_modify) (use assms in \<open>simp add: in_boot_def\<close>)

lemma returns_cfg: "returns (in_boot c r ar) (f c) \<Longrightarrow> returns (in_boot c r ar) (bnd (gets cfg) f)"
  by (rule returns_bnd_gets) (simp add: in_boot_def)

lemma returns_any: "(\<And>v. returns I (f v)) \<Longrightarrow> returns I (bnd (gets g) f)"
  by (rule returns_bnd_gets)

lemma returns_deliver:
  assumes env: "boot_env c r ar" and e: "\<not> is_scan_event e"
  shows "returns (in_boot c r ar) (web_deliver run_cb e)"
proof -
  note rs = returns_intros returns_call [OF env] returns_own returns_any
  have dis: "returns (in_boot c r ar) ob_wifi_ap_disable"
    unfolding ob_wifi_ap_disable_def by (intro rs) simp_all
  have wifi: "returns (in_boot c r ar) (wifi_deliver run_cb e)"
    using e unfolding wifi_deliver_def ethernet_mgmt_event_handler_def ipv4_mgmt_event_handler_def
      ob_wifi_mgmt_event_handler_def ob_wifi_HasAP_def is_scan_event_def
    by (cases e) (auto intro!: rs dis)
  have web: "returns (in_boot c r ar) (ob_web_event_handler e)"
    unfolding ob_web_event_handler_def by (intro rs) simp_all
  show ?thesis unfolding web_deliver_def by (intro returns_thn wifi web)
qed

lemma returns_wait:
  assumes env: "boot_env c r ar" and "q \<noteq> SysReboot"
  shows "returns (in_boot c r ar) (ext_wait (web_deliver run_cb) q)"
  by (rule returns_ext_wait)
    (use assms in \<open>auto simp: boot_env_def replies_def in_boot_def intro!: returns_deliver\<close>)

lemma returns_connect:
  assumes env: "boot_env c r ar"
  shows "returns (in_boot c r ar) (ob_wifi_connect (web_deliver run_cb))"
proof -
  note rs = returns_intros returns_call [OF env] returns_wait [OF env] returns_own returns_any
  have loop: "returns (in_boot c r ar) (connect_loop (web_deliver run_cb) (NetMgmt q i) n x)" for q i n x
    by (induction n arbitrary: x) (auto intro!: rs)
  show ?thesis unfolding ob_wifi_connect_def by (intro rs loop) simp_all
qed

lemma returns_mac:
  assumes env: "boot_env c r ar"
  shows "returns (in_boot c r ar) (get_mac_address n :: ('z wifi_scheme, 8 word list option) prog)"
  unfolding get_mac_address_def
proof (rule returns_bnd_ext)
  fix s :: "'z wifi_scheme"
  assume I: "in_boot c r ar s"
  with env have "responsive s" by (simp add: boot_env_def in_boot_def)
  then obtain i where i: "reply s (trace s) (NetIfGet wifi_sap) = Some i"
    by (auto elim: repliesE [where c = "NetIfGet wifi_sap" and tr = "trace s"])
  have dbg: "CONFIG_ONBOARDING_LOG_LEVEL_DBG (cfg t) \<longrightarrow> i \<noteq> 0" if "in_boot c r ar t" for t :: "'z wifi_scheme"
    using that env I i by (auto simp: boot_env_def in_boot_def)
  show "\<exists>i. reply s (trace s) (NetIfGet wifi_sap) = Some i \<and>
      returns (in_boot c r ar) (bnd (gets (\<lambda>s :: 'z wifi_scheme. CONFIG_ONBOARDING_LOG_LEVEL_DBG (cfg s))) (\<lambda>dbg.
      thn (require (\<not> dbg \<or> i \<noteq> 0) NullDeref)
      (if i \<noteq> 0 then bnd (ext_data (NetIfGetLinkAddr i)) (\<lambda>(_, addr).
         if 6 \<le> n then ret (Some (map of_char (take 6 (addr @ replicate 6 NUL)))) else ret None)
       else ret None)))"
    by (intro exI [of _ i] conjI i returns_bnd_gets returns_thn returns_require returns_intros returns_call [OF env])
      (use dbg in simp_all)
qed (simp add: in_boot_def)

lemma returns_init_ap:
  assumes env: "boot_env c r ar" and build: "build_ok c" "CONFIG_ONBOARDING_WIFI_AP c"
  shows "returns (in_boot c r ar) wifi_init_ap"
  unfolding wifi_init_ap_def ob_wifi_ap_enable_def Let_def
  by (intro returns_cfg returns_intros returns_call [OF env] returns_own returns_mac [OF env] returns_require)
    (use build in \<open>simp_all add: build_ok_def\<close>)

lemma returns_read:
  assumes env: "boot_env c r ar" and build: "build_ok c"
  shows "returns (in_boot c r ar) wifi_read_ssid" "returns (in_boot c r ar) wifi_read_psk"
proof -
  have fit: "terminated (strncpy_buf (WIFI_SSID_MAX_LEN c) (CONFIG_ONBOARDING_WIFI_SSID c))"
    "terminated (strncpy_buf (WIFI_PSK_MAX_LEN c) (CONFIG_ONBOARDING_WIFI_PSK c))" if "CONFIG_ONBOARDING_PRECONFIG_WIFI c"
    using build that cstr_length_le [of "CONFIG_ONBOARDING_WIFI_SSID c"] cstr_length_le [of "CONFIG_ONBOARDING_WIFI_PSK c"]
    by (auto simp: build_ok_def terminated_strncpy_buf)
  show "returns (in_boot c r ar) wifi_read_ssid" "returns (in_boot c r ar) wifi_read_psk"
    unfolding wifi_read_ssid_def wifi_read_psk_def ob_nvs_data_read_def Let_def
    by (intro returns_cfg returns_intros returns_call [OF env] returns_own returns_require fit; simp)+
qed

lemma returns_wifi_init:
  assumes env: "boot_env c r ar" and build: "build_ok c"
  shows "returns (in_boot c r ar) (ob_wifi_init (web_deliver run_cb))"
proof -
  note rs = returns_intros returns_call [OF env] returns_wait [OF env] returns_own returns_any
  have nvs: "returns (in_boot c r ar) ob_nvs_data_init"
    unfolding ob_nvs_data_init_def by (intro rs) simp_all
  show ?thesis
    unfolding ob_wifi_init_def
    by (intro returns_cfg returns_intros nvs returns_call [OF env] returns_wait [OF env] returns_own
        returns_init_ap [OF env build] returns_read [OF env build] returns_connect [OF env])
      (use build in \<open>simp_all add: build_ok_def\<close>)
qed

definition boots_fine :: "'z kern_scheme \<Rightarrow> bool" where
  "boots_fine t \<longleftrightarrow> build_ok (cfg t) \<and> boot_env (cfg t) (reply t) (arrivals t)"

lemma boot_returns:
  fixes t :: "'z web_scheme"
  assumes "boots_fine t"
  obtains r t' where "ob_wifi_init (web_deliver run_cb) t = Inr (r, t')"
proof -
  have "returns (in_boot (cfg t) (reply t) (arrivals t)) (ob_wifi_init (web_deliver run_cb) :: ('z web_scheme, int) prog)"
    using assms by (intro returns_wifi_init) (simp_all add: boots_fine_def)
  then show thesis by (rule returnsE [where s = t]) (simp add: in_boot_def, rule that)
qed

end
