(* ===== verification/Ob_Portal_Facts.thy ===== *)
theory Ob_Portal_Facts
  imports Ob_Portal Ob_Boot
begin

text \<open>
  Facts about src/ob_captive_portal.c: the list of networks is printed whole and within its
  buffer, the setup page goes out with the length its header announces, and a posted
  network and key are in the store when the device restarts.
\<close>

section \<open>The list of networks\<close>

lemma scan_names_chain:
  assumes "chain (ssid_heap s) p as" and "\<forall>a \<in> set as. terminated (it_ssid (the (ssid_heap s a)))"
    and "length as \<le> n"
  shows "scan_names (Suc n) p s = Inr (map (\<lambda>a. cstr (it_ssid (the (ssid_heap s a)))) as, s)"
  using assms
proof (induction as arbitrary: p n)
  case Nil
  then show ?case by simp
next
  case (Cons a as)
  then obtain i where i: "p = a" "a \<noteq> 0" "ssid_heap s a = Some i" "chain (ssid_heap s) (it_next i) as" by auto
  obtain k where k: "n = Suc k" using Cons.prems(3) by (cases n) auto
  have "scan_names (Suc k) (it_next i) s = Inr (map (\<lambda>a. cstr (it_ssid (the (ssid_heap s a)))) as, s)"
    by (rule Cons.IH [OF i(4)]) (use Cons.prems k in auto)
  with i k Cons.prems(2) show ?case by (simp add: load_item_def)
qed

lemma length_option_text: "length (option_text x) = 26 + 2 * length x"
  by (simp add: option_text_def)

lemma sizeof_option [simp]: "sizeof_option_fmt = 31"
  by (simp add: sizeof_option_fmt_def ob_web_get_option_fmt_def)

text \<open>The bytes the source asks for.\<close>

definition options_size :: "string list \<Rightarrow> nat" where
  "options_size names = sum_list (map (\<lambda>x. length x * 2 + 27) names)"

lemma options_fit: "length (concat (map option_text names)) + length names = options_size names"
  by (induction names) (simp_all add: options_size_def length_option_text)

lemma scan_options_apply:
  assumes "\<forall>x \<in> set xs. length x \<le> maxlen"
    and "xs \<noteq> [] \<longrightarrow> length buf + length (concat (map option_text xs)) < cap"
  shows "scan_options (maxlen * 2 + sizeof_option_fmt) cap xs buf s =
    Inr (buf @ concat (map option_text xs), s)"
  using assms
proof (induction xs arbitrary: buf)
  case (Cons x xs)
  have "scan_options (maxlen * 2 + sizeof_option_fmt) cap xs (buf @ option_text x) s =
    Inr ((buf @ option_text x) @ concat (map option_text xs), s)"
    by (rule Cons.IH) (use Cons.prems in auto)
  with Cons.prems show ?case by (simp add: length_option_text)
qed simp

definition heap_names :: "'z ssids_scheme \<Rightarrow> nat list \<Rightarrow> string list" where
  "heap_names s as = map (\<lambda>a. cstr (it_ssid (the (ssid_heap s a)))) as"

text \<open>The nodes of a list whose names fit the arrays of the source.\<close>

definition names_fit :: "'z ssids_scheme \<Rightarrow> nat list \<Rightarrow> bool" where
  "names_fit s as \<longleftrightarrow> (\<forall>a \<in> set as. length (cstr (it_ssid (the (ssid_heap s a)))) \<le> WIFI_SSID_MAX_LEN (cfg s))"

lemma client_scan_done_state:
  assumes rep: "ssid_rep s as" "names_fit s as" "as \<noteq> []" and env: "responsive s" "has_memory (reply s)"
  shows "client_scan_done (ssid_head s) s = Inr ((), s\<lparr>brk := Suc (brk s),
      content_wifi_body_ssid := Body (options_size (heap_names s as)) (concat (map option_text (heap_names s as))),
      trace := trace s @ [Malloc (options_size (heap_names s as)), KSemGive scan_done_sem]\<rparr>) \<and>
    length (concat (map option_text (heap_names s as))) < options_size (heap_names s as)"
proof -
  have names: "scan_names (Suc (brk s)) (ssid_head s) s = Inr (heap_names s as, s)"
    unfolding heap_names_def
    by (rule scan_names_chain) (use rep ssid_rep_length [OF rep(1)] in \<open>auto simp: ssid_rep_def names_fit_def\<close>)
  let ?n = "options_size (heap_names s as)"
  let ?t = "concat (map option_text (heap_names s as))"
  have "0 < length (heap_names s as)" using rep(3) by (simp add: heap_names_def)
  then have fit: "length ?t < ?n" using options_fit [of "heap_names s as"] by linarith
  obtain r where r: "reply s (trace s) (Malloc ?n) = Some r" "r \<noteq> 0"
    using env by (metis has_memory_def repliesE kernel_call.distinct(1) call.inject(2) option.inject)
  have opts: "scan_options (WIFI_SSID_MAX_LEN (cfg s) * 2 + sizeof_option_fmt) ?n (heap_names s as) [] t =
      Inr (?t, t)" for t :: "'a portal_scheme"
    using scan_options_apply [of "heap_names s as" "WIFI_SSID_MAX_LEN (cfg s)" "[]" ?n t] rep(2) fit
    by (auto simp: heap_names_def names_fit_def)
  obtain q where q: "reply s (trace s @ [Malloc ?n]) (KSemGive scan_done_sem) = Some q"
    using env(1) by (auto elim: repliesE)
  show ?thesis
    using names r opts q fit
    by (simp add: client_scan_done_def Let_def malloc_apply ext0_apply options_size_def)
qed

lemma client_scan_done_text:
  assumes "ssid_rep s as" "names_fit s as" "as \<noteq> []" and "responsive s" "has_memory (reply s)"
  shows "\<exists>s'. client_scan_done (ssid_head s) s = Inr ((), s') \<and>
    content_wifi_body_ssid s' = Body (options_size (heap_names s as)) (concat (map option_text (heap_names s as))) \<and>
    length (concat (map option_text (heap_names s as))) < options_size (heap_names s as) \<and>
    trace s' = trace s @ [Malloc (options_size (heap_names s as)), KSemGive scan_done_sem]"
  using client_scan_done_state [OF assms] by simp

text \<open>With no network in range, the buffer has no byte, and the page reads its first one.\<close>

lemma client_scan_done_empty:
  assumes "ssid_head s = 0" and "reply s (trace s) (Malloc 0) = Some r" "r \<noteq> 0"
    and "reply s (trace s @ [Malloc 0]) (KSemGive scan_done_sem) = Some q"
  shows "\<exists>s'. client_scan_done (ssid_head s) s = Inr ((), s') \<and> content_wifi_body_ssid s' = Body 0 []"
  using assms by (simp add: client_scan_done_def Let_def malloc_apply ext0_apply)

section \<open>The setup page\<close>

text \<open>What is sent once the list is there.\<close>

definition setup_parts :: "string \<Rightarrow> string list" where
  "setup_parts txt = [content_wifi_body_start, txt, content_wifi_body_tail]"

lemma send_setup_page_whole:
  assumes fit: "length txt < cap" "length txt < 10 ^ 6"
    and pages: "pages_ok s" "length (menu_text (web_pages s)) < WEB_MENU_LEN"
    and sock: "sock_law s c" "sock_live s c (length (header_text
      (int (length (concat (setup_parts txt)))) WIFI_SETUP_TITLE (menu_text (web_pages s)) @ concat (setup_parts txt)))"
  shows "\<exists>s' content. send_setup_page c (Body cap txt) s = Inr (0, s') \<and>
    wire s' c = wire s c @ http1_1_OK @ ''Content-Length: '' @ dec_nat (length content) @ [CR, LF] @
       CONTENT_TYPE @ content \<and> content = page_head WIFI_SETUP_TITLE (menu_text (web_pages s)) @ concat (setup_parts txt)"
proof -
  let ?m = "menu_text (web_pages s)"
  let ?n = "length (concat (setup_parts txt))"
  let ?h = "header_text (int ?n) WIFI_SETUP_TITLE ?m"
  let ?content = "page_head WIFI_SETUP_TITLE ?m @ concat (setup_parts txt)"
  have "create_menu s = Inr (Some ?m, s)"
    using create_menu_fits pages by (simp add: pages_ok_def)
  moreover have "in_int (int ?n + int (length (page_head WIFI_SETUP_TITLE ?m)))"
    using pages(2) fit(2) by (simp add: in_int_def setup_parts_def page_head_def content_wifi_body_start_def
        content_wifi_body_tail_def content_head_def content_head_tail_def WIFI_SETUP_TITLE_def
        WIFI_SETUP_PAGE_PATH_def WEB_MENU_LEN_def)
  ultimately have header: "CreateHeader200 (int ?n) WIFI_SETUP_TITLE s = Inr (Some ?h, s)"
    using pages(2) by (intro CreateHeader200_text) (simp_all add: WIFI_SETUP_TITLE_def)
  have n: "length content_wifi_body_start + length txt + length content_wifi_body_tail = ?n"
    by (simp add: setup_parts_def)
  have "sock_live s c (length (concat (?h # setup_parts txt)) + 0)" using sock(2) by simp
  from bs.send_parts_whole [OF sock(1) this, of 0] obtain s2 where s2:
    "bs.send_parts c (?h # setup_parts txt) 0 s = Inr (0, s2)"
    "wire s2 c = wire s c @ ?h @ concat (setup_parts txt)" by auto
  have nil: "bs.send_parts c [] = ret" and cons: "bs.send_parts c (b # bs) = (\<lambda>r. bnd (sendall c b) (bs.send_parts c bs))" for b bs
    by (rule HOL.ext, simp only: bs.send_parts.simps)+
  have parts: "bs.send_parts c (?h # setup_parts txt) 0 = bnd (sendall c ?h) (\<lambda>rc.
      bnd (sendall c content_wifi_body_start) (\<lambda>rc. bnd (sendall c txt) (\<lambda>rc.
      bnd (sendall c content_wifi_body_tail) ret)))"
    by (simp only: setup_parts_def nil cons)
  have eta: "bnd m ret = m" for m :: "('a portal_scheme, int) prog"
    by (rule HOL.ext) (simp split: sum.split)
  have run: "send_setup_page c (Body cap txt) s = bs.send_parts c (?h # setup_parts txt) 0 s"
    unfolding parts eta send_setup_page_def body_buffer.case n
    using fit(1) header by (simp del: bnd_apply add: bnd_apply [of "CreateHeader200 _ _"])
  have "?h @ concat (setup_parts txt) = http1_1_OK @ ''Content-Length: '' @ dec_nat (length ?content) @ [CR, LF] @
      CONTENT_TYPE @ ?content"
    unfolding header_announces by (simp add: add.commute)
  with run s2 show ?thesis by (intro exI [of _ s2] exI [of _ ?content]) simp
qed

section \<open>What events and pages leave alone\<close>

text \<open>
  A property of the state that no quiet call and none of the fields the handlers and pages
  write can change. Everything that runs between two writes to the store keeps it.
\<close>

definition quiet_frame :: "('z portal_scheme \<Rightarrow> bool) \<Rightarrow> bool" where
  "quiet_frame I \<longleftrightarrow> (\<forall>s. I s \<longrightarrow>
     (\<forall>c. quiet_call c \<longrightarrow> I (s\<lparr>trace := trace s @ [c]\<rparr>)) \<and>
     (\<forall>c b t w. I (s\<lparr>trace := trace s @ [ZsockSend c b], tx := t, wire := w\<rparr>)) \<and>
     (\<forall>x. I (s\<lparr>rx := x\<rparr>)) \<and> (\<forall>x. I (s\<lparr>brk := x\<rparr>)) \<and>
     (\<forall>x. I (s\<lparr>ssid_heap := x\<rparr>)) \<and> (\<forall>x. I (s\<lparr>ssid_head := x\<rparr>)) \<and> (\<forall>x. I (s\<lparr>ssid_tail := x\<rparr>)) \<and>
     (\<forall>x y. I (s\<lparr>ssid_head := x, ssid_tail := y\<rparr>)) \<and>
     (\<forall>x. I (s\<lparr>wifi_connect_status_succeded := x\<rparr>)) \<and> (\<forall>x. I (s\<lparr>done_callback := x\<rparr>)) \<and>
     (\<forall>x. I (s\<lparr>web_connected := x\<rparr>)) \<and> (\<forall>x. I (s\<lparr>content_wifi_body_ssid := x\<rparr>)))"

lemma quiet_frame_call: "quiet_frame I \<Longrightarrow> I s \<Longrightarrow> quiet_call c \<Longrightarrow> I (s\<lparr>trace := trace s @ [c]\<rparr>)"
  by (simp add: quiet_frame_def)

lemma quiet_frame_list: "quiet_frame I \<Longrightarrow> list_frame I"
  by (simp add: list_frame_def quiet_frame_def quiet_call_def)

lemma quiet_frame_sock: "quiet_frame I \<Longrightarrow> sock_frame I"
  by (simp add: sock_frame_def quiet_frame_def)

lemma quiet_frame_fields:
  assumes "quiet_frame I" and "I s"
  shows "I (s\<lparr>wifi_connect_status_succeded := a\<rparr>)" "I (s\<lparr>done_callback := b\<rparr>)" "I (s\<lparr>web_connected := a\<rparr>)"
    "I (s\<lparr>content_wifi_body_ssid := d\<rparr>)" "I (s\<lparr>brk := n\<rparr>)" "I (s\<lparr>rx := e\<rparr>)"
  using assms by (simp_all add: quiet_frame_def)

lemma keeps_quiet_ext0: "quiet_frame I \<Longrightarrow> quiet_call c \<Longrightarrow> keeps I (ext0 c)"
  by (rule keeps_ext0) (rule quiet_frame_call)

lemma keeps_quiet_ext: "quiet_frame I \<Longrightarrow> quiet_call c \<Longrightarrow> keeps I (ext c)"
  by (rule keeps_ext) (rule quiet_frame_call)

lemma keeps_quiet_ext_data: "quiet_frame I \<Longrightarrow> quiet_call c \<Longrightarrow> keeps I (ext_data c)"
  by (rule keeps_ext_data) (rule quiet_frame_call)

lemma keeps_quiet_ext_wait:
  "quiet_frame I \<Longrightarrow> quiet_call c \<Longrightarrow> (\<And>e. keeps I (deliver e)) \<Longrightarrow> keeps I (ext_wait deliver c)"
  by (rule keeps_ext_wait) (rule quiet_frame_call)

lemma keeps_quiet_malloc: "quiet_frame I \<Longrightarrow> keeps I (malloc n)"
  by (rule keeps_malloc) (rule quiet_frame_call, simp_all add: quiet_call_def quiet_frame_fields)

lemmas keeps_quiet = keeps_intros keeps_quiet_ext0 keeps_quiet_ext keeps_quiet_ext_data keeps_quiet_ext_wait
  keeps_quiet_malloc keeps_ssid_init_list keeps_ssid_add_item keeps_sendall keeps_find_wp

lemma keeps_str_of: "keeps I (str_of b)"
  unfolding str_of_def by (intro keeps_intros)

lemma keeps_strcats: "keeps I (strcats n d xs)"
proof (induction xs arbitrary: d)
  case Nil
  show ?case unfolding strcats.simps by (intro keeps_intros)
next
  case (Cons x xs)
  then show ?case unfolding strcats.simps strcat_def by (intro keeps_intros)
qed

lemma keeps_menu_items: "keeps I (menu_items ps len menu)"
proof (induction ps arbitrary: len menu)
  case Nil
  show ?case unfolding menu_items.simps by (intro keeps_intros)
next
  case (Cons wp ps)
  then show ?case unfolding menu_items.simps by (intro keeps_intros keeps_str_of keeps_strcats)
qed

lemma keeps_CreateHeader200: "keeps I (CreateHeader200 n ttl)"
  unfolding CreateHeader200_def create_menu_def strcat_def Let_def
  by (intro keeps_intros keeps_menu_items keeps_strcats)

lemma keeps_scan_names: "keeps I (scan_names n p)"
  by (induction n arbitrary: p) (auto intro!: keeps_intros keeps_load_item keeps_str_of)

lemma keeps_scan_options: "keeps I (scan_options k cap xs buf)"
  by (induction xs arbitrary: buf) (auto intro!: keeps_intros simp: strcat_def)

lemma keeps_quiet_scan_done: "quiet_frame I \<Longrightarrow> keeps I (client_scan_done p)"
  unfolding client_scan_done_def Let_def
  by (intro keeps_quiet keeps_scan_names keeps_scan_options keeps_modify)
    (simp_all add: quiet_frame_fields quiet_call_def)

lemma keeps_quiet_cb: "quiet_frame I \<Longrightarrow> keeps I (portal_cb f p)"
  unfolding portal_cb_def by (intro keeps_quiet keeps_quiet_scan_done) (simp_all add: quiet_call_def)

lemma keeps_quiet_ap_disable: "quiet_frame I \<Longrightarrow> keeps I ob_wifi_ap_disable"
  unfolding ob_wifi_ap_disable_def by (intro keeps_quiet) (simp_all add: quiet_call_def)

lemma keeps_quiet_web_deliver:
  assumes I: "quiet_frame I" and cb: "\<And>f p. keeps I (run_cb f p)"
  shows "keeps I (web_deliver run_cb e)"
proof -
  note q = quiet_frame_fields [OF I] I
  have w: "keeps I (wifi_deliver run_cb e)"
    unfolding wifi_deliver_def ethernet_mgmt_event_handler_def ipv4_mgmt_event_handler_def
      ob_wifi_mgmt_event_handler_def handle_wifi_scan_result_def handle_wifi_scan_done_def ob_wifi_HasAP_def
    by (cases e) (auto intro!: keeps_quiet keeps_modify cb keeps_quiet_ap_disable quiet_frame_list
        simp: q quiet_call_def)
  have "keeps I (ob_web_event_handler e)"
    unfolding ob_web_event_handler_def
    by (intro keeps_quiet keeps_modify) (simp_all add: q quiet_call_def)
  with w show ?thesis unfolding web_deliver_def by (intro keeps_thn)
qed

lemma keeps_quiet_deliver: "quiet_frame I \<Longrightarrow> keeps I (portal_deliver e)"
  unfolding portal_deliver_def by (intro keeps_quiet_web_deliver keeps_quiet_cb)

lemma keeps_quiet_display: "quiet_frame I \<Longrightarrow> keeps I (display_wifi_setup_page portal_deliver c)"
proof -
  assume I: "quiet_frame I"
  note q = quiet_frame_fields [OF I] I
  have "keeps I (send_setup_page c body)" for body
    unfolding send_setup_page_def
    by (cases body) (auto intro!: keeps_quiet keeps_CreateHeader200 quiet_frame_sock I)
  then show ?thesis
    unfolding display_wifi_setup_page_def set_scan_done_callback_def ob_wifi_scan_def
    by (intro keeps_quiet keeps_modify keeps_quiet_deliver quiet_frame_list) (simp_all add: q quiet_call_def)
qed

lemma keeps_quiet_get: "quiet_frame I \<Longrightarrow> keeps I (portal_get f c p)"
  unfolding portal_get_def by (intro keeps_quiet keeps_quiet_display) (simp_all add: quiet_call_def)

lemma keeps_quiet_home: "quiet_frame I \<Longrightarrow> keeps I (ob_web_server_display_home portal_get c)"
  unfolding ob_web_server_display_home_def display_404_def
  by (auto intro!: keeps_quiet keeps_quiet_get quiet_frame_sock)

section \<open>The store through a page and a restart\<close>

text \<open>What the store holds, as far as the calls made tell.\<close>

definition store_is :: "(string \<rightharpoonup> string) \<Rightarrow> 'z kern_scheme \<Rightarrow> 'z kern_scheme \<Rightarrow> bool" where
  "store_is m s0 s \<longleftrightarrow> reply s = reply s0 \<and> flash0 s = flash0 s0 \<and>
     store_at (reply s0) (flash0 s0) (trace s) = m"

lemma store_isD: "store_is m s0 s \<Longrightarrow> store s = m"
  by (simp add: store_is_def)

lemma store_at_two: "store_at r m (tr @ [c, d]) = store_step r (tr @ [c]) d (store_step r tr c (store_at r m tr))"
  using store_at_snoc [of r m "tr @ [c]" d] by simp

lemma quiet_send [simp]: "quiet_call (ZsockSend c b)"
  by (simp add: quiet_call_def)

lemma quiet_frame_store: "quiet_frame (store_is m s0)"
  by (simp add: quiet_frame_def store_is_def)

lemma quiet_frame_trace: "quiet_frame (\<lambda>s. c \<in> set (trace s))"
  by (simp add: quiet_frame_def)

lemma quiet_frame_reply: "quiet_frame (\<lambda>s. reply s = r)"
  by (simp add: quiet_frame_def)

lemma keeps_store_reboot: "keeps (store_is m s0) (ob_reboot portal_deliver)"
proof -
  let ?I = "store_is m s0"
  note q = quiet_frame_store [of m s0]
  have "keeps ?I ota_reboot"
    unfolding ota_reboot_def by (intro keeps_quiet q) (simp_all add: quiet_call_def)
  moreover have "keeps ?I stop_web_server"
    unfolding stop_web_server_def
    by (intro keeps_quiet q keeps_modify) (simp_all add: store_is_def quiet_call_def)
  moreover have "keeps ?I (ob_wifi_deinit portal_deliver)"
    unfolding ob_wifi_deinit_def ob_wifi_HasAP_def
    by (intro keeps_quiet q keeps_modify keeps_quiet_ap_disable keeps_quiet_deliver)
      (simp_all add: store_is_def quiet_call_def)
  ultimately show ?thesis
    unfolding ob_reboot_def by (intro keeps_quiet q) (simp_all add: quiet_call_def)
qed

section \<open>A posted network\<close>

lemma save_attrib_apply:
  assumes "valuebuffer (wifi_setup_attrib s ! i) = b" and "terminated b"
    and "reply s (trace s) (SettingsSaveOne k (cstr b)) = Some r"
  shows "save_attrib k i s = Inr (r, s\<lparr>trace := trace s @ [SettingsSaveOne k (cstr b)]\<rparr>)"
proof -
  have "take (length (cstr b)) b = cstr b" unfolding cstr_def by (rule takeWhile_eq_take [symmetric])
  with assms show ?thesis by (simp add: save_attrib_def ob_nvs_data_write_def)
qed

text \<open>
  Once the form is parsed, the two values are in the store, whatever the page sent back and
  the restart do; and the restart is reached, or the device waits in the page.
\<close>

lemma post_page_stores:
  fixes s s1 :: "'z portal_scheme"
  assumes post: "ob_ws_process_post c (wifi_setup_attrib s) p s = Inr ((0, ap), s1)"
    and ok: "\<And>tr k v. reply s1 tr (SettingsSaveOne k v) = Some 0"
    and ap: "terminated (valuebuffer (ap ! 0))" "terminated (valuebuffer (ap ! 1))"
  shows "store_is ((store s1)(NVS_SETTINGS_ID_WIFI_SSID \<mapsto> attr_value (ap ! 0),
      NVS_SETTINGS_ID_WIFI_PSK \<mapsto> attr_value (ap ! 1))) s1
    (final (post_wifi_setup_page portal_get portal_deliver c p s))"
proof -
  let ?X = "attr_value (ap ! 0)" and ?Y = "attr_value (ap ! 1)"
  define s2 where "s2 = s1\<lparr>wifi_setup_attrib := ap\<rparr>"
  define s3 where "s3 = s2\<lparr>trace := trace s2 @ [SettingsSaveOne NVS_SETTINGS_ID_WIFI_SSID ?X]\<rparr>"
  define s4 where "s4 = s3\<lparr>trace := trace s3 @ [SettingsSaveOne NVS_SETTINGS_ID_WIFI_PSK ?Y]\<rparr>"
  define m where "m = (store s1)(NVS_SETTINGS_ID_WIFI_SSID \<mapsto> ?X, NVS_SETTINGS_ID_WIFI_PSK \<mapsto> ?Y)"
  define rest :: "('z portal_scheme, int) prog" where "rest = bnd (ob_web_server_display_home portal_get c)
    (\<lambda>_. thn (ob_reboot portal_deliver) (ret (0 :: int)))"
  have w1: "save_attrib NVS_SETTINGS_ID_WIFI_SSID WIFI_SETUP_ATTRIB_SSID s2 = Inr (0, s3)"
    using save_attrib_apply [of s2 WIFI_SETUP_ATTRIB_SSID "valuebuffer (ap ! 0)" NVS_SETTINGS_ID_WIFI_SSID 0]
      ok ap(1) by (simp add: WIFI_SETUP_ATTRIB_SSID_def attr_value_def s2_def s3_def)
  have w2: "save_attrib NVS_SETTINGS_ID_WIFI_PSK WIFI_SETUP_ATTRIB_PASSWORD s3 = Inr (0, s4)"
    using save_attrib_apply [of s3 WIFI_SETUP_ATTRIB_PASSWORD "valuebuffer (ap ! 1)" NVS_SETTINGS_ID_WIFI_PSK 0]
      ok ap(2) by (simp add: WIFI_SETUP_ATTRIB_PASSWORD_def attr_value_def s2_def s3_def s4_def)
  have m: "store_is m s1 s4"
    using ok by (simp add: store_is_def store_at_two store_step_def m_def s2_def s3_def s4_def)
  have "keeps (store_is m s1) rest"
    unfolding rest_def by (intro keeps_intros keeps_store_reboot keeps_quiet_home quiet_frame_store)
  then have "store_is m s1 (final (rest s4))" using m by (rule keepsD)
  moreover have "post_wifi_setup_page portal_get portal_deliver c p s = rest s4"
    using post w1 w2 by (simp add: post_wifi_setup_page_def rest_def s2_def)
  ultimately show ?thesis by (simp add: m_def)
qed

text \<open>
  The next start-up: whatever the platform answers then, if the store still holds what the
  calls before left in it, the network asked for is the one that was posted.
\<close>

definition booted :: "(string \<rightharpoonup> string) \<Rightarrow> 'z wifi_scheme \<Rightarrow> bool" where
  "booted m t \<longleftrightarrow> trace t = [] \<and> flash0 t = m \<and> nvs_env_ok t \<and>
     length (gSSID t) = WIFI_SSID_MAX_LEN (cfg t) \<and> length (gPSK t) = WIFI_PSK_MAX_LEN (cfg t)"

lemma booted_credentials:
  assumes "booted m t" and "m NVS_SETTINGS_ID_WIFI_SSID = Some x" "m NVS_SETTINGS_ID_WIFI_PSK = Some y"
    and "x \<noteq> []" "y \<noteq> []" "length x \<le> WIFI_SSID_MAX_LEN (cfg t)" "length y \<le> WIFI_PSK_MAX_LEN (cfg t)"
  shows "has_credentials x y t"
  using assms by (simp add: booted_def has_credentials_def)

lemma portal_boot_returns:
  assumes "boots_fine t"
  obtains r t' where "ob_wifi_init portal_deliver t = Inr (r, t')"
  using boot_returns [OF assms] unfolding portal_deliver_def .

lemma boot_asks_for_stored:
  fixes t :: "'z portal_scheme"
  assumes "boots_fine t" and "has_credentials x y t"
    and "\<And>tr. reply t tr (NetIfGet wifi_sta) = Some iface" "iface \<noteq> 0"
  shows "\<exists>r t'. ob_wifi_init portal_deliver t = Inr (r, t') \<and>
    NetMgmt (NET_REQUEST_WIFI_CONNECT x y) iface \<in> set (trace t')"
proof -
  obtain r t' where run: "ob_wifi_init portal_deliver t = Inr (r, t')" by (rule portal_boot_returns [OF assms(1)])
  from init_connects_stored [OF this assms(2-4) keeps_quiet_deliver [OF quiet_frame_trace]] run show ?thesis by blast
qed

text \<open>The form, the store, the restart and the next start-up.\<close>

lemma terminated_assigned: "terminated (v @ NUL # b)"
  by (simp add: terminated_def)

lemma two_fields:
  assumes "attrs_ok ap" and "map pa_name ap = [''ssid'', ''password'']"
    and "nul_free x" "nul_free y"
  defines "ap' \<equiv> fold assign [(''ssid'', x), (''password'', y)] ap"
  shows "attr_value (ap' ! 0) = x" "attr_value (ap' ! 1) = y"
    "terminated (valuebuffer (ap' ! 0))" "terminated (valuebuffer (ap' ! 1))"
proof -
  obtain a b where ap: "ap = [a, b]" "pa_name a = ''ssid''" "pa_name b = ''password''"
    using assms(2) by auto
  have "ap' = [a\<lparr>valuebuffer := x @ NUL # drop (length x + 1) (valuebuffer a)\<rparr>,
      b\<lparr>valuebuffer := y @ NUL # drop (length y + 1) (valuebuffer b)\<rparr>]"
    by (simp add: ap'_def ap assign_def)
  then show "attr_value (ap' ! 0) = x" "attr_value (ap' ! 1) = y"
    "terminated (valuebuffer (ap' ! 0))" "terminated (valuebuffer (ap' ! 1))"
    using assms(3,4) by (simp_all add: attr_value_def terminated_assigned)
qed

text \<open>
  A value the form can carry and the array can hold, and one that is also read back at the next
  start-up: an empty value is no value then.
\<close>

definition form_value :: "nat \<Rightarrow> string \<Rightarrow> bool" where
  "form_value n x \<longleftrightarrow> CR \<notin> set x \<and> LF \<notin> set x \<and> nul_free x \<and> length x \<le> n \<and> length x < VALUE_BUFFER_SIZE"

definition good_credential :: "nat \<Rightarrow> string \<Rightarrow> bool" where
  "good_credential n x \<longleftrightarrow> x \<noteq> [] \<and> form_value n x"

lemma good_credentialD: "good_credential n x \<Longrightarrow> x \<noteq> []" "good_credential n x \<Longrightarrow> form_value n x"
  by (simp_all add: good_credential_def)

definition setup_form :: "string \<Rightarrow> string \<Rightarrow> string" where
  "setup_form x y = form_text [(''ssid'', x), (''password'', y)]"

definition setup_attribs_ok :: "'z portal_scheme \<Rightarrow> bool" where
  "setup_attribs_ok s \<longleftrightarrow> attrs_ok (wifi_setup_attrib s) \<and>
     map pa_name (wifi_setup_attrib s) = [''ssid'', ''password'']"

text \<open>What is in the store once a form has been posted.\<close>

lemma posted_store_is:
  assumes wp: "load_wp p s = Inr (wp, s)" "content_length wp = int (length (setup_form x y))"
    and rx: "rx s c = map RxByte (setup_form x y) @ es"
    and ap: "setup_attribs_ok s" and x: "form_value n x" and y: "form_value n' y"
    and saves: "\<And>tr k v. reply s tr (SettingsSaveOne k v) = Some 0"
  shows "store_is ((store s)(NVS_SETTINGS_ID_WIFI_SSID \<mapsto> x, NVS_SETTINGS_ID_WIFI_PSK \<mapsto> y)) s
    (final (post_wifi_setup_page portal_get portal_deliver c p s))"
proof -
  let ?fs = "[(''ssid'', x), (''password'', y)]"
  let ?ap = "fold assign ?fs (wifi_setup_attrib s)"
  have names: "map pa_name (wifi_setup_attrib s) = [''ssid'', ''password'']" "attrs_ok (wifi_setup_attrib s)"
    using ap by (simp_all add: setup_attribs_ok_def)
  then have "pa_name ` set (wifi_setup_attrib s) = {''ssid'', ''password''}"
    by (metis list.set_map list.simps(15) list.set(1))
  then have good: "\<forall>f \<in> set ?fs. good_field (wifi_setup_attrib s) f"
    using x y by (simp add: good_field_def form_value_def)
  have nul: "nul_free x" "nul_free y" using x y by (simp_all add: form_value_def)
  note two = two_fields [OF names(2,1) nul]
  show ?thesis
    using post_page_stores [OF process_post_form [OF wp [unfolded setup_form_def] rx [unfolded setup_form_def]
          names(2) good] _ two(3,4)] saves two(1,2) by (simp add: store_is_def)
qed

lemmas posted_store = posted_store_is [THEN store_isD]

end
