(* ===== verification/Ob_Provision.thy ===== *)
theory Ob_Provision
  imports Ob_Portal_Facts
begin

text \<open>
  The server and the portal together: what the handler of a connection does when the pages are
  those of the portal. A page leaves the connection tables as they are, so a handler that
  returns has given its slot back; and a POST of the setup form, read from the bytes of the
  connection, ends in the store.
\<close>

section \<open>What a page leaves alone\<close>

definition stop_frame :: "('z portal_scheme \<Rightarrow> bool) \<Rightarrow> bool" where
  "stop_frame I \<longleftrightarrow> quiet_frame I \<and> (\<forall>s. I s \<longrightarrow>
     I (s\<lparr>want_to_quit := True\<rparr>) \<and> I (s\<lparr>mWebServerRunning := False\<rparr>) \<and> I (s\<lparr>wifi_inited := False\<rparr>) \<and>
     (\<forall>k v. I (s\<lparr>trace := trace s @ [SettingsSaveOne k v]\<rparr>)))"

definition page_frame :: "('z portal_scheme \<Rightarrow> bool) \<Rightarrow> bool" where
  "page_frame I \<longleftrightarrow> stop_frame I \<and> (\<forall>s ap. I s \<longrightarrow> I (s\<lparr>wifi_setup_attrib := ap\<rparr>))"

lemma stop_frame_quiet: "stop_frame I \<Longrightarrow> quiet_frame I"
  by (simp add: stop_frame_def)

lemma page_frame_stop: "page_frame I \<Longrightarrow> stop_frame I"
  by (simp add: page_frame_def)

lemma page_frame_quiet: "page_frame I \<Longrightarrow> quiet_frame I"
  by (simp add: page_frame_stop stop_frame_quiet)

lemma keeps_stop_reboot: "stop_frame I \<Longrightarrow> keeps I (ob_reboot portal_deliver)"
proof -
  assume f: "stop_frame I"
  note q = stop_frame_quiet [OF f]
  have "keeps I ota_reboot"
    unfolding ota_reboot_def by (intro keeps_quiet q) (simp_all add: quiet_call_def)
  moreover have "keeps I stop_web_server"
    unfolding stop_web_server_def
    by (intro keeps_quiet q keeps_modify) (use f in \<open>simp_all add: stop_frame_def quiet_call_def\<close>)
  moreover have "keeps I (ob_wifi_deinit portal_deliver)"
    unfolding ob_wifi_deinit_def ob_wifi_HasAP_def
    by (intro keeps_quiet q keeps_modify keeps_quiet_ap_disable keeps_quiet_deliver)
      (use f in \<open>simp_all add: stop_frame_def quiet_call_def\<close>)
  ultimately show ?thesis
    unfolding ob_reboot_def by (intro keeps_quiet q) (simp_all add: quiet_call_def)
qed

lemma keeps_stop_save: "stop_frame I \<Longrightarrow> keeps I (save_attrib k i)"
  unfolding save_attrib_def ob_nvs_data_write_def
  by (intro keeps_intros keeps_str_of keeps_ext) (simp add: stop_frame_def)

lemma keeps_quiet_process: "quiet_frame I \<Longrightarrow> keeps I (ob_ws_process_post c ap p)"
  using quiet_frame_fields(6)
  by (auto simp: keeps_def ob_ws_process_post_def load_wp_def set_rx_def split: post_outcome.split)

text \<open>What the handler of a post does once the form has been read.\<close>

definition save_and_restart :: "int \<Rightarrow> int \<Rightarrow> ('z portal_scheme, int) prog" where
  "save_and_restart c rc =
     bnd (if rc \<ge> 0 then
            bnd (save_attrib NVS_SETTINGS_ID_WIFI_SSID WIFI_SETUP_ATTRIB_SSID) (\<lambda>rc.
                 save_attrib NVS_SETTINGS_ID_WIFI_PSK WIFI_SETUP_ATTRIB_PASSWORD)
          else ret rc) (\<lambda>rc.
     bnd (ob_web_server_display_home portal_get c) (\<lambda>_.
     if rc \<ge> 0 then thn (ob_reboot portal_deliver) (ret rc) else ret rc))"

lemma post_page_parts:
  "post_wifi_setup_page portal_get portal_deliver c p =
   bnd (gets wifi_setup_attrib) (\<lambda>ap. bnd (ob_ws_process_post c ap p) (\<lambda>(rc, ap').
     thn (modify (\<lambda>s. s\<lparr>wifi_setup_attrib := ap'\<rparr>)) (save_and_restart c rc)))"
  by (simp add: post_wifi_setup_page_def save_and_restart_def)

lemma keeps_save_and_restart: "stop_frame I \<Longrightarrow> keeps I (save_and_restart c rc)"
  unfolding save_and_restart_def
  by (intro keeps_intros keeps_stop_save keeps_stop_reboot keeps_quiet_home stop_frame_quiet)

lemma keeps_page:
  assumes f: "page_frame I"
  shows "keeps I (portal_page g c p)"
proof -
  note q = page_frame_quiet [OF f]
  have "keeps I (post_wifi_setup_page portal_get portal_deliver c p)"
    unfolding post_page_parts
    by (intro keeps_intros keeps_modify keeps_quiet_process keeps_save_and_restart page_frame_stop f q)
      (use f in \<open>simp add: page_frame_def\<close>)
  then show ?thesis unfolding portal_page_def by (intro keeps_if keeps_quiet_get q)
qed

lemma page_frame_slots: "page_frame (\<lambda>t. length (accepted f t) = n)"
  by (cases f) (simp_all add: page_frame_def stop_frame_def quiet_frame_def accepted_def)

text \<open>A handler that returns has closed its connection and given its slot back.\<close>

lemma portal_handler_frees_slot:
  assumes "client_conn_handler portal_page lf cf slot s = Inr (u, s')" and "slot < length (accepted lf s)"
  shows "accepted lf s' ! slot = - 1 \<and> (\<exists>pre. trace s' = pre @ [ZsockClose (accepted lf s ! slot)])"
  by (rule handler_frees_slot [OF assms keeps_page [OF page_frame_slots]])

section \<open>From the bytes of a connection to the store\<close>

lemma final_thn: "I (final (m s)) \<Longrightarrow> keeps I k \<Longrightarrow> I (final (thn m k s))"
  by (auto simp: keeps_def split: sum.split)

lemma final_bnd: "I (final (m s)) \<Longrightarrow> (\<And>a. keeps I (k a)) \<Longrightarrow> I (final (bnd m k s))"
  by (auto simp: keeps_def split: sum.split)

lemma keeps_store_hang_up: "keeps (store_is m s0) (hang_up c lf cf slot :: ('z portal_scheme, unit) prog)"
  unfolding hang_up_def set_accepted_def set_tid_def
  by (intro keeps_intros keeps_ext0 keeps_modify)
    (auto simp: store_is_def store_step_def split: family.split)

lemma keeps_store_500: "keeps (store_is m s0) (cond b (display_500 c) :: ('z portal_scheme, unit) prog)"
  unfolding display_500_def by (intro keeps_quiet quiet_frame_sock quiet_frame_store)

lemma portal_page_post: "portal_page ''post_wifi_setup_page'' c p = post_wifi_setup_page portal_get portal_deliver c p"
  by (simp add: portal_page_def)

definition setup_request :: "string list \<Rightarrow> string list \<Rightarrow> string \<Rightarrow> string \<Rightarrow> string" where
  "setup_request hs1 hs2 x y =
     http_request POST WIFI_SETUP_PAGE_PATH
       (hs1 @ (length_name @ dec_nat (length (setup_form x y))) # hs2) @ setup_form x y"

text \<open>Header lines among which the matcher for the length does not find its name too early or again.\<close>

definition setup_headers_ok :: "string list \<Rightarrow> string list \<Rightarrow> bool" where
  "setup_headers_ok hs1 hs2 \<longleftrightarrow> (\<forall>l \<in> set (hs1 @ hs2). plain_line l) \<and>
     \<not> subseq length_name (http_lines (request_line POST WIFI_SETUP_PAGE_PATH # hs1)) \<and>
     \<not> subseq length_name (LF # http_lines hs2 @ crlf)"

lemma good_setup_path: "good_path WIFI_SETUP_PAGE_PATH"
  by (simp add: good_path_def WIFI_SETUP_PAGE_PATH_def)

lemma setup_form_length:
  assumes "form_value n x" and "form_value n' y"
  shows "in_int (int (length (setup_form x y)))"
  using assms by (simp add: setup_form_def form_text_def form_line_def crlf_def in_int_def form_value_def
      VALUE_BUFFER_SIZE_def)

lemma request_stores:
  assumes slot: "accepted lf s ! slot = c" "slot < length (accepted lf s)"
    and req: "rx s c = map RxByte (setup_request hs1 hs2 x y) @ es" "setup_headers_ok hs1 hs2"
    and page: "pages_ok s" "first_index (answers WIFI_SETUP_PAGE_PATH) (web_pages s) = Some i"
      "post_callback (web_pages s ! i) = Some ''post_wifi_setup_page''"
    and ap: "setup_attribs_ok s" and x: "form_value n x" and y: "form_value n' y"
    and saves: "\<And>tr k v. reply s tr (SettingsSaveOne k v) = Some 0"
  shows "store (final (client_conn_handler portal_page lf cf slot s)) =
    (store s)(NVS_SETTINGS_ID_WIFI_SSID \<mapsto> x, NVS_SETTINGS_ID_WIFI_PSK \<mapsto> y)"
proof -
  let ?n = "length (setup_form x y)"
  let ?p = "length (web_pages s) - i"
  define wp where "wp = (web_pages s ! i)\<lparr>content_length := int ?n\<rparr>"
  define s2 where "s2 = s\<lparr>rx := (rx s)(c := map RxByte (setup_form x y) @ es), web_pages := (web_pages s)[i := wp]\<rparr>"
  let ?m = "(store s2)(NVS_SETTINGS_ID_WIFI_SSID \<mapsto> x, NVS_SETTINGS_ID_WIFI_PSK \<mapsto> y)"
  have i: "i < length (web_pages s)" using page(2) by (rule first_index_bound)
  have rx: "rx s c = map RxByte (http_request POST WIFI_SETUP_PAGE_PATH (hs1 @ (length_name @ dec_nat ?n) # hs2)) @
      map RxByte (setup_form x y) @ es"
    using req(1) by (simp add: setup_request_def)
  have run: "client_conn_handler portal_page lf cf slot s =
      thn (run_post portal_page c ?p (web_pages s ! i)) (hang_up c lf cf slot) s2"
    using post_request_served [OF slot rx good_setup_path _ setup_form_length [OF x y] _ _ page(1,2)] req(2)
    by (simp add: setup_headers_ok_def s2_def wp_def)
  have "load_wp ?p s2 = Inr (wp, s2)"
    using load_wp_at [of i s2] i by (simp add: s2_def)
  then have "store_is ?m s2 (final (post_wifi_setup_page portal_get portal_deliver c ?p s2))"
    by (rule posted_store_is [OF _ _ _ _ x y])
      (use ap saves in \<open>simp_all add: wp_def s2_def setup_attribs_ok_def\<close>)
  then have "store_is ?m s2 (final (run_post portal_page c ?p (web_pages s ! i) s2))"
    unfolding run_post_def page(3) option.case portal_page_post
    by (rule final_bnd) (rule keeps_store_500)
  then have "store_is ?m s2 (final (client_conn_handler portal_page lf cf slot s))"
    unfolding run by (rule final_thn) (rule keeps_store_hang_up)
  then show ?thesis by (simp add: store_is_def s2_def)
qed

section \<open>The wifi with the handlers of the portal\<close>

lemma quiet_frame_connects: "quiet_frame (\<lambda>s. connects s \<le> k)"
  by (auto simp: quiet_frame_def connects_def is_connect_def quiet_call_def split: call.split net_call.split
      net_request.split)

lemma asks_portal_deliver: "asks 0 (portal_deliver e)"
  by (auto simp: asks_0 intro: keeps_quiet_deliver quiet_frame_connects)

lemma quiet_frame_mHasAp: "quiet_frame mHasAp"
  by (simp add: quiet_frame_def)

lemma portal_reach_mHasAp: "reach (wifi_do portal_cb) s0 s \<Longrightarrow> mHasAp s0 \<Longrightarrow> mHasAp s"
  by (rule reach_keeps [where I = mHasAp]) (auto intro: keeps_mHasAp_do keeps_quiet_cb quiet_frame_mHasAp)

lemma portal_connect_success:
  assumes "ob_wifi_connect portal_deliver s = Inr (0, s')"
  shows "\<exists>iface tr pre. iface \<noteq> 0 \<and> reply s tr (NetMgmt (connect_request s) iface) = Some 0 \<and>
    trace s' = pre @ [NetIfSetDefault iface] \<and> wifi_connect_status_succeded s'"
  by (rule connect_success [OF keeps_quiet_deliver [OF quiet_frame_reply] assms])

text \<open>A start-up on a store that lacks a name or a key; the one that follows a form without a
  key, and the one that follows a factory reset.\<close>

lemma boot_without_credentials:
  fixes t :: "'z portal_scheme"
  assumes boot: "booted m t" "boots_fine t" "\<not> CONFIG_ONBOARDING_PRECONFIG_WIFI (cfg t)"
    and none: "no_value (m NVS_SETTINGS_ID_WIFI_SSID) \<or> no_value (m NVS_SETTINGS_ID_WIFI_PSK)"
  shows "\<exists>t'. ob_wifi_init portal_deliver t = Inr (0, t') \<and> connects t' = 0 \<and>
    (CONFIG_ONBOARDING_WIFI_AP (cfg t) \<longrightarrow> KWorkSchedule ''start_ap_work'' 500 \<in> set (trace t'))"
proof -
  obtain r t' where run: "ob_wifi_init portal_deliver t = Inr (r, t')" by (rule portal_boot_returns [OF boot(2)])
  have "no_credentials t" "connects t = 0"
    using boot none by (auto simp: booted_def no_credentials_def connects_def)
  with init_without_credentials [OF run _ asks_portal_deliver keeps_quiet_deliver [OF quiet_frame_trace]] run
  show ?thesis by auto
qed

lemma reset_then_boot:
  fixes t :: "'z portal_scheme"
  assumes env: "settings_ok s" "\<And>tr k. reply s tr (SettingsDelete k) = Some 0"
    and boot: "booted (store (final (ob_nvs_data_factory_reset s))) t" "boots_fine t"
      "\<not> CONFIG_ONBOARDING_PRECONFIG_WIFI (cfg t)"
  shows "(\<exists>s'. ob_nvs_data_factory_reset s = Inr ((), s') \<and> store s' = Map.empty) \<and>
    (\<exists>t'. ob_wifi_init portal_deliver t = Inr (0, t') \<and> connects t' = 0 \<and>
      (CONFIG_ONBOARDING_WIFI_AP (cfg t) \<longrightarrow> KWorkSchedule ''start_ap_work'' 500 \<in> set (trace t')))"
proof -
  obtain s' where s': "ob_nvs_data_factory_reset s = Inr ((), s')" "store s' = Map.empty"
    using reset_erases [OF env] by blast
  with boot have "booted Map.empty t" by simp
  from boot_without_credentials [OF this boot(2,3)] s' show ?thesis by (simp add: no_value_def)
qed

section \<open>A page without a post callback\<close>

lemma post_without_callback:
  assumes "accepted lf s ! slot = c" "slot < length (accepted lf s)"
    and "rx s c = map RxByte (http_request POST path (hs1 @ (length_name @ dec_nat n) # hs2)) @ es"
      "good_path path" "\<forall>l \<in> set (hs1 @ hs2). plain_line l" "in_int (int n)"
      "\<not> subseq length_name (http_lines (request_line POST path # hs1))"
      "\<not> subseq length_name (LF # http_lines hs2 @ crlf)"
    and "pages_ok s" "first_index (answers path) (web_pages s) = Some i"
    and "post_callback (web_pages s ! i) = None"
  shows "\<exists>s'. client_conn_handler portal_page lf cf slot s = Inl (NullCall, s') \<and> accepted lf s' = accepted lf s"
  unfolding post_request_served [OF assms(1-10), of portal_page cf]
  by (simp add: run_post_def assms(11) accepted_def split: family.split)

end
