(* ===== verification/Ob_Server.thy ===== *)
theory Ob_Server
  imports Ob_Provision "HOL-Library.Multiset"
begin

text \<open>
  The threads of src/ob_web_server.c together: the listener and the handlers of the
  connections. A handler is cut where it lets others run, after the request has been read and
  before and after its page: each part is a step, and the steps of different threads follow each
  other in any order. The theory says what the table of connections means while no socket fails,
  and what happens to it when one does.
\<close>

section \<open>A handler in parts\<close>

text \<open>The handler up to its switch. A socket error frees the slot at once.\<close>

definition conn_read :: "family \<Rightarrow> nat \<Rightarrow> ('z web_scheme, int \<times> req \<times> bool) prog" where
  "conn_read lf slot =
     bnd (gets (\<lambda>s. accepted lf s ! slot)) (\<lambda>client.
     bnd (gets (\<lambda>s. rx s client)) (\<lambda>es.
     case scan_request es req_init of
       ScanHalt h es' \<Rightarrow> thn (set_rx client es') (halted h)
     | Scanned r failed es' \<Rightarrow>
         thn (set_rx client es')
         (thn (cond failed (set_accepted lf slot (- 1))) (ret (client, r, failed)))))"

text \<open>The parts one after the other are the handler.\<close>

lemma handler_in_parts:
  "client_conn_handler run_page lf cf slot s =
   bnd (conn_read lf slot) (\<lambda>(client, r, _). thn (serve run_page client r) (hang_up client lf cf slot)) s"
  by (cases "scan_request (rx s (accepted lf s ! slot)) req_init")
    (simp_all add: client_conn_handler_def conn_read_def hang_up_def set_rx_def set_accepted_def split: sum.split)

datatype phase =
    Reading
  | Serving int req
  | Closing int

text \<open>A handler thread: its listener, the family of its peer, its slot, and what is left of it.\<close>

type_synonym handler = "family \<times> family \<times> nat \<times> phase"

definition slot_of :: "handler \<Rightarrow> family \<times> nat" where
  "slot_of th = (case th of (lf, cf, i, ph) \<Rightarrow> (lf, i))"

lemma slot_of_simps [simp]: "slot_of (lf, cf, i, ph) = (lf, i)"
  by (simp add: slot_of_def)

definition client_is :: "phase \<Rightarrow> int \<Rightarrow> bool" where
  "client_is ph v \<longleftrightarrow> (case ph of Reading \<Rightarrow> True | Serving c r \<Rightarrow> c = v | Closing c \<Rightarrow> c = v)"

text \<open>The threads some calls have created, for the listener that made them.\<close>

definition created :: "family \<Rightarrow> call list \<Rightarrow> handler list" where
  "created f cs = concat (map (\<lambda>c. case c of
     Kernel (ThreadCreate a i) \<Rightarrow> [(f, if a = af AF_INET then AF_INET else AF_INET6, i, Reading)]
   | _ \<Rightarrow> []) cs)"

lemma created_simps [simp]:
  "created f [] = []"
  "created f (ZsockAccept x # cs) = created f cs" "created f (ZsockClose x # cs) = created f cs"
  "created f (KThreadNameSet i # cs) = created f cs"
  "created f (KThreadCreate a i # cs) = (f, if a = af AF_INET then AF_INET else AF_INET6, i, Reading) # created f cs"
  by (simp_all add: created_def)

section \<open>Steps\<close>

text \<open>
  A step of a listener that has not been aborted, of a handler, or of \<open>stop_web_server\<close>;
  \<open>errs\<close> says whether a socket may fail under a handler that reads.
\<close>

definition listener_thread :: "family \<Rightarrow> thread" where
  "listener_thread f = (case f of AF_INET \<Rightarrow> tcp4_thread_id | AF_INET6 \<Rightarrow> tcp6_thread_id)"

definition listener_alive :: "family \<Rightarrow> 'z kern_scheme \<Rightarrow> bool" where
  "listener_alive f s \<longleftrightarrow> KThreadAbort (listener_thread f) \<notin> set (trace s)"

inductive srv_step ::
  "'z web_scheme page_runner \<Rightarrow> bool \<Rightarrow> 'z web_scheme \<times> handler list \<Rightarrow> 'z web_scheme \<times> handler list \<Rightarrow> bool"
  for run_page errs where
  accept: "listener_alive f s \<Longrightarrow> process_tcp f s = Inr (r, s') \<Longrightarrow>
    srv_step run_page errs (s, ths) (s', ths @ created f (drop (length (trace s)) (trace s')))"
| read: "conn_read lf i s = Inr ((c, r, failed), s') \<Longrightarrow> failed \<longrightarrow> errs \<Longrightarrow>
    srv_step run_page errs (s, xs @ (lf, cf, i, Reading) # ys) (s', xs @ (lf, cf, i, Serving c r) # ys)"
| serve: "serve run_page c r s = Inr ((), s') \<Longrightarrow>
    srv_step run_page errs (s, xs @ (lf, cf, i, Serving c r) # ys) (s', xs @ (lf, cf, i, Closing c) # ys)"
| close: "hang_up c lf cf i s = Inr ((), s') \<Longrightarrow>
    srv_step run_page errs (s, xs @ (lf, cf, i, Closing c) # ys) (s', xs @ ys)"
| stop: "stop_web_server s = Inr (r, s') \<Longrightarrow> srv_step run_page errs (s, ths) (s', ths)"

inductive srv_reach ::
  "'z web_scheme page_runner \<Rightarrow> bool \<Rightarrow> 'z web_scheme \<Rightarrow> 'z web_scheme \<times> handler list \<Rightarrow> bool"
  for run_page errs s0 where
  start: "srv_reach run_page errs s0 (s0, [])"
| step: "srv_reach run_page errs s0 st \<Longrightarrow> srv_step run_page errs st st' \<Longrightarrow> srv_reach run_page errs s0 st'"

section \<open>The handler and its steps\<close>

lemma one_thread_reads:
  "srv_step run_page True (s, [(lf, cf, i, Reading)]) (s', [(lf, cf, i, Serving c r)]) \<longleftrightarrow>
   (\<exists>failed. conn_read lf i s = Inr ((c, r, failed), s'))"
proof
  show "srv_step run_page True (s, [(lf, cf, i, Reading)]) (s', [(lf, cf, i, Serving c r)])"
    if "\<exists>failed. conn_read lf i s = Inr ((c, r, failed), s')"
    using that by (auto intro: srv_step.read [where xs = "[]" and ys = "[]", simplified])
qed (erule srv_step.cases; fastforce simp: Cons_eq_append_conv append_eq_Cons_conv)

lemma one_thread_serves:
  "srv_step run_page True (s, [(lf, cf, i, Serving c r)]) (s', [(lf, cf, i, Closing c)]) \<longleftrightarrow>
   serve run_page c r s = Inr ((), s')"
proof
  show "srv_step run_page True (s, [(lf, cf, i, Serving c r)]) (s', [(lf, cf, i, Closing c)])"
    if "serve run_page c r s = Inr ((), s')"
    using that by (auto intro: srv_step.serve [where xs = "[]" and ys = "[]", simplified])
qed (erule srv_step.cases; fastforce simp: Cons_eq_append_conv append_eq_Cons_conv)

lemma one_thread_closes:
  "srv_step run_page True (s, [(lf, cf, i, Closing c)]) (s', []) \<longleftrightarrow> hang_up c lf cf i s = Inr ((), s')"
proof
  show "srv_step run_page True (s, [(lf, cf, i, Closing c)]) (s', [])" if "hang_up c lf cf i s = Inr ((), s')"
    using that by (auto intro: srv_step.close [where xs = "[]" and ys = "[]", simplified])
qed (erule srv_step.cases; fastforce simp: Cons_eq_append_conv append_eq_Cons_conv)

text \<open>Run without a break, the steps of a thread are the handler: nothing is lost by the cuts.\<close>

lemma handler_steps:
  "client_conn_handler run_page lf cf i s = Inr ((), s') \<longleftrightarrow>
   (\<exists>c r s1 s2. srv_step run_page True (s, [(lf, cf, i, Reading)]) (s1, [(lf, cf, i, Serving c r)]) \<and>
      srv_step run_page True (s1, [(lf, cf, i, Serving c r)]) (s2, [(lf, cf, i, Closing c)]) \<and>
      srv_step run_page True (s2, [(lf, cf, i, Closing c)]) (s', []))"
  unfolding one_thread_reads one_thread_serves one_thread_closes handler_in_parts bnd_Inr
  by (auto simp: thn_Inr simp del: bnd_apply thn_apply)

section \<open>The invariant\<close>

text \<open>
  Every thread holds its own slot, with the connection it serves; every slot in use is held
  by a thread.
\<close>

definition thread_ok :: "'z web_scheme \<Rightarrow> handler \<Rightarrow> bool" where
  "thread_ok s th \<longleftrightarrow> (case th of (lf, cf, i, ph) \<Rightarrow>
     i < length (accepted lf s) \<and> 0 \<le> accepted lf s ! i \<and> client_is ph (accepted lf s ! i))"

definition srv_ok :: "'z web_scheme \<times> handler list \<Rightarrow> bool" where
  "srv_ok st \<longleftrightarrow> (case st of (s, ths) \<Rightarrow>
     distinct (map slot_of ths) \<and> (\<forall>th \<in> set ths. thread_ok s th) \<and>
     (\<forall>f i. i < length (accepted f s) \<longrightarrow> 0 \<le> accepted f s ! i \<longrightarrow> (f, i) \<in> slot_of ` set ths))"

lemma thread_ok_simps [simp]:
  "thread_ok s (lf, cf, i, ph) \<longleftrightarrow>
     i < length (accepted lf s) \<and> 0 \<le> accepted lf s ! i \<and> client_is ph (accepted lf s ! i)"
  by (simp add: thread_ok_def)

lemma srv_okI:
  assumes "distinct (map slot_of ths)" and "\<And>th. th \<in> set ths \<Longrightarrow> thread_ok s th"
    and "\<And>f i. i < length (accepted f s) \<Longrightarrow> 0 \<le> accepted f s ! i \<Longrightarrow> (f, i) \<in> slot_of ` set ths"
  shows "srv_ok (s, ths)"
  using assms by (simp add: srv_ok_def)

lemma srv_okD:
  assumes "srv_ok (s, ths)"
  shows "distinct (map slot_of ths)" and "th \<in> set ths \<Longrightarrow> thread_ok s th"
    and "i < length (accepted f s) \<Longrightarrow> 0 \<le> accepted f s ! i \<Longrightarrow> (f, i) \<in> slot_of ` set ths"
  using assms by (simp_all add: srv_ok_def)

text \<open>The addresses accept writes are of a family the build has.\<close>

definition peers_known :: "config \<Rightarrow> (call list \<Rightarrow> call \<Rightarrow> string) \<Rightarrow> bool" where
  "peers_known c d \<longleftrightarrow> (\<forall>tr x. d tr (ZsockAccept x) \<noteq> [] \<and>
     (CONFIG_NET_IPV4 c \<and> of_char (hd (d tr (ZsockAccept x))) = af AF_INET \<or>
      CONFIG_NET_IPV6 c \<and> of_char (hd (d tr (ZsockAccept x))) = af AF_INET6))"

definition env_tabs ::
  "'z web_scheme \<Rightarrow> int list \<times> int list \<times> (call list \<Rightarrow> call \<Rightarrow> string) \<times> config \<times> replier" where
  "env_tabs s = (tcp4_accepted s, tcp6_accepted s, data s, cfg s, reply s)"

text \<open>The connections accepted and the sockets closed so far, read off the calls.\<close>

definition accept_of :: "replier \<Rightarrow> call list \<Rightarrow> call \<Rightarrow> int multiset" where
  "accept_of r tr c = (case c of
     Zsock (Accept _) \<Rightarrow> (case r tr c of Some v \<Rightarrow> if 0 \<le> v then {#v#} else {#} | None \<Rightarrow> {#})
   | _ \<Rightarrow> {#})"

definition close_of :: "call \<Rightarrow> int multiset" where
  "close_of c = (case c of Zsock (Close v) \<Rightarrow> {#v#} | _ \<Rightarrow> {#})"

fun accepts_in :: "replier \<Rightarrow> call list \<Rightarrow> call list \<Rightarrow> int multiset" where
  "accepts_in r pre [] = {#}"
| "accepts_in r pre (c # cs) = accept_of r pre c + accepts_in r (pre @ [c]) cs"

definition taken :: "'z kern_scheme \<Rightarrow> int multiset" where
  "taken s = accepts_in (reply s) [] (trace s)"

definition closed :: "'z kern_scheme \<Rightarrow> int multiset" where
  "closed s = sum_list (map close_of (trace s))"

definition books :: "'z kern_scheme \<Rightarrow> int multiset \<times> int multiset" where
  "books s = (taken s, closed s)"

lemma accepts_in_append: "accepts_in r pre (xs @ ys) = accepts_in r pre xs + accepts_in r (pre @ xs) ys"
  by (induction xs arbitrary: pre) (simp_all add: add.assoc)

lemma books_append:
  "trace t = trace s @ cs \<Longrightarrow> reply t = reply s \<Longrightarrow>
   books t = (taken s + accepts_in (reply s) (trace s) cs, closed s + sum_list (map close_of cs))"
  by (simp add: books_def taken_def closed_def accepts_in_append)

lemma books_simps [simp]:
  "accept_of r tr (Kernel k) = {#}" "close_of (Kernel k) = {#}"
  "accept_of r tr (Settings q) = {#}" "close_of (Settings q) = {#}"
  "accept_of r tr (ZsockSend v b) = {#}" "close_of (ZsockSend v b) = {#}"
  "accept_of r tr (ZsockClose v) = {#}" "close_of (ZsockClose v) = {#v#}" "close_of (ZsockAccept x) = {#}"
  "r tr (ZsockAccept x) = Some v \<Longrightarrow> accept_of r tr (ZsockAccept x) = (if 0 \<le> v then {#v#} else {#})"
  by (simp_all add: accept_of_def close_of_def)

lemma books_quiet: "quiet_call c \<Longrightarrow> accept_of r tr c = {#} \<and> close_of c = {#}"
  by (auto simp: quiet_call_def accept_of_def close_of_def split: call.split sock_call.split)

lemma books_kernel:
  assumes "\<forall>c \<in> set cs. \<exists>k. c = Kernel k"
  shows "accepts_in r pre cs = {#}" "sum_list (map close_of cs) = {#}"
  using assms by (induction cs arbitrary: pre) auto

lemma env_tabs_accepted: "env_tabs t = env_tabs s \<Longrightarrow> accepted f t = accepted f s"
  by (cases f) (simp_all add: env_tabs_def accepted_def)


section \<open>What each step does to the tables\<close>

lemma start_handler_one:
  assumes run: "start_handler a i s = Inr (u, s')" and a: "a \<noteq> []"
    and fam: "CONFIG_NET_IPV4 (cfg s) \<and> of_char (hd a) = af AF_INET \<or> CONFIG_NET_IPV6 (cfg s) \<and> of_char (hd a) = af AF_INET6"
  shows "\<exists>cf cs. trace s' = trace s @ cs \<and> created f cs = [(f, cf, i, Reading)] \<and> env_tabs s' = env_tabs s \<and>
    (\<forall>c \<in> set cs. \<exists>k. c = Kernel k)"
proof -
  consider "CONFIG_NET_IPV4 (cfg s)" "of_char (hd a) = af AF_INET" | "CONFIG_NET_IPV6 (cfg s)" "of_char (hd a) = af AF_INET6"
    using fam by blast
  then show ?thesis
  proof cases
    case 1
    with run a show ?thesis
      by (cases "CONFIG_NET_IPV6 (cfg s)")
        (auto simp: start_handler_def Let_def ext_apply ext0_apply set_tid_def af_def env_tabs_def split: option.splits)
  next
    case 2
    with run a show ?thesis
      by (cases "CONFIG_NET_IPV4 (cfg s)")
        (auto simp: start_handler_def Let_def ext_apply ext0_apply set_tid_def af_def env_tabs_def split: option.splits)
  qed
qed

text \<open>An accept that starts a handler, and one that does not.\<close>

lemma process_tcp_starts:
  assumes run: "process_tcp f s = Inr (r, s')" and peers: "peers_known (cfg s) (data s)"
    and client: "reply s (trace s) (ZsockAccept (listen_sock f s)) = Some client" "0 \<le> client"
    and i: "get_free_slot (accepted f s) = Some i"
  shows "accepted f s' = (accepted f s)[i := client] \<and> (\<forall>g. g \<noteq> f \<longrightarrow> accepted g s' = accepted g s) \<and>
    data s' = data s \<and> cfg s' = cfg s \<and> books s' = (add_mset client (taken s), closed s) \<and>
    (\<exists>cf. created f (drop (length (trace s)) (trace s')) = [(f, cf, i, Reading)])"
proof -
  let ?acc = "ZsockAccept (listen_sock f s)"
  let ?t = "s\<lparr>trace := trace s @ [?acc]\<rparr>"
  obtain t where t: "set_accepted f i client ?t = Inr ((), t)" by (simp add: set_accepted_def)
  have same: "trace t = trace s @ [?acc]" "cfg t = cfg s" "data t = data s" "reply t = reply s"
    using t by (cases f; auto simp: set_accepted_def)+
  let ?a = "data s (trace s) ?acc"
  have "thn (start_handler ?a i) (ret (0 :: int)) t = Inr (r, s')"
    using run client i t by (simp add: process_tcp_def ext_data_apply)
  then obtain u where h: "start_handler ?a i t = Inr (u, s')" unfolding thn_Inr by auto
  have "?a \<noteq> []" and "CONFIG_NET_IPV4 (cfg t) \<and> of_char (hd ?a) = af AF_INET \<or> CONFIG_NET_IPV6 (cfg t) \<and> of_char (hd ?a) = af AF_INET6"
    using peers same by (auto simp: peers_known_def)
  from start_handler_one [OF h this, of f] obtain cf cs where
    cs: "trace s' = trace t @ cs" "created f cs = [(f, cf, i, Reading)]" "env_tabs s' = env_tabs t"
      "\<forall>c \<in> set cs. \<exists>k. c = Kernel k" by blast
  have acc: "accepted g s' = (if g = f then (accepted f s)[i := client] else accepted g s)" for g
    using accepted_set_accepted [OF t, of g] env_tabs_accepted [OF cs(3), of g] by simp
  have "data s' = data s" "cfg s' = cfg s" "reply s' = reply s" using cs(3) same by (simp_all add: env_tabs_def)
  moreover from this(3) have "books s' = (add_mset client (taken s), closed s)"
    using books_append [of s' s "?acc # cs"] cs(1) same(1) client books_kernel [OF cs(4)] by simp
  ultimately show ?thesis using acc cs(1,2) same(1) by auto
qed

lemma process_tcp_returns:
  assumes "responsive s"
  shows "\<exists>r s'. process_tcp f s = Inr (r, s')"
proof -
  define q where "q tr c = the (reply s tr c)" for tr c
  have q: "reply s tr (ZsockAccept x) = Some (q tr (ZsockAccept x))" "reply s tr (ZsockClose x) = Some (q tr (ZsockClose x))"
    "reply s tr (KThreadCreate x i) = Some (q tr (KThreadCreate x i))"
    "reply s tr (KThreadNameSet i) = Some (q tr (KThreadNameSet i))" for tr x i
    using assms by (auto simp: replies_def q_def)
  have start: "\<exists>t'. start_handler a i t = Inr ((), t')" if "reply t = reply s" for a i t
    by (simp add: start_handler_def Let_def ext_apply ext0_apply set_tid_def that q)
  have acc: "\<exists>t'. set_accepted f i v t = Inr ((), t') \<and> reply t' = reply t" for i v t
    by (cases f) (simp_all add: set_accepted_def)
  show ?thesis
  proof (cases "get_free_slot (accepted f s)")
    case None
    then show ?thesis by (simp add: process_tcp_def ext_data_apply ext0_apply q)
  next
    case (Some i)
    let ?acc = "ZsockAccept (listen_sock f s)"
    obtain t where t: "set_accepted f i (q (trace s) ?acc) (s\<lparr>trace := trace s @ [?acc]\<rparr>) = Inr ((), t)" "reply t = reply s"
      using acc [of i _ "s\<lparr>trace := trace s @ [?acc]\<rparr>"] by auto
    obtain t' where "start_handler (data s (trace s) ?acc) i t = Inr ((), t')" using start [OF t(2)] by blast
    with Some t show ?thesis by (simp add: process_tcp_def ext_data_apply q)
  qed
qed

lemma process_tcp_declines:
  assumes run: "process_tcp f s = Inr (r, s')"
    and client: "reply s (trace s) (ZsockAccept (listen_sock f s)) = Some client"
    and none: "client < 0 \<or> get_free_slot (accepted f s) = None"
  shows "env_tabs s' = env_tabs s \<and> created f (drop (length (trace s)) (trace s')) = [] \<and>
    (\<exists>m. books s' = (taken s + m, closed s + m))"
proof (cases "client < 0")
  case True
  with run client have s': "s' = s\<lparr>trace := trace s @ [ZsockAccept (listen_sock f s)]\<rparr>"
    by (auto simp: process_tcp_def ext_data_apply)
  then have "books s' = (taken s, closed s)"
    using True client by (subst books_append [of s' s "[ZsockAccept (listen_sock f s)]"]) simp_all
  with s' show ?thesis by (auto simp: env_tabs_def)
next
  case False
  with run client none
  have "thn (ext0 (ZsockClose client)) (ret 0) (s\<lparr>trace := trace s @ [ZsockAccept (listen_sock f s)]\<rparr>) = Inr (r, s')"
    by (simp add: process_tcp_def ext_data_apply)
  then have s': "s' = s\<lparr>trace := trace s @ [ZsockAccept (listen_sock f s), ZsockClose client]\<rparr>"
    by (auto simp: ext0_apply split: option.splits)
  then have "books s' = (taken s + {#client#}, closed s + {#client#})"
    using False client
    by (subst books_append [of s' s "[ZsockAccept (listen_sock f s), ZsockClose client]"]) simp_all
  with s' show ?thesis by (auto simp: env_tabs_def)
qed

lemma process_tcp_effect:
  assumes run: "process_tcp f s = Inr (r, s')" and peers: "peers_known (cfg s) (data s)"
  shows "env_tabs s' = env_tabs s \<and> created f (drop (length (trace s)) (trace s')) = [] \<and>
      (\<exists>m. books s' = (taken s + m, closed s + m)) \<or>
    (\<exists>i client cf. get_free_slot (accepted f s) = Some i \<and> 0 \<le> client \<and>
      accepted f s' = (accepted f s)[i := client] \<and> (\<forall>g. g \<noteq> f \<longrightarrow> accepted g s' = accepted g s) \<and>
      data s' = data s \<and> cfg s' = cfg s \<and> books s' = (add_mset client (taken s), closed s) \<and>
      created f (drop (length (trace s)) (trace s')) = [(f, cf, i, Reading)])"
proof -
  obtain client where client: "reply s (trace s) (ZsockAccept (listen_sock f s)) = Some client"
    using run by (auto simp: process_tcp_def ext_data_apply split: option.splits)
  show ?thesis
  proof (cases "client < 0 \<or> get_free_slot (accepted f s) = None")
    case True
    then show ?thesis using process_tcp_declines [OF run client] by blast
  next
    case False
    then obtain i where i: "get_free_slot (accepted f s) = Some i" "0 \<le> client" by auto
    from process_tcp_starts [OF run peers client i(2,1)] i show ?thesis by blast
  qed
qed

lemma conn_read_effect:
  assumes "conn_read lf i s = Inr ((c, r, False), s')"
  shows "c = accepted lf s ! i \<and> env_tabs s' = env_tabs s \<and> books s' = books s"
  using assms
  by (cases "scan_request (rx s (accepted lf s ! i)) req_init")
    (auto simp: conn_read_def set_rx_def set_accepted_def env_tabs_def books_def taken_def closed_def split: if_splits)

lemma stop_effect:
  assumes "stop_web_server s = Inr (r, s')"
  shows "env_tabs s' = env_tabs s \<and> books s' = books s"
proof -
  have "keeps (\<lambda>t. (env_tabs t, books t) = (env_tabs s, books s)) stop_web_server"
    unfolding stop_web_server_def
    by (intro keeps_intros keeps_ext0 keeps_modify)
      (auto simp: env_tabs_def books_def taken_def closed_def accepts_in_append)
  from keeps_Inr [OF this refl assms] show ?thesis by simp
qed

lemma hang_up_effect:
  assumes "hang_up c lf cf i s = Inr (u, s')"
  shows "accepted lf s' = (accepted lf s)[i := - 1] \<and> (\<forall>g. g \<noteq> lf \<longrightarrow> accepted g s' = accepted g s) \<and>
    data s' = data s \<and> cfg s' = cfg s \<and> books s' = (taken s, add_mset c (closed s))"
proof -
  obtain x where x: "reply s (trace s) (ZsockClose c) = Some x"
    using assms by (cases "reply s (trace s) (ZsockClose c)") (auto simp: hang_up_def ext0_apply)
  with assms show ?thesis
    by (cases lf; cases cf) (auto simp: hang_up_def ext0_apply set_accepted_def set_tid_def accepted_def
        books_def taken_def closed_def accepts_in_append split: family.split)
qed

section \<open>The invariant is kept\<close>

definition srv_inv :: "config \<Rightarrow> (call list \<Rightarrow> call \<Rightarrow> string) \<Rightarrow> 'z web_scheme \<times> handler list \<Rightarrow> bool" where
  "srv_inv c d st \<longleftrightarrow> srv_ok st \<and> cfg (fst st) = c \<and> data (fst st) = d"

lemma srv_ok_thread:
  assumes "srv_ok (s, xs @ th # ys)"
  shows "thread_ok s th" "slot_of th \<notin> slot_of ` set (xs @ ys)" "distinct (map slot_of (xs @ ys))"
  using srv_okD [OF assms] by auto

lemma thread_ok_frame:
  assumes "thread_ok s th" and "slot_of th = (g, j)" and "accepted g t ! j = accepted g s ! j"
    and "length (accepted g t) = length (accepted g s)"
  shows "thread_ok t th"
  using assms by (cases th) simp

lemma srv_ok_same:
  assumes "srv_ok (s, ths)" and acc: "\<And>f. accepted f s' = accepted f s"
  shows "srv_ok (s', ths)"
proof -
  have "thread_ok s' th = thread_ok s th" for th by (cases th) (simp add: acc)
  with assms(1) show ?thesis by (simp add: srv_ok_def acc)
qed

text \<open>A thread that goes on to its next part.\<close>

lemma srv_ok_next:
  assumes ok: "srv_ok (s, xs @ (lf, cf, i, ph) # ys)" and acc: "\<And>f. accepted f s' = accepted f s"
    and next_ph: "client_is ph' (accepted lf s ! i)"
  shows "srv_ok (s', xs @ (lf, cf, i, ph') # ys)"
proof (rule srv_okI)
  show "distinct (map slot_of (xs @ (lf, cf, i, ph') # ys))" using srv_okD(1) [OF ok] by simp
  show "thread_ok s' th" if "th \<in> set (xs @ (lf, cf, i, ph') # ys)" for th
  proof (cases "th = (lf, cf, i, ph')")
    case True
    then show ?thesis using srv_ok_thread(1) [OF ok] next_ph by (simp add: acc)
  next
    case False
    with that have "thread_ok s th" by (intro srv_okD(2) [OF ok]) auto
    then show ?thesis by (cases th) (simp add: acc)
  qed
  show "(f, j) \<in> slot_of ` set (xs @ (lf, cf, i, ph') # ys)"
    if "j < length (accepted f s')" "0 \<le> accepted f s' ! j" for f j
    using srv_okD(3) [OF ok] that by (simp add: acc)
qed

text \<open>A thread that ends, and one that starts.\<close>

lemma srv_ok_end:
  assumes ok: "srv_ok (s, xs @ (lf, cf, i, ph) # ys)"
    and "accepted lf s' = (accepted lf s)[i := - 1]" "\<And>g. g \<noteq> lf \<Longrightarrow> accepted g s' = accepted g s"
  shows "srv_ok (s', xs @ ys)"
proof (rule srv_okI)
  have i: "i < length (accepted lf s)" using srv_ok_thread(1) [OF ok] by simp
  have len: "length (accepted g s') = length (accepted g s)" for g
    using assms(2,3) by (cases "g = lf") simp_all
  have acc: "accepted g s' ! j = (if (g, j) = (lf, i) then - 1 else accepted g s ! j)" for g j
    using assms(2,3) i by (cases "g = lf") (simp_all add: nth_list_update)
  show "distinct (map slot_of (xs @ ys))" by (rule srv_ok_thread(3) [OF ok])
  show "thread_ok s' th" if "th \<in> set (xs @ ys)" for th
  proof -
    have "thread_ok s th" using that by (intro srv_okD(2) [OF ok]) auto
    moreover have "slot_of th \<noteq> (lf, i)"
      using srv_ok_thread(2) [OF ok] imageI [OF that, of slot_of] unfolding slot_of_simps by metis
    moreover obtain g j where gj: "slot_of th = (g, j)" by (cases "slot_of th")
    ultimately have "thread_ok s th" "accepted g s' ! j = accepted g s ! j" using acc [of g j] by auto
    then show ?thesis by (intro thread_ok_frame [OF _ gj _ len])
  qed
  show "(g, j) \<in> slot_of ` set (xs @ ys)" if "j < length (accepted g s')" "0 \<le> accepted g s' ! j" for g j
  proof -
    have "(g, j) \<noteq> (lf, i)" using that(2) acc [of g j] by auto
    moreover from this have "(g, j) \<in> slot_of ` set (xs @ (lf, cf, i, ph) # ys)"
      using that by (intro srv_okD(3) [OF ok]) (auto simp: acc len)
    ultimately show ?thesis by auto
  qed
qed

lemma srv_ok_start:
  assumes ok: "srv_ok (s, ths)" and free: "get_free_slot (accepted f s) = Some i" and client: "0 \<le> client"
    and new: "accepted f s' = (accepted f s)[i := client]" "\<And>g. g \<noteq> f \<Longrightarrow> accepted g s' = accepted g s"
  shows "srv_ok (s', ths @ [(f, cf, i, Reading)])"
proof (rule srv_okI)
  note fr = free_slot_is_free [OF free]
  have len: "length (accepted g s') = length (accepted g s)" for g
    using new by (cases "g = f") simp_all
  have acc: "accepted g s' ! j = (if (g, j) = (f, i) then client else accepted g s ! j)" for g j
    using new fr by (cases "g = f") (simp_all add: nth_list_update)
  have other: "slot_of th \<noteq> (f, i)" if "th \<in> set ths" for th
    using srv_okD(2) [OF ok that] fr by (cases th) auto
  then have "(f, i) \<notin> slot_of ` set ths" by (metis imageE)
  then show "distinct (map slot_of (ths @ [(f, cf, i, Reading)]))" using srv_okD(1) [OF ok] by simp
  show "thread_ok s' th" if "th \<in> set (ths @ [(f, cf, i, Reading)])" for th
  proof (cases "th \<in> set ths")
    case True
    obtain g j where gj: "slot_of th = (g, j)" by (cases "slot_of th")
    then have "accepted g s' ! j = accepted g s ! j" using acc [of g j] other [OF True] by auto
    then show ?thesis by (rule thread_ok_frame [OF srv_okD(2) [OF ok True] gj _ len])
  next
    case False
    with that fr client show ?thesis by (simp add: acc len client_is_def)
  qed
  show "(g, j) \<in> slot_of ` set (ths @ [(f, cf, i, Reading)])" if "j < length (accepted g s')" "0 \<le> accepted g s' ! j" for g j
    using that srv_okD(3) [OF ok, of j g] by (cases "(g, j) = (f, i)") (auto simp: acc len)
qed

section \<open>The pages as a client of the server\<close>

text \<open>
  All the server asks of a page: that running it, whatever it does, leaves the tables of
  connections, the environment and the account of connections as they were.
\<close>

locale page_contract =
  fixes run_page :: "'z web_scheme page_runner"
  assumes page_tabs: "keeps (\<lambda>t. (env_tabs t, books t) = v) (run_page f c p)"
begin

lemma serve_effect:
  assumes run: "serve run_page c r s = Inr (u, s')"
  shows "env_tabs s' = env_tabs s \<and> books s' = books s"
proof -
  have "keeps (\<lambda>t. (env_tabs t, books t) = (env_tabs s, books s)) (serve run_page c r)"
    by (rule keeps_serve [OF _ _ page_tabs])
      (auto simp: sock_frame_def env_tabs_def books_def taken_def closed_def accepts_in_append)
  from keeps_Inr [OF this refl run] show ?thesis by simp
qed

lemma srv_step_ok:
  assumes peers: "peers_known c d"
    and "srv_step run_page False st st'" and "srv_inv c d st"
  shows "srv_inv c d st'"
  using assms(2)
proof (cases rule: srv_step.cases)
  case (accept f s r s' ths)
  have I: "srv_ok (s, ths)" "cfg s = c" "data s = d" using assms(3) accept(1) by (simp_all add: srv_inv_def)
  have "peers_known (cfg s) (data s)" using peers I by simp
  from process_tcp_effect [OF accept(4) this] show ?thesis
  proof (elim disjE exE conjE)
    fix m
    assume same: "env_tabs s' = env_tabs s" "created f (drop (length (trace s)) (trace s')) = []"
    have "accepted g s' = accepted g s" for g by (rule env_tabs_accepted [OF same(1)])
    then have "srv_ok (s', ths)" by (rule srv_ok_same [OF I(1)])
    with same I show ?thesis by (simp add: accept(2) srv_inv_def env_tabs_def)
  next
    fix i client cf
    assume new: "get_free_slot (accepted f s) = Some i" "0 \<le> client" "accepted f s' = (accepted f s)[i := client]"
      "\<forall>g. g \<noteq> f \<longrightarrow> accepted g s' = accepted g s" "data s' = data s" "cfg s' = cfg s"
      "books s' = (add_mset client (taken s), closed s)" "created f (drop (length (trace s)) (trace s')) = [(f, cf, i, Reading)]"
    have "srv_ok (s', ths @ [(f, cf, i, Reading)])" by (rule srv_ok_start [OF I(1) new(1-3)]) (use new(4) in blast)
    with new I show ?thesis by (simp add: accept(2) srv_inv_def)
  qed
next
  case (read lf i s c' r failed s' xs cf ys)
  then have "conn_read lf i s = Inr ((c', r, False), s')" by simp
  note eff = conn_read_effect [OF this]
  have "srv_ok (s, xs @ (lf, cf, i, Reading) # ys)" using assms(3) read(1) by (simp add: srv_inv_def)
  then have "srv_ok (s', xs @ (lf, cf, i, Serving c' r) # ys)"
    by (rule srv_ok_next) (use eff env_tabs_accepted in \<open>auto simp: client_is_def\<close>)
  with eff assms(3) read show ?thesis by (simp add: srv_inv_def env_tabs_def)
next
  case (serve c' r s s' xs lf cf i ys)
  note eff = serve_effect [OF serve(3)]
  have ok: "srv_ok (s, xs @ (lf, cf, i, Serving c' r) # ys)" using assms(3) serve(1) by (simp add: srv_inv_def)
  then have "srv_ok (s', xs @ (lf, cf, i, Closing c') # ys)"
    by (rule srv_ok_next) (use eff env_tabs_accepted srv_ok_thread(1) [OF ok] in \<open>auto simp: client_is_def\<close>)
  with eff assms(3) serve show ?thesis by (simp add: srv_inv_def env_tabs_def)
next
  case (close c' lf cf i s s' xs ys)
  note eff = hang_up_effect [OF close(3)]
  have "srv_ok (s, xs @ (lf, cf, i, Closing c') # ys)" using assms(3) close(1) by (simp add: srv_inv_def)
  then have "srv_ok (s', xs @ ys)" by (rule srv_ok_end) (use eff in auto)
  with eff assms(3) close show ?thesis by (simp add: srv_inv_def)
next
  case (stop s r s' ths)
  note eff = stop_effect [OF stop(3)]
  have "srv_ok (s, ths)" using assms(3) stop(1) by (simp add: srv_inv_def)
  then have "srv_ok (s', ths)" by (rule srv_ok_same) (use eff env_tabs_accepted in blast)
  with eff assms(3) stop show ?thesis by (simp add: srv_inv_def env_tabs_def)
qed

lemma srv_reach_ok:
  assumes peers: "peers_known (cfg s0) (data s0)"
    and free: "\<And>f. \<forall>v \<in> set (accepted f s0). v < 0" and reach: "srv_reach run_page False s0 st"
  shows "srv_ok st"
proof -
  have "srv_inv (cfg s0) (data s0) st"
    using reach
  proof induction
    case start
    have "accepted f s0 ! i < 0" if "i < length (accepted f s0)" for f i using free that nth_mem by blast
    then have "srv_ok (s0, [])" by (intro srv_okI) (auto simp: not_less [symmetric])
    then show ?case by (simp add: srv_inv_def)
  next
    case (step st st')
    from srv_step_ok [OF peers step(2,3)] show ?case .
  qed
  then show ?thesis by (simp add: srv_inv_def)
qed

end

lemma portal_page_tabs: "keeps (\<lambda>t. (env_tabs t, books t) = v) (portal_page f c p)"
  by (rule keeps_page)
    (auto simp: page_frame_def stop_frame_def quiet_frame_def env_tabs_def books_def taken_def closed_def accepts_in_append
      books_quiet)

interpretation pg: page_contract portal_page
  by unfold_locales (rule portal_page_tabs)

section \<open>A socket that fails\<close>

text \<open>
  The handler of a socket that fails frees its slot and runs on: an accept before it ends gives
  the slot to a second thread.
\<close>

lemma conn_read_failed:
  assumes "conn_read lf i s = Inr ((c, r, True), s')"
  shows "accepted lf s' = (accepted lf s)[i := - 1] \<and> (\<forall>g. g \<noteq> lf \<longrightarrow> accepted g s' = accepted g s) \<and>
    data s' = data s \<and> cfg s' = cfg s \<and> trace s' = trace s"
  using assms
  by (cases lf; cases "scan_request (rx s (accepted lf s ! i)) req_init")
    (auto simp: conn_read_def set_rx_def set_accepted_def accepted_def split: if_splits family.split)

lemma first_slot_freed:
  assumes "i < length tab" "\<forall>j < i. 0 \<le> tab ! j"
  shows "get_free_slot (tab[i := - 1]) = Some i"
  using assms by (auto simp: get_free_slot_def first_index_Some)

lemma failed_socket_shares_slot:
  assumes ok: "srv_ok (s, xs @ (lf, cf, i, Reading) # ys)" and peers: "peers_known (cfg s) (data s)"
    and read: "conn_read lf i s = Inr ((c, r, True), s1)" and low: "\<forall>j < i. 0 \<le> accepted lf s ! j"
    and client: "reply s1 (trace s1) (ZsockAccept (listen_sock lf s1)) = Some client" "0 \<le> client"
    and run: "process_tcp lf s1 = Inr (r', s2)" and lst: "listener_alive lf s"
  shows "\<exists>mid cf'. mid = xs @ (lf, cf, i, Serving c r) # ys \<and>
    srv_step run_page True (s, xs @ (lf, cf, i, Reading) # ys) (s1, mid) \<and>
    srv_step run_page True (s1, mid) (s2, mid @ [(lf, cf', i, Reading)]) \<and>
    \<not> srv_ok (s2, mid @ [(lf, cf', i, Reading)])"
proof -
  let ?mid = "xs @ (lf, cf, i, Serving c r) # ys"
  note eff = conn_read_failed [OF read]
  have "i < length (accepted lf s)" using srv_ok_thread(1) [OF ok] by simp
  with eff low have free: "get_free_slot (accepted lf s1) = Some i" by (simp add: first_slot_freed)
  have "peers_known (cfg s1) (data s1)" using eff peers by simp
  from process_tcp_starts [OF run this client free] obtain cf' where
    cf': "created lf (drop (length (trace s1)) (trace s2)) = [(lf, cf', i, Reading)]" by blast
  have "srv_step run_page True (s, xs @ (lf, cf, i, Reading) # ys) (s1, ?mid)"
    by (rule srv_step.read [OF read]) simp
  moreover have "srv_step run_page True (s1, ?mid) (s2, ?mid @ [(lf, cf', i, Reading)])"
    using srv_step.accept [OF _ run, of run_page True ?mid] cf' lst eff by (simp add: listener_alive_def)
  moreover have "\<not> srv_ok (s2, ?mid @ [(lf, cf', i, Reading)])" by (auto dest: srv_okD(1))
  ultimately show ?thesis by blast
qed

section \<open>A server that is stopped and started\<close>

text \<open>
  Stopping aborts the listeners, not the handlers; starting again marks every slot free.
\<close>

lemma ext_wait_Inr:
  assumes "ext_wait deliver c s = Inr (r, s')"
  shows "reply s (trace s) c = Some r"
  using assms by (auto simp: ext_wait_def ext_apply split: option.splits sum.splits)

lemma start_listener_empties:
  assumes "start_listener s = Inr ((), s')" and "CONFIG_NET_IPV4 (cfg s)"
  shows "accepted AF_INET s' = replicate (CONFIG_HTTP_NUM_HANDLERS (cfg s)) (- 1)"
  using assms
  by (auto simp: start_listener_def Let_def ext0_apply accepted_def split: if_splits option.splits)

lemma restart_forgets:
  fixes s :: "'z portal_scheme"
  assumes ok: "srv_ok (s, ths)" and th: "(AF_INET, cf, i, ph) \<in> set ths"
    and env: "responsive s" "CONFIG_NET_IPV4 (cfg s)" "\<And>tr. reply s tr (KSemTake run_app None) = Some x" "0 \<le> x"
    and run: "stop_web_server s = Inr (r, s1)" "do_start_web_server portal_deliver s1 = Inr ((), s2)"
  shows "(\<forall>v \<in> set (accepted AF_INET s2). v < 0) \<and> \<not> srv_ok (s2, ths)"
proof -
  let ?I = "\<lambda>t. cfg t = cfg s \<and> reply t = reply s"
  have I1: "?I s1" "\<not> mWebServerRunning s1"
    using run(1) by (auto simp: stop_web_server_def ext0_apply split: if_splits option.splits)
  have d: "keeps ?I (portal_deliver e)" for e by (rule keeps_quiet_deliver) (simp add: quiet_frame_def)
  let ?wait = "bnd (ext_wait portal_deliver (KSemTake run_app None)) (\<lambda>rc. cond (\<not> rc < 0) start_listener)"
  let ?s = "s1\<lparr>mWebServerRunning := True, want_to_quit := False\<rparr>"
  let ?give = "cond (\<not> CONFIG_NET_CONNECTION_MANAGER (cfg s)) (ext0 (KSemGive run_app))"
  have "thn ?give ?wait ?s = Inr ((), s2)"
    using run(2) I1 unfolding do_start_web_server_def
    by (simp add: thn_def [of "modify _"] bnd_apply [of "gets _"] bnd_apply [of "modify _"] del: bnd_apply thn_apply)
  then obtain a t where give: "?give ?s = Inr (a, t)" and t2: "?wait t = Inr ((), s2)" unfolding thn_Inr by blast
  have "keeps ?I ?give" by (intro keeps_cond keeps_ext0) simp
  from keeps_Inr [OF this _ give] I1 have t1: "?I t" by simp
  note t = t1 t2
  from t2 obtain rc u where u: "ext_wait portal_deliver (KSemTake run_app None) t = Inr (rc, u)"
    "cond (\<not> rc < 0) start_listener u = Inr ((), s2)" unfolding bnd_Inr by blast
  have "rc = x" using ext_wait_Inr [OF u(1)] t(1) env(3) by simp
  then have start: "start_listener u = Inr ((), s2)" using u(2) env(4) by simp
  have "keeps ?I (ext_wait portal_deliver (KSemTake run_app None))" by (rule keeps_ext_wait [OF _ d]) simp
  from keeps_Inr [OF this t(1) u(1)] env(2) have "CONFIG_NET_IPV4 (cfg u)" by simp
  from start_listener_empties [OF start this] have free: "\<forall>v \<in> set (accepted AF_INET s2). v < 0" by simp
  moreover have "\<not> srv_ok (s2, ths)"
  proof
    assume "srv_ok (s2, ths)"
    from srv_okD(2) [OF this th] have "i < length (accepted AF_INET s2)" "0 \<le> accepted AF_INET s2 ! i" by simp_all
    with free nth_mem show False by fastforce
  qed
  ultimately show ?thesis by blast
qed

end
