(* ===== verification/Ob_Pool.thy ===== *)
theory Ob_Pool
  imports Ob_Server
begin

text \<open>
  What the web server promises about its connections, without slots, threads or tables: a pool of
  at most so many open connections for each listener. The server implements it, step by step; and
  every connection accepted is closed once or still in the pool.
\<close>

section \<open>The pool\<close>

type_synonym pool = "family \<Rightarrow> int multiset"

inductive pool_step :: "(family \<Rightarrow> nat) \<Rightarrow> pool \<Rightarrow> pool \<Rightarrow> bool" for cap where
  opened: "size (p f) < cap f \<Longrightarrow> pool_step cap p (p(f := add_mset c (p f)))"
| closed: "c \<in># p f \<Longrightarrow> pool_step cap p (p(f := p f - {#c#}))"
| idle: "pool_step cap p p"

definition pool_ok :: "(family \<Rightarrow> nat) \<Rightarrow> pool \<Rightarrow> bool" where
  "pool_ok cap p \<longleftrightarrow> (\<forall>f. size (p f) \<le> cap f)"

lemma pool_step_ok: "pool_step cap p q \<Longrightarrow> pool_ok cap p \<Longrightarrow> pool_ok cap q"
  by (induction rule: pool_step.induct) (auto simp: pool_ok_def size_Diff_singleton_if intro: le_trans [OF diff_le_self])

section \<open>The pool of a server\<close>

definition open_conns :: "'z web_scheme \<Rightarrow> pool" where
  "open_conns s f = mset (filter (\<lambda>v. 0 \<le> v) (accepted f s))"

definition capacity :: "'z web_scheme \<Rightarrow> family \<Rightarrow> nat" where
  "capacity s f = length (accepted f s)"

lemma open_conns_bound: "size (open_conns s f) \<le> capacity s f"
  by (simp add: open_conns_def capacity_def flip: mset_filter)

lemma mset_slot_taken:
  fixes tab :: "int list"
  assumes "i < length tab" and "tab ! i < 0" and "0 \<le> c"
  shows "mset (filter (\<lambda>v. 0 \<le> v) (tab[i := c])) = add_mset c (mset (filter (\<lambda>v. 0 \<le> v) tab))"
  using assms by (simp add: mset_update)

lemma mset_slot_freed:
  fixes tab :: "int list"
  assumes "i < length tab" and "0 \<le> tab ! i"
  shows "mset (filter (\<lambda>v. 0 \<le> v) (tab[i := - 1])) = mset (filter (\<lambda>v. 0 \<le> v) tab) - {#tab ! i#}"
  using assms by (simp add: mset_update)

lemma room_for_one:
  assumes "i < length tab" and "tab ! i < (0 :: int)"
  shows "size (mset (filter (\<lambda>v. 0 \<le> v) tab)) < length tab"
proof -
  have "tab ! i \<in> set tab" "\<not> 0 \<le> tab ! i" using assms by auto
  then have "length (filter (\<lambda>v. 0 \<le> v) tab) < length tab" by (rule length_filter_less)
  then show ?thesis by (simp flip: size_mset)
qed

context page_contract
begin

text \<open>The three effects a step of the server can have.\<close>

lemma srv_step_effects:
  assumes peers: "peers_known c d"
    and "srv_step run_page False (s, ths) (s', ths')" and "srv_inv c d (s, ths)"
  obtains
    (idle) m where "\<And>f. accepted f s' = accepted f s" "books s' = (taken s + m, closed s + m)"
  | (opened) f i v where "listener_alive f s" "get_free_slot (accepted f s) = Some i" "0 \<le> v" "accepted f s' = (accepted f s)[i := v]"
      "\<And>g. g \<noteq> f \<Longrightarrow> accepted g s' = accepted g s" "books s' = (add_mset v (taken s), closed s)"
  | (closed) f i where "i < length (accepted f s)" "0 \<le> accepted f s ! i" "accepted f s' = (accepted f s)[i := - 1]"
      "\<And>g. g \<noteq> f \<Longrightarrow> accepted g s' = accepted g s" "books s' = (taken s, add_mset (accepted f s ! i) (closed s))"
  using assms(2)
proof (cases rule: srv_step.cases)
  case (accept f r)
  note lst = accept(2)
  have "peers_known (cfg s) (data s)" using peers assms(3) by (simp add: srv_inv_def)
  from process_tcp_effect [OF accept(3) this] show thesis
  proof (elim disjE exE conjE)
    fix m assume "env_tabs s' = env_tabs s" "books s' = (taken s + m, closed s + m)"
    then show thesis using env_tabs_accepted idle by blast
  qed (use opened [OF lst] in blast)
next
  case (read lf i c' r failed xs cf ys)
  then have "conn_read lf i s = Inr ((c', r, False), s')" by simp
  from conn_read_effect [OF this] show thesis
    using idle [of "{#}", OF env_tabs_accepted] by (simp add: books_def)
next
  case (serve c' r xs lf cf i ys)
  from serve_effect [OF serve(3)] show thesis
    using idle [of "{#}", OF env_tabs_accepted] by (simp add: books_def)
next
  case (close c' lf cf i xs ys)
  have "srv_ok (s, xs @ (lf, cf, i, Closing c') # ys)" using assms(3) close(1) by (simp add: srv_inv_def)
  then have "i < length (accepted lf s)" "0 \<le> accepted lf s ! i" "accepted lf s ! i = c'"
    using srv_ok_thread(1) by (fastforce simp: client_is_def)+
  with hang_up_effect [OF close(3)] show thesis using closed [of i lf] by blast
next
  case (stop r)
  from stop_effect [OF stop(2)] show thesis
    using idle [of "{#}", OF env_tabs_accepted] by (simp add: books_def)
qed

section \<open>The server implements the pool\<close>

lemma srv_step_pool:
  assumes peers: "peers_known c d"
    and step: "srv_step run_page False (s, ths) (s', ths')" and inv: "srv_inv c d (s, ths)"
  shows "pool_step (capacity s) (open_conns s) (open_conns s') \<and> capacity s' = capacity s"
  using peers step inv
proof (cases rule: srv_step_effects)
  case (idle m)
  then have "open_conns s' = open_conns s" "capacity s' = capacity s"
    by (auto simp: open_conns_def capacity_def)
  then show ?thesis by (simp add: pool_step.idle)
next
  case (opened f i v)
  note fr = free_slot_is_free [OF opened(2)]
  have "open_conns s' g = ((open_conns s)(f := add_mset v (open_conns s f))) g" for g
    using mset_slot_taken [of i "accepted f s" v] fr opened by (cases "g = f") (simp_all add: open_conns_def)
  then have "open_conns s' = (open_conns s)(f := add_mset v (open_conns s f))" by (rule HOL.ext)
  moreover have "size (open_conns s f) < capacity s f"
    using room_for_one fr by (auto simp: open_conns_def capacity_def)
  moreover have "capacity s' g = capacity s g" for g using opened by (cases "g = f") (simp_all add: capacity_def)
  ultimately show ?thesis by (auto intro: pool_step.opened)
next
  case (closed f i)
  have "open_conns s' g = ((open_conns s)(f := open_conns s f - {#accepted f s ! i#})) g" for g
    using mset_slot_freed [of i "accepted f s"] closed by (cases "g = f") (simp_all add: open_conns_def)
  then have "open_conns s' = (open_conns s)(f := open_conns s f - {#accepted f s ! i#})" by (rule HOL.ext)
  moreover have "accepted f s ! i \<in># open_conns s f" using closed by (simp add: open_conns_def)
  moreover have "capacity s' g = capacity s g" for g using closed by (cases "g = f") (simp_all add: capacity_def)
  ultimately show ?thesis by (auto intro: pool_step.closed)
qed

text \<open>A listener that has been stopped opens no connection; its handlers close theirs.\<close>

lemma srv_step_stopped:
  assumes peers: "peers_known c d"
    and step: "srv_step run_page False (s, ths) (s', ths')" and inv: "srv_inv c d (s, ths)"
    and stopped: "\<not> listener_alive f s"
  shows "open_conns s' f \<subseteq># open_conns s f"
  using peers step inv
proof (cases rule: srv_step_effects)
  case (idle m)
  then show ?thesis by (simp add: open_conns_def)
next
  case (opened g i v)
  then have "g \<noteq> f" using stopped by auto
  with opened show ?thesis by (simp add: open_conns_def)
next
  case (closed g i)
  then show ?thesis
    using mset_slot_freed [of i "accepted g s"] by (cases "g = f") (simp_all add: open_conns_def)
qed

end

text \<open>There are as many handlers as open connections.\<close>

lemma handlers_counted:
  assumes "srv_ok (s, ths)"
  shows "size (open_conns s f) = length (filter (\<lambda>th. fst th = f) ths)"
proof -
  let ?ths = "filter (\<lambda>th. fst th = f) ths"
  have slot: "slot_of th = (fst th, snd (slot_of th))" for th :: handler by (cases th) simp
  have inj: "distinct (map slot_of ths) \<Longrightarrow> distinct (map slot_of ?ths)" by (rule distinct_map_filter)
  have "set (map slot_of ?ths) = Pair f ` {i. i < length (accepted f s) \<and> 0 \<le> accepted f s ! i}" (is "?A = ?B")
  proof
    show "?A \<subseteq> ?B" using srv_okD(2) [OF assms] by (fastforce simp: thread_ok_def)
    show "?B \<subseteq> ?A"
    proof
      fix x assume "x \<in> ?B"
      then obtain i where x: "x = (f, i)" "i < length (accepted f s)" "0 \<le> accepted f s ! i" by auto
      then obtain th where "th \<in> set ths" "slot_of th = (f, i)" using srv_okD(3) [OF assms] by force
      moreover from this slot [of th] have "fst th = f" by simp
      ultimately show "x \<in> ?A" using x(1) by (force intro: image_eqI [of _ _ th])
    qed
  qed
  then have "card (set (map slot_of ?ths)) = card {i. i < length (accepted f s) \<and> 0 \<le> accepted f s ! i}"
    by (simp add: card_image inj_on_def)
  moreover have "card (set (map slot_of ?ths)) = length ?ths"
    using inj [OF srv_okD(1) [OF assms]] distinct_card by fastforce
  moreover have "size (open_conns s f) = card {i. i < length (accepted f s) \<and> 0 \<le> accepted f s ! i}"
    unfolding open_conns_def size_mset by (rule length_filter_conv_card)
  ultimately show ?thesis by simp
qed

section \<open>No connection is lost\<close>

definition balanced :: "'z web_scheme \<Rightarrow> bool" where
  "balanced s \<longleftrightarrow> taken s = closed s + (open_conns s AF_INET + open_conns s AF_INET6)"

lemma open_conns_empty: "\<forall>v \<in> set (accepted f s). v < 0 \<Longrightarrow> open_conns s f = {#}"
  by (auto simp: open_conns_def filter_empty_conv)

context page_contract
begin

lemma srv_step_balanced:
  assumes peers: "peers_known c d"
    and step: "srv_step run_page False (s, ths) (s', ths')" and inv: "srv_inv c d (s, ths)" and bal: "balanced s"
  shows "balanced s'"
  using peers step inv
proof (cases rule: srv_step_effects)
  case (idle m)
  then have "open_conns s' = open_conns s" by (auto simp: open_conns_def)
  with idle(2) bal show ?thesis by (simp add: balanced_def books_def)
next
  case (opened f i v)
  note fr = free_slot_is_free [OF opened(2)]
  have "open_conns s' f = add_mset v (open_conns s f)" "\<And>g. g \<noteq> f \<Longrightarrow> open_conns s' g = open_conns s g"
    using mset_slot_taken [of i "accepted f s" v] fr opened by (simp_all add: open_conns_def)
  with opened(6) bal show ?thesis by (cases f) (simp_all add: balanced_def books_def)
next
  case (closed f i)
  let ?v = "accepted f s ! i"
  have "open_conns s f = add_mset ?v (open_conns s' f)" "\<And>g. g \<noteq> f \<Longrightarrow> open_conns s' g = open_conns s g"
    using mset_slot_freed [of i "accepted f s"] closed by (simp_all add: open_conns_def)
  with closed(5) bal show ?thesis by (cases f) (simp_all add: balanced_def books_def)
qed

text \<open>Along any interleaving.\<close>

lemma srv_reach_inv:
  assumes peers: "peers_known (cfg s0) (data s0)"
    and free: "\<And>f. \<forall>v \<in> set (accepted f s0). v < 0" and reach: "srv_reach run_page False s0 st"
  shows "srv_inv (cfg s0) (data s0) st \<and> capacity (fst st) = capacity s0 \<and>
    (taken s0 = closed s0 \<longrightarrow> balanced (fst st))"
  using reach
proof induction
  case start
  show ?case using srv_reach_ok [OF peers free srv_reach.start] free
    by (simp add: srv_inv_def balanced_def open_conns_empty)
next
  case (step st st')
  obtain s ths s' ths' where st: "st = (s, ths)" "st' = (s', ths')" by (cases st; cases st')
  note inv = conjunct1 [OF step.IH, unfolded st] and stp = step.hyps(2) [unfolded st]
  from srv_step_ok [OF peers stp inv] srv_step_pool [OF peers stp inv]
    srv_step_balanced [OF peers stp inv] step.IH show ?case by (simp add: st)
qed

end

end
