(* ===== verification/Ob_Site.thy ===== *)
theory Ob_Site
  imports Ob_Pool
begin

text \<open>
  What the threads of the web server keep, whatever page they run and in whatever order: the
  contract is a locale, with the setup page and the attributes of its form as its instance.
  Whatever is sent to the device, the page stays registered and its attributes well formed.
\<close>

section \<open>What the threads of the server leave alone\<close>

definition server_frame :: "('z web_scheme \<Rightarrow> bool) \<Rightarrow> bool" where
  "server_frame I \<longleftrightarrow> sock_frame I \<and> (\<forall>p n. keeps I (set_content_length p n)) \<and>
     (\<forall>f i v. keeps I (set_accepted f i v)) \<and> (\<forall>f i v. keeps I (set_tid f i v)) \<and> (\<forall>s. I s \<longrightarrow>
     (\<forall>c. I (s\<lparr>trace := trace s @ [c]\<rparr>)) \<and> (\<forall>x. I (s\<lparr>rx := x\<rparr>)) \<and>
     (\<forall>x. I (s\<lparr>want_to_quit := x\<rparr>)) \<and> (\<forall>x. I (s\<lparr>mWebServerRunning := x\<rparr>)))"

locale server_invariant =
  fixes run_page :: "'z web_scheme page_runner" and I :: "'z web_scheme \<Rightarrow> bool"
  assumes frame: "server_frame I" and page_keeps: "keeps I (run_page f c p)"
begin

lemma fields:
  assumes "I s"
  shows "I (s\<lparr>trace := trace s @ [c]\<rparr>)" "I (s\<lparr>rx := x\<rparr>)" "I (s\<lparr>want_to_quit := b\<rparr>)" "I (s\<lparr>mWebServerRunning := b\<rparr>)"
  using assms frame by (simp_all add: server_frame_def)

lemma keeps_parts:
  "keeps I (set_accepted f i v)" "keeps I (set_tid f i v)" "keeps I (set_content_length p n)" "sock_frame I"
  using frame by (simp_all add: server_frame_def)

lemmas keeps_server = keeps_intros keeps_ext keeps_ext0 keeps_ext_data keeps_parts(1,2) fields

lemma keeps_process_tcp: "keeps I (process_tcp f)"
  unfolding process_tcp_def start_handler_def Let_def by (intro keeps_server)

lemma keeps_conn_read: "keeps I (conn_read lf i)"
proof -
  have rx: "keeps I (set_rx c es)" for c es
    unfolding set_rx_def by (rule keeps_modify) (rule fields)
  show ?thesis
    unfolding conn_read_def by (auto intro!: keeps_server rx split: scan_outcome.split)
qed

lemma keeps_serving: "keeps I (serve run_page c r)"
proof -
  have snd: "keeps I (sendall c b)" for b
    by (intro keeps_sendall keeps_parts)
  have get: "keeps I (serve_get run_page c fname)" for fname
    unfolding serve_get_def display_404_def display_500_def str_of_def wp_answers_def wp_matches_def wp_is_home_def
      ob_wifi_HasAP_def
    by (intro keeps_intros keeps_find_wp page_keeps snd)
  have post: "keeps I (serve_post run_page c fname n)" for fname n
    unfolding serve_post_def display_404_def display_500_def str_of_def wp_answers_def wp_matches_def
    by (intro keeps_intros keeps_find_wp page_keeps snd keeps_parts(3))
  show ?thesis
    unfolding serve_def by (cases "rq_page_type r") (auto intro: get post keeps_ret)
qed

lemma keeps_hang_up: "keeps I (hang_up c lf cf i)"
  unfolding hang_up_def by (intro keeps_server)

lemma keeps_stop: "keeps I stop_web_server"
  unfolding stop_web_server_def by (intro keeps_server keeps_modify)

lemma srv_step_keeps: "srv_step run_page errs st st' \<Longrightarrow> I (fst st) \<Longrightarrow> I (fst st')"
  by (induction rule: srv_step.induct)
    (auto intro: keeps_Inr [OF keeps_process_tcp] keeps_Inr [OF keeps_conn_read] keeps_Inr [OF keeps_serving]
      keeps_Inr [OF keeps_hang_up] keeps_Inr [OF keeps_stop])

lemma srv_reach_keeps:
  assumes "srv_reach run_page errs s0 st" and "I s0"
  shows "I (fst st)"
  using assms(1) by induction (use assms(2) srv_step_keeps in auto)

end

section \<open>The slots of the threads\<close>

text \<open>Every thread works on a slot inside its table, even when sockets fail and slots are shared.\<close>

lemma start_handler_slot:
  assumes "start_handler a i s = Inr (u, s')"
  shows "\<exists>cs. trace s' = trace s @ cs \<and> (\<forall>c \<in> set cs. \<forall>b j. c = KThreadCreate b j \<longrightarrow> j = i)"
proof -
  let ?I = "\<lambda>t. \<exists>cs. trace t = trace s @ cs \<and> (\<forall>c \<in> set cs. \<forall>b j. c = KThreadCreate b j \<longrightarrow> j = i)"
  have call: "?I (t\<lparr>trace := trace t @ [c]\<rparr>)" if "?I t" "\<And>b j. c = KThreadCreate b j \<Longrightarrow> j = i" for t :: "'a web_scheme" and c
    using that by auto
  have tid: "keeps ?I (set_tid f i v)" for f v
    unfolding set_tid_def by (rule keeps_modify) (simp split: family.split)
  have "keeps ?I (start_handler a i)"
    unfolding start_handler_def Let_def by (intro keeps_intros keeps_ext keeps_ext0 tid) (auto intro!: call)
  from keeps_Inr [OF this _ assms] show ?thesis by simp
qed

lemma created_slot:
  assumes "th \<in> set (created f cs)"
  obtains cf b i where "th = (f, cf, i, Reading)" "KThreadCreate b i \<in> set cs"
  using assms by (auto simp: created_def split: call.splits kernel_call.splits)

definition slot_in_table :: "'z web_scheme \<Rightarrow> handler \<Rightarrow> bool" where
  "slot_in_table s th \<longleftrightarrow> (case th of (lf, cf, i, ph) \<Rightarrow> i < length (accepted lf s))"

lemma slot_in_table_frame:
  "slot_in_table s th \<Longrightarrow> (\<And>f. length (accepted f s') = length (accepted f s)) \<Longrightarrow> slot_in_table s' th"
  by (simp add: slot_in_table_def split: prod.splits)

lemma process_tcp_slot:
  assumes run: "process_tcp f s = Inr (r, s')" and th: "th \<in> set (created f (drop (length (trace s)) (trace s')))"
  shows "slot_in_table s' th"
proof -
  obtain client where client: "reply s (trace s) (ZsockAccept (listen_sock f s)) = Some client"
    using run by (auto simp: process_tcp_def ext_data_apply split: option.splits)
  have "0 \<le> client" "get_free_slot (accepted f s) \<noteq> None"
    using process_tcp_declines [OF run client] th by force+
  then obtain i where i: "get_free_slot (accepted f s) = Some i" "0 \<le> client" by blast
  let ?acc = "ZsockAccept (listen_sock f s)"
  obtain t where t: "set_accepted f i client (s\<lparr>trace := trace s @ [?acc]\<rparr>) = Inr ((), t)"
    by (simp add: set_accepted_def)
  then have tr: "trace t = trace s @ [?acc]" by (cases f) (auto simp: set_accepted_def)
  have "thn (start_handler (data s (trace s) ?acc) i) (ret (0 :: int)) t = Inr (r, s')"
    using run client i t by (simp add: process_tcp_def ext_data_apply)
  then obtain u where "start_handler (data s (trace s) ?acc) i t = Inr (u, s')" unfolding thn_Inr by auto
  from start_handler_slot [OF this] obtain cs where
    cs: "trace s' = trace t @ cs" "\<forall>c \<in> set cs. \<forall>b j. c = KThreadCreate b j \<longrightarrow> j = i" by blast
  have "drop (length (trace s)) (trace s') = ?acc # cs" using cs(1) tr by simp
  with th have "th \<in> set (created f (?acc # cs))" by (simp only:)
  then obtain cf b j where j: "th = (f, cf, j, Reading)" "KThreadCreate b j \<in> set (?acc # cs)" by (rule created_slot)
  with cs(2) have "j = i" by auto
  moreover have "length (accepted f s') = length (accepted f s)"
    using process_tcp_slots [of s f] run by (simp add: slots_kept_def)
  ultimately show ?thesis using free_slot_is_free [OF i(1)] j(1) by (simp add: slot_in_table_def)
qed

section \<open>The attributes of the form stay well formed\<close>

lemma put_value_attribs:
  assumes "put_value i c p = Some q" and "attrs_ok (ps_ap p)"
  shows "attrs_ok (ps_ap q) \<and> map pa_name (ps_ap q) = map pa_name (ps_ap p)"
proof -
  let ?a = "ps_ap p ! ps_value p"
  obtain b where b: "put_char (valuebuffer ?a) i c = Some b" "ps_ap q = (ps_ap p)[ps_value p := ?a\<lparr>valuebuffer := b\<rparr>]"
    using assms(1) by (auto simp: put_value_def split: option.splits)
  show ?thesis
  proof (cases "ps_value p < length (ps_ap p)")
    case True
    then have "?a \<in> set (ps_ap p)" by simp
    with assms(2) have "nul_free (pa_name ?a)" "length (pa_name ?a) < NAME_BUFFER_SIZE" "length (valuebuffer ?a) = VALUE_BUFFER_SIZE"
      by (simp_all add: attrs_ok_def)
    moreover have "set (ps_ap q) \<subseteq> insert (?a\<lparr>valuebuffer := b\<rparr>) (set (ps_ap p))"
      unfolding b(2) by (rule set_update_subset_insert)
    moreover have "map pa_name (ps_ap q) = map pa_name (ps_ap p)"
      unfolding b(2) using True by (simp add: map_update list_update_same_conv)
    ultimately show ?thesis using assms(2) put_char_length [OF b(1)] by (auto simp: attrs_ok_def)
  next
    case False
    then show ?thesis using assms(2) b(2) by (simp add: list_update_beyond)
  qed
qed

lemma post_char_attribs:
  assumes "attrs_ok (ps_ap p)"
  shows "post_char c p = PostGo q \<or> post_char c p = PostReturn rc q \<Longrightarrow>
    attrs_ok (ps_ap q) \<and> map pa_name (ps_ap q) = map pa_name (ps_ap p)"
  using assms put_value_attribs
  by (fastforce simp: post_char_def split: if_splits option.splits)

lemma post_loop_attribs:
  assumes "post_loop n es p = PostDone rc q es'" and "attrs_ok (ps_ap p)"
  shows "attrs_ok (ps_ap q) \<and> map pa_name (ps_ap q) = map pa_name (ps_ap p)"
  using assms
proof (induction n es p rule: post_loop.induct)
  case (3 n e es p)
  then show ?case
  proof (cases e)
    case (RxByte c)
    show ?thesis
    proof (cases "post_char c p")
      case (PostGo p1)
      with post_char_attribs [OF 3(4), of c p1] 3 RxByte show ?thesis by simp
    next
      case (PostReturn rc1 p1)
      with post_char_attribs [OF 3(4), of c p1 rc1] 3 RxByte show ?thesis by simp
    qed (use 3 RxByte in simp)
  qed simp_all
qed simp_all

lemma process_post_attribs:
  assumes "ob_ws_process_post c ap p s = Inr ((rc, ap'), s')" and "attrs_ok ap"
  shows "attrs_ok ap' \<and> map pa_name ap' = map pa_name ap"
proof -
  obtain n q es' where "post_loop n (rx s c) (post_init ap) = PostDone rc q es'" "ap' = ps_ap q"
    using assms(1)
    by (auto simp: ob_ws_process_post_def load_wp_def set_rx_def split: post_outcome.splits if_splits)
  with post_loop_attribs assms(2) show ?thesis by (fastforce simp: post_init_def)
qed

section \<open>The setup page stays in place\<close>

text \<open>Every page that could be taken for the setup page, by a request or a registration, is it.\<close>

definition setup_page_fine :: "web_page \<Rightarrow> bool" where
  "setup_page_fine wp \<longleftrightarrow> page_ok wp \<and>
     (answers WIFI_SETUP_PAGE_PATH wp \<or> page_key wp = WIFI_SETUP_PAGE_PATH \<longrightarrow>
      answers WIFI_SETUP_PAGE_PATH wp \<and> get_callback wp = Some ''display_wifi_setup_page'' \<and>
      post_callback wp = Some ''post_wifi_setup_page'')"

lemma setup_page_fine_length [simp]: "setup_page_fine (wp\<lparr>content_length := n\<rparr>) = setup_page_fine wp"
  by (simp add: setup_page_fine_def page_ok_def answers_def page_key_def)

text \<open>The tables are arrays: their lengths are the option's.\<close>

definition tables_ok :: "'z web_scheme \<Rightarrow> bool" where
  "tables_ok s \<longleftrightarrow> (\<forall>f. length (accepted f s) = CONFIG_HTTP_NUM_HANDLERS (cfg s))"

lemma tables_ok_iff:
  "tables_ok s \<longleftrightarrow> length (tcp4_accepted s) = CONFIG_HTTP_NUM_HANDLERS (cfg s) \<and>
     length (tcp6_accepted s) = CONFIG_HTTP_NUM_HANDLERS (cfg s)"
proof
  assume "tables_ok s"
  then have "length (accepted AF_INET s) = CONFIG_HTTP_NUM_HANDLERS (cfg s)"
    "length (accepted AF_INET6 s) = CONFIG_HTTP_NUM_HANDLERS (cfg s)" unfolding tables_ok_def by blast+
  then show "length (tcp4_accepted s) = CONFIG_HTTP_NUM_HANDLERS (cfg s) \<and>
      length (tcp6_accepted s) = CONFIG_HTTP_NUM_HANDLERS (cfg s)" by (simp add: accepted_def)
qed (simp add: tables_ok_def accepted_def split: family.split)

definition site_ok :: "'z portal_scheme \<Rightarrow> bool" where
  "site_ok s \<longleftrightarrow> (\<forall>wp \<in> set (web_pages s). setup_page_fine wp) \<and> setup_attribs_ok s"

lemma site_set_content_length:
  "keeps (\<lambda>s. \<forall>wp \<in> set (web_pages s). setup_page_fine wp) (set_content_length p n)"
proof (rule keepsI)
  fix s :: "'z pages_scheme"
  assume I: "\<forall>wp \<in> set (web_pages s). setup_page_fine wp"
  show "\<forall>wp \<in> set (web_pages (final (set_content_length p n s))). setup_page_fine wp"
  proof (cases "p = 0 \<or> length (web_pages s) < p")
    case True
    with I show ?thesis by (auto simp: set_content_length_def load_wp_def)
  next
    case False
    let ?j = "length (web_pages s) - p"
    have "?j < length (web_pages s)" using False by auto
    with I have "setup_page_fine ((web_pages s ! ?j)\<lparr>content_length := n\<rparr>)" by simp
    moreover have "set ((web_pages s)[?j := (web_pages s ! ?j)\<lparr>content_length := n\<rparr>]) \<subseteq>
        insert ((web_pages s ! ?j)\<lparr>content_length := n\<rparr>) (set (web_pages s))"
      by (rule set_update_subset_insert)
    ultimately show ?thesis using False I by (auto simp: set_content_length_def load_wp_def)
  qed
qed

text \<open>A page stays what it was registered as; only its \<open>content_length\<close> changes.\<close>

definition has_page :: "web_page \<Rightarrow> 'z pages_scheme \<Rightarrow> bool" where
  "has_page wp s \<longleftrightarrow> (\<exists>wp' \<in> set (web_pages s). wp'\<lparr>content_length := content_length wp\<rparr> = wp)"

lemma has_page_set_content_length: "keeps (has_page wp) (set_content_length p n)"
proof (rule keepsI)
  fix s :: "'z pages_scheme"
  assume "has_page wp s"
  then obtain k where k: "k < length (web_pages s)" "(web_pages s ! k)\<lparr>content_length := content_length wp\<rparr> = wp"
    by (auto simp: has_page_def in_set_conv_nth)
  let ?j = "length (web_pages s) - p"
  let ?ps = "(web_pages s)[?j := (web_pages s ! ?j)\<lparr>content_length := n\<rparr>]"
  have same: "web_pages (final (set_content_length p n s)) = (if p = 0 \<or> length (web_pages s) < p then web_pages s else ?ps)"
    by (simp add: set_content_length_def load_wp_def)
  have "k < length ?ps" "(?ps ! k)\<lparr>content_length := content_length wp\<rparr> = wp"
    using k by (cases "k = ?j"; simp)+
  then have "\<exists>wp' \<in> set ?ps. wp'\<lparr>content_length := content_length wp\<rparr> = wp" using nth_mem by blast
  then show "has_page wp (final (set_content_length p n s))"
    using \<open>has_page wp s\<close> by (simp add: has_page_def same)
qed

text \<open>With the page registered, that is what a posted form relies on.\<close>

lemma site_ready:
  assumes "site_ok s" and "page_of s WIFI_SETUP_PAGE_PATH \<noteq> None"
  obtains i where "pages_ok s" "first_index (answers WIFI_SETUP_PAGE_PATH) (web_pages s) = Some i"
    "get_callback (web_pages s ! i) = Some ''display_wifi_setup_page''"
    "post_callback (web_pages s ! i) = Some ''post_wifi_setup_page''" "setup_attribs_ok s"
proof -
  have fine: "setup_page_fine wp" if "wp \<in> set (web_pages s)" for wp
    using assms(1) that by (simp add: site_ok_def)
  obtain wp where wp: "wp \<in> set (web_pages s)" "page_key wp = WIFI_SETUP_PAGE_PATH"
    using assms(2) by (auto simp: page_of_def find_None_iff)
  with fine have "answers WIFI_SETUP_PAGE_PATH wp" by (simp add: setup_page_fine_def)
  with wp(1) obtain i where i: "first_index (answers WIFI_SETUP_PAGE_PATH) (web_pages s) = Some i"
    by (cases "first_index (answers WIFI_SETUP_PAGE_PATH) (web_pages s)") auto
  then have "web_pages s ! i \<in> set (web_pages s)" "answers WIFI_SETUP_PAGE_PATH (web_pages s ! i)"
    by (simp_all add: first_index_Some)
  with fine have "get_callback (web_pages s ! i) = Some ''display_wifi_setup_page''"
    "post_callback (web_pages s ! i) = Some ''post_wifi_setup_page''" by (simp_all add: setup_page_fine_def)
  moreover have "pages_ok s" using fine by (simp add: pages_ok_def setup_page_fine_def)
  ultimately show thesis using i assms(1) that by (simp add: site_ok_def)
qed

section \<open>The instances\<close>

lemma keeps_conj: "keeps I m \<Longrightarrow> keeps J m \<Longrightarrow> keeps (\<lambda>s. I s \<and> J s) m"
  by (simp add: keeps_def)

lemma keeps_attribs_post:
  "keeps setup_attribs_ok (post_wifi_setup_page portal_get portal_deliver c p :: ('z portal_scheme, int) prog)"
proof (rule keepsI)
  fix s :: "'z portal_scheme"
  assume I: "setup_attribs_ok s"
  have same: "keeps (\<lambda>t. wifi_setup_attrib t = wifi_setup_attrib s)
      (ob_ws_process_post c (wifi_setup_attrib s) p :: ('z portal_scheme, int \<times> post_attributes list) prog)"
    by (rule keeps_quiet_process) (simp add: quiet_frame_def)
  have stop: "stop_frame (setup_attribs_ok :: 'z portal_scheme \<Rightarrow> bool)"
    by (simp add: stop_frame_def quiet_frame_def setup_attribs_ok_def)
  show "setup_attribs_ok (final (post_wifi_setup_page portal_get portal_deliver c p s))"
  proof (cases "ob_ws_process_post c (wifi_setup_attrib s) p s")
    case (Inl x)
    obtain h t where x: "x = (h, t)" by (cases x)
    have "wifi_setup_attrib t = wifi_setup_attrib s" using keeps_Inl [OF same refl] Inl x by simp
    with I have "setup_attribs_ok t" by (simp add: setup_attribs_ok_def)
    then show ?thesis by (simp add: post_page_parts Inl x)
  next
    case (Inr x)
    obtain rc ap' t where x: "x = ((rc, ap'), t)" by (cases x) auto
    have "setup_attribs_ok (t\<lparr>wifi_setup_attrib := ap'\<rparr>)"
      using process_post_attribs [of c "wifi_setup_attrib s" p s rc ap' t] Inr x I by (simp add: setup_attribs_ok_def)
    from keepsD [OF keeps_save_and_restart [OF stop] this] show ?thesis by (simp add: post_page_parts Inr x)
  qed
qed

lemma keeps_attribs_page: "keeps setup_attribs_ok (portal_page f c p)"
  unfolding portal_page_def
  by (intro keeps_if keeps_attribs_post keeps_quiet_get) (simp add: quiet_frame_def setup_attribs_ok_def)

lemma site_frame: "server_frame (site_ok :: 'z portal_scheme \<Rightarrow> bool)"
proof -
  have "keeps (setup_attribs_ok :: 'z portal_scheme \<Rightarrow> bool) (set_content_length p n)" for p n
    by (rule keepsI) (simp add: set_content_length_def load_wp_def setup_attribs_ok_def)
  then have "keeps (site_ok :: 'z portal_scheme \<Rightarrow> bool) (set_content_length p n)" for p n
    unfolding site_ok_def [abs_def] by (intro keeps_conj site_set_content_length)
  moreover have "keeps (site_ok :: 'z portal_scheme \<Rightarrow> bool) (set_accepted f i v)"
    "keeps (site_ok :: 'z portal_scheme \<Rightarrow> bool) (set_tid f i v)" for f i v
    unfolding set_accepted_def set_tid_def
    by (rule keeps_modify, simp add: site_ok_def setup_attribs_ok_def split: family.split)+
  ultimately show ?thesis
    by (simp add: server_frame_def sock_frame_def site_ok_def setup_attribs_ok_def)
qed

lemma tables_frame: "server_frame (tables_ok :: 'z web_scheme \<Rightarrow> bool)"
proof -
  have "keeps (tables_ok :: 'z web_scheme \<Rightarrow> bool) (set_content_length p n)" for p n
    by (rule keepsI) (simp add: set_content_length_def load_wp_def tables_ok_def)
  moreover have "keeps (tables_ok :: 'z web_scheme \<Rightarrow> bool) (set_accepted f i v)" "keeps (tables_ok :: 'z web_scheme \<Rightarrow> bool) (set_tid f i v)" for f i v
    unfolding set_accepted_def set_tid_def
    by (rule keeps_modify, simp add: tables_ok_iff split: family.split)+
  ultimately show ?thesis by (simp add: server_frame_def sock_frame_def tables_ok_iff)
qed

lemma keeps_tables_page: "keeps tables_ok (portal_page f c p)"
  by (rule keeps_page) (simp add: page_frame_def stop_frame_def quiet_frame_def tables_ok_iff)

interpretation tables: server_invariant portal_page tables_ok
  by unfold_locales (rule tables_frame, rule keeps_tables_page)

lemma keeps_site_page: "keeps site_ok (portal_page f c p)"
  unfolding site_ok_def [abs_def]
  by (intro keeps_conj keeps_attribs_page keeps_page)
    (simp add: page_frame_def stop_frame_def quiet_frame_def)

interpretation site: server_invariant portal_page site_ok
  by unfold_locales (rule site_frame, rule keeps_site_page)

lemma has_page_frame: "server_frame (has_page wp :: 'z web_scheme \<Rightarrow> bool)"
proof -
  have "keeps (has_page wp :: 'z web_scheme \<Rightarrow> bool) (set_accepted f i v)"
    "keeps (has_page wp :: 'z web_scheme \<Rightarrow> bool) (set_tid f i v)" for f i v
    unfolding set_accepted_def set_tid_def by (rule keeps_modify, simp add: has_page_def split: family.split)+
  then show ?thesis
    by (simp add: server_frame_def sock_frame_def has_page_set_content_length) (simp add: has_page_def)
qed

lemma keeps_has_page: "keeps (has_page wp) (portal_page f c p)"
  by (rule keeps_page) (simp add: page_frame_def stop_frame_def quiet_frame_def has_page_def)

interpretation pages: server_invariant portal_page "has_page wp" for wp
  by unfold_locales (rule has_page_frame, rule keeps_has_page)

text \<open>What no thread changes: the build, and the platform.\<close>

definition world_of :: "'z kern_scheme \<Rightarrow> config \<times> replier \<times> (string \<rightharpoonup> string)" where
  "world_of s = (cfg s, reply s, flash0 s)"

lemma world_frame: "server_frame (\<lambda>s :: 'z web_scheme. world_of s = w)"
proof -
  have "keeps (\<lambda>s :: 'z web_scheme. world_of s = w) (set_content_length p n)" for p n
    by (rule keepsI) (simp add: set_content_length_def load_wp_def world_of_def)
  moreover have "keeps (\<lambda>s :: 'z web_scheme. world_of s = w) (set_accepted f i v)"
    "keeps (\<lambda>s :: 'z web_scheme. world_of s = w) (set_tid f i v)" for f i v
    unfolding set_accepted_def set_tid_def by (rule keeps_modify, simp add: world_of_def split: family.split)+
  ultimately show ?thesis by (simp add: server_frame_def sock_frame_def world_of_def)
qed

lemma keeps_world_page: "keeps (\<lambda>s. world_of s = w) (portal_page f c p)"
  by (rule keeps_page) (simp add: page_frame_def stop_frame_def quiet_frame_def world_of_def)

interpretation world: server_invariant portal_page "\<lambda>s. world_of s = w" for w
  by unfold_locales (rule world_frame, rule keeps_world_page)

end
