(* ===== verification/Ob_Life.thy ===== *)
theory Ob_Life
  imports Ob_Site Ob_Boot
begin

text \<open>
  The life of a device between power-up and restart: the application and the work queue call the
  functions of the library in any order, events arrive, and the threads of the web server run
  between them. Whatever has happened, a form posted to a registered setup page is stored, and
  the next start-up joins the network it names.
\<close>

section \<open>The operations\<close>

datatype dev_op =
    OpWifiInit | OpWifiDeinit | OpWifiScan | OpWifiConnect
  | OpApEnable | OpApWork | OpApDisable
  | OpEvent net_event
  | OpPortalInit
  | OpPage string string "fnptr option" "fnptr option" int
  | OpServerStart | OpServerWork
  | OpListen family
  | OpWrite string string nat
  | OpReset
  | OpReboot

definition dev_do :: "dev_op \<Rightarrow> ('z portal_scheme, unit) prog" where
  "dev_do op = (case op of
     OpWifiInit \<Rightarrow> bnd (ob_wifi_init portal_deliver) (\<lambda>_. ret ())
   | OpWifiDeinit \<Rightarrow> ob_wifi_deinit portal_deliver
   | OpWifiScan \<Rightarrow> bnd ob_wifi_scan (\<lambda>_. ret ())
   | OpWifiConnect \<Rightarrow> bnd (ob_wifi_connect portal_deliver) (\<lambda>_. ret ())
   | OpApEnable \<Rightarrow> ob_wifi_ap_enable
   | OpApWork \<Rightarrow> ob_wifi_ap_enable_work
   | OpApDisable \<Rightarrow> ob_wifi_ap_disable
   | OpEvent e \<Rightarrow> portal_deliver e
   | OpPortalInit \<Rightarrow> bnd ob_cp_init (\<lambda>_. ret ())
   | OpPage path ttl g p f \<Rightarrow> bnd (ob_ws_register_web_page path ttl g p f) (\<lambda>_. ret ())
   | OpServerStart \<Rightarrow> start_web_server portal_deliver
   | OpServerWork \<Rightarrow> do_start_web_server portal_deliver
   | OpListen f \<Rightarrow> bnd (web_setup f) (\<lambda>_. ret ())
   | OpWrite k v n \<Rightarrow> bnd (ob_nvs_data_write k v n) (\<lambda>_. ret ())
   | OpReset \<Rightarrow> ob_nvs_data_factory_reset
   | OpReboot \<Rightarrow> ob_reboot portal_deliver)"

text \<open>A page of the application: its strings fit, and a request for the setup page is not for it.\<close>

definition op_ok :: "dev_op \<Rightarrow> bool" where
  "op_ok op \<longleftrightarrow> (case op of
     OpPage path ttl g p f \<Rightarrow> length (cstr path) < 32 \<and> length (cstr ttl) < 32 \<and>
       \<not> prefix (cstr path) WIFI_SETUP_PAGE_PATH
   | _ \<Rightarrow> True)"

lemma op_ok_simps [simp]:
  "op_ok OpPortalInit" "op_ok OpServerStart" "op_ok OpServerWork" "op_ok (OpListen f)"
  by (simp_all add: op_ok_def)

inductive sys_step ::
  "bool \<Rightarrow> 'z portal_scheme \<times> handler list \<Rightarrow> 'z portal_scheme \<times> handler list \<Rightarrow> bool" for errs where
  api: "op_ok op \<Longrightarrow> dev_do op s = Inr (u, s') \<Longrightarrow> sys_step errs (s, ths) (s', ths)"
| thread: "srv_step portal_page errs st st' \<Longrightarrow> sys_step errs st st'"

text \<open>
  The states of the life of a device that starts as the sources initialise it: every variable of
  every file has its initial value, and nothing is allocated.
\<close>

definition powered_up :: "'z portal_scheme \<Rightarrow> bool" where
  "powered_up s \<longleftrightarrow> nvs_static s \<and> certs_static s \<and> ota_static s \<and> wifi_static s \<and>
     web_static s \<and> portal_static s \<and> ssid_heap s = Map.empty \<and> trace s = []"

lemma powered_upD:
  assumes "powered_up s"
  shows "web_pages s = []" "wifi_setup_attrib s = wifi_setup_attrib_init" "tables_ok s"
  using assms by (simp_all add: powered_up_def web_static_def portal_static_def tables_ok_iff Let_def)

inductive sys_reach :: "bool \<Rightarrow> 'z portal_scheme \<Rightarrow> 'z portal_scheme \<times> handler list \<Rightarrow> bool" for errs s0 where
  start: "sys_reach errs s0 (s0, [])"
| step: "sys_reach errs s0 st \<Longrightarrow> sys_step errs st st' \<Longrightarrow> sys_reach errs s0 st'"

section \<open>What an operation leaves alone\<close>

definition dev_ok :: "config \<times> replier \<times> (string \<rightharpoonup> string) \<Rightarrow> 'z portal_scheme \<Rightarrow> bool" where
  "dev_ok w s \<longleftrightarrow> site_ok s \<and> tables_ok s \<and> world_of s = w"

text \<open>What of the state these say anything about.\<close>

definition site_view ::
  "'z portal_scheme \<Rightarrow> web_page list \<times> post_attributes list \<times> int list \<times> int list \<times> config \<times> replier \<times> (string \<rightharpoonup> string)" where
  "site_view s = (web_pages s, wifi_setup_attrib s, tcp4_accepted s, tcp6_accepted s, world_of s)"

lemma site_view_frame: "quiet_frame (\<lambda>s. site_view s = v)" "stop_frame (\<lambda>s. site_view s = v)"
  "sock_frame (\<lambda>s. site_view s = v)" "start_frame (\<lambda>s. site_view s = v)" "list_frame (\<lambda>s. site_view s = v)"
  by (simp_all add: quiet_frame_def stop_frame_def sock_frame_def start_frame_def list_frame_def site_view_def world_of_def)

lemma dev_ok_view:
  assumes "dev_ok w s" and "site_view t = site_view s"
  shows "dev_ok w t"
  using assms by (auto simp: dev_ok_def world_of_def site_ok_def tables_ok_iff setup_attribs_ok_def site_view_def)

lemma keeps_dev_ok:
  fixes m :: "('z portal_scheme, 'b) prog"
  assumes "\<And>v. keeps (\<lambda>s. site_view s = v) m"
  shows "keeps (dev_ok w) m"
proof (rule keepsI)
  fix s :: "'z portal_scheme"
  assume "dev_ok w s"
  moreover have "site_view (final (m s)) = site_view s" using keepsD [OF assms] by blast
  ultimately show "dev_ok w (final (m s))" by (rule dev_ok_view)
qed

lemma keeps_view_wifi:
  "keeps (\<lambda>s. site_view s = v) (ob_wifi_init portal_deliver)"
  "keeps (\<lambda>s. site_view s = v) (ob_wifi_deinit portal_deliver)"
  "keeps (\<lambda>s. site_view s = v) ob_wifi_scan"
  "keeps (\<lambda>s. site_view s = v) (ob_wifi_connect portal_deliver)"
  "keeps (\<lambda>s. site_view s = v) ob_wifi_ap_enable"
  "keeps (\<lambda>s. site_view s = v) ob_wifi_ap_enable_work"
  "keeps (\<lambda>s. site_view s = v) ob_wifi_ap_disable"
proof -
  let ?I = "\<lambda>s :: 'z portal_scheme. site_view s = v"
  note q = keeps_quiet_deliver [OF site_view_frame(1)]
  have upd: "site_view (s\<lparr>trace := t\<rparr>) = site_view s" for s :: "'z portal_scheme" and t
    by (simp add: site_view_def world_of_def)
  show dis: "keeps ?I ob_wifi_ap_disable"
    by (rule keeps_quiet_ap_disable [OF site_view_frame(1)])
  show "keeps ?I ob_wifi_ap_enable"
    unfolding ob_wifi_ap_enable_def by (intro keeps_ext0) (simp add: upd)
  show con: "keeps ?I (ob_wifi_connect portal_deliver)"
    unfolding ob_wifi_connect_def
    by (intro keeps_intros keeps_exts keeps_modify keeps_connect_loop q) (simp_all add: site_view_def world_of_def)
  show "keeps ?I (ob_wifi_init portal_deliver)"
    unfolding ob_wifi_init_def wifi_read_ssid_def wifi_read_psk_def ob_nvs_data_read_def Let_def
    by (intro keeps_intros keeps_exts keeps_modify con q keeps_start_init_ap keeps_start_hostname
        keeps_start_nvs_init site_view_frame) (simp_all add: site_view_def world_of_def)
  show "keeps ?I (ob_wifi_deinit portal_deliver)"
    unfolding ob_wifi_deinit_def ob_wifi_HasAP_def
    by (intro keeps_intros keeps_exts keeps_modify dis q) (simp_all add: site_view_def world_of_def)
  show "keeps ?I ob_wifi_scan"
    unfolding ob_wifi_scan_def
    by (intro keeps_intros keeps_exts keeps_modify keeps_ssid_init_list site_view_frame) (simp_all add: site_view_def world_of_def)
  show "keeps ?I ob_wifi_ap_enable_work"
    unfolding ob_wifi_ap_enable_work_def Let_def
    by (intro keeps_intros keeps_exts keeps_modify) (simp_all add: site_view_def world_of_def)
qed

lemma keeps_view_server:
  "keeps (\<lambda>s. site_view s = v) (start_web_server portal_deliver)"
  "keeps (\<lambda>s. site_view s = v) (web_setup f)"
  "keeps (\<lambda>s. site_view s = v) (ob_nvs_data_write k x n)"
  "keeps (\<lambda>s. site_view s = v) ob_nvs_data_factory_reset"
  "keeps (\<lambda>s. site_view s = v) (ob_reboot portal_deliver)"
proof -
  let ?I = "\<lambda>s :: 'z portal_scheme. site_view s = v"
  note q = keeps_quiet_deliver [OF site_view_frame(1)]
  have "keeps ?I (init_web_server portal_deliver)"
    unfolding init_web_server_def add_credential_def ob_cert_get_def ob_cert_len_def init_certs_def
    by (intro keeps_intros keeps_exts keeps_modify q keeps_start_nvs_init site_view_frame)
      (auto simp: site_view_def world_of_def split: ob_cert_type.split intro!: keeps_intros keeps_modify)
  then show "keeps ?I (start_web_server portal_deliver)"
    unfolding start_web_server_def by (intro keeps_intros keeps_exts) (simp_all add: site_view_def world_of_def)
  show "keeps ?I (web_setup f)"
    unfolding web_setup_def set_listen_sock_def
    by (intro keeps_intros keeps_exts keeps_modify) (simp_all add: site_view_def world_of_def split: family.split)
  show "keeps ?I (ob_nvs_data_write k x n)"
    unfolding ob_nvs_data_write_def by (intro keeps_intros keeps_exts) (simp_all add: site_view_def world_of_def)
  show "keeps ?I ob_nvs_data_factory_reset"
    unfolding ob_nvs_data_factory_reset_def ob_nvs_factory_reset_callback_def Let_def
    by (intro keeps_intros keeps_exts) (simp_all add: site_view_def world_of_def)
  show "keeps ?I (ob_reboot portal_deliver)"
    by (rule keeps_stop_reboot [OF site_view_frame(2)])
qed

text \<open>Starting the listeners empties the tables, and does not change their lengths.\<close>

lemma keeps_bnd_gets: "(\<And>v. keeps (\<lambda>s. I s \<and> f s = v) (k v)) \<Longrightarrow> keeps I (bnd (gets f) k)"
  by (force simp: keeps_def)

lemma keeps_start_listener: "keeps (dev_ok w) start_listener"
  unfolding start_listener_def Let_def
  by (intro keeps_bnd_gets keeps_thn keeps_cond keeps_ext0 keeps_modify)
    (simp_all add: dev_ok_def world_of_def site_ok_def tables_ok_iff setup_attribs_ok_def)

lemma keeps_server_work: "keeps (dev_ok w) (do_start_web_server portal_deliver)"
  unfolding do_start_web_server_def
  by (intro keeps_intros keeps_exts keeps_modify keeps_start_listener keeps_dev_ok keeps_quiet_deliver site_view_frame)
    (simp_all add: dev_ok_def world_of_def site_ok_def tables_ok_iff setup_attribs_ok_def)

section \<open>Registering a page\<close>

lemma fine_setup_page:
  "setup_page_fine (new_page WIFI_SETUP_PAGE_PATH WIFI_SETUP_TITLE (Some ''display_wifi_setup_page'')
     (Some ''post_wifi_setup_page'') f)"
  by (simp add: setup_page_fine_def page_ok_new answers_def WIFI_SETUP_PAGE_PATH_def WIFI_SETUP_TITLE_def)
    (simp add: new_page_def MAX_WEB_PATH_NAME_LEN_def)

lemma fine_app_page:
  assumes "length (cstr path) < 32" "length (cstr ttl) < 32" "\<not> prefix (cstr path) WIFI_SETUP_PAGE_PATH"
  shows "setup_page_fine (new_page path ttl g p f)"
proof -
  have "page_key (new_page path ttl g p f) = cstr path"
    using assms(1) by (simp add: path_key_def MAX_WEB_PATH_NAME_LEN_def)
  moreover have "cstr (pathname (new_page path ttl g p f)) = cstr path"
    using assms(1) by (simp add: new_page_def MAX_WEB_PATH_NAME_LEN_def)
  ultimately show ?thesis
    using assms by (auto simp: setup_page_fine_def page_ok_new answers_def)
qed

lemma keeps_register:
  assumes "setup_page_fine (new_page path ttl g p f)"
  shows "keeps (dev_ok w) (ob_ws_register_web_page path ttl g p f :: ('z portal_scheme, int) prog)"
  by (rule keepsI)
    (use assms in \<open>auto simp: register_apply dev_ok_def world_of_def site_ok_def tables_ok_iff setup_attribs_ok_def split: option.split\<close>)

section \<open>The invariant of the life of a device\<close>

lemma keeps_dev_do: "op_ok op \<Longrightarrow> keeps (dev_ok w) (dev_do op :: ('z portal_scheme, unit) prog)"
proof (cases op)
  case OpPortalInit
  then show ?thesis
    unfolding dev_do_def ob_cp_init_def by (simp add: keeps_bnd keeps_ret keeps_register fine_setup_page)
next
  case (OpPage path ttl g p f)
  moreover assume "op_ok op"
  ultimately show ?thesis
    unfolding dev_do_def by (simp add: keeps_bnd keeps_ret keeps_register fine_app_page op_ok_def)
next
  case (OpEvent e)
  then show ?thesis
    unfolding dev_do_def by (simp add: keeps_dev_ok keeps_quiet_deliver site_view_frame)
qed (simp_all add: dev_do_def keeps_bnd keeps_ret keeps_dev_ok keeps_view_wifi keeps_view_server keeps_server_work)

definition sys_ok ::
  "config \<times> replier \<times> (string \<rightharpoonup> string) \<Rightarrow> 'z portal_scheme \<times> handler list \<Rightarrow> bool" where
  "sys_ok w st \<longleftrightarrow> dev_ok w (fst st) \<and> (\<forall>th \<in> set (snd st). slot_in_table (fst st) th)"

lemma slot_in_tables:
  "dev_ok w s \<Longrightarrow> dev_ok w s' \<Longrightarrow> slot_in_table s th \<Longrightarrow> slot_in_table s' th"
  by (auto simp: slot_in_table_def dev_ok_def tables_ok_def world_of_def split: prod.splits)

lemma srv_step_dev_ok: "srv_step portal_page errs st st' \<Longrightarrow> dev_ok w (fst st) \<Longrightarrow> dev_ok w (fst st')"
  using site.srv_step_keeps [of errs st st'] tables.srv_step_keeps [of errs st st'] world.srv_step_keeps [of errs st st' w]
  by (simp add: dev_ok_def)

lemma slots_frame: "\<forall>th \<in> set ths. slot_in_table s th \<Longrightarrow> dev_ok w s \<Longrightarrow> dev_ok w s' \<Longrightarrow> \<forall>th \<in> set ths. slot_in_table s' th"
  using slot_in_tables by blast

lemma slot_phase: "slot_in_table s (lf, cf, i, ph) = slot_in_table s (lf, cf, i, ph')"
  by (simp add: slot_in_table_def)

lemma srv_step_slots:
  assumes "srv_step portal_page errs st st'" and "sys_ok w st"
  shows "sys_ok w st'"
proof -
  have dev: "dev_ok w (fst st)" "dev_ok w (fst st')"
    using assms(2) srv_step_dev_ok [OF assms(1), of w] by (simp_all add: sys_ok_def)
  have "\<forall>th \<in> set (snd st'). slot_in_table (fst st) th \<or> slot_in_table (fst st') th"
    using assms(1)
  proof cases
    case (accept f s r s' ths)
    with assms(2) process_tcp_slot [OF accept(4)] show ?thesis by (auto simp: sys_ok_def)
  next
    case (read lf i s c r failed s' xs cf ys)
    with assms(2) show ?thesis by (auto simp: sys_ok_def slot_in_table_def)
  next
    case (serve c r s s' xs lf cf i ys)
    with assms(2) show ?thesis by (auto simp: sys_ok_def slot_in_table_def)
  next
    case (close c lf cf i s s' xs ys)
    with assms(2) show ?thesis by (auto simp: sys_ok_def)
  next
    case (stop s r s' ths)
    with assms(2) show ?thesis by (auto simp: sys_ok_def)
  qed
  with dev slot_in_tables show ?thesis by (fastforce simp: sys_ok_def)
qed

lemma sys_step_ok:
  assumes "sys_step errs st st'" and "sys_ok w st"
  shows "sys_ok w st'"
  using assms(1)
proof cases
  case (api op s u s' ths)
  have "dev_ok w s" using assms(2) api(1) by (simp add: sys_ok_def)
  from keeps_Inr [OF keeps_dev_do [OF api(3)] this api(4)] have "dev_ok w s'" .
  with assms(2) api \<open>dev_ok w s\<close> slot_in_tables show ?thesis by (fastforce simp: sys_ok_def)
next
  case thread
  from srv_step_slots [OF this assms(2)] show ?thesis .
qed

lemma sys_reach_ok:
  assumes "powered_up s0" and "sys_reach errs s0 st"
  shows "sys_ok (world_of s0) st"
  using assms(2)
proof induction
  case start
  show ?case
    using powered_upD [OF assms(1)] by (simp add: sys_ok_def dev_ok_def site_ok_def setup_attribs_ok_def
        attrs_ok_def wifi_setup_attrib_init_def NAME_BUFFER_SIZE_def)
next
  case (step st st')
  from sys_step_ok [OF step(2,3)] show ?case .
qed

lemma life_ready:
  fixes s0 :: "'z portal_scheme"
  assumes "powered_up s0" and "sys_reach errs s0 (s, ths)" and "(lf, cf, i, Reading) \<in> set ths"
    and "page_of s WIFI_SETUP_PAGE_PATH \<noteq> None"
  obtains k where "i < length (accepted lf s)" "pages_ok s"
    "first_index (answers WIFI_SETUP_PAGE_PATH) (web_pages s) = Some k"
    "post_callback (web_pages s ! k) = Some ''post_wifi_setup_page''" "setup_attribs_ok s" "world_of s = world_of s0"
proof -
  have ok: "site_ok s" "slot_in_table s (lf, cf, i, Reading)" "world_of s = world_of s0"
    using sys_reach_ok [OF assms(1,2)] assms(3) by (auto simp: sys_ok_def dev_ok_def)
  from site_ready [OF ok(1) assms(4)] ok show thesis by (auto simp: slot_in_table_def intro: that)
qed

section \<open>No page is lost\<close>

lemma has_page_view: "has_page wp s \<Longrightarrow> site_view t = site_view s \<Longrightarrow> has_page wp t"
  by (simp add: has_page_def site_view_def)

lemma keeps_has_page_view:
  fixes m :: "('z portal_scheme, 'b) prog"
  assumes "\<And>v. keeps (\<lambda>s. site_view s = v) m"
  shows "keeps (has_page wp) m"
  by (rule keepsI) (use keepsD [OF assms] has_page_view in blast)

lemma has_page_register: "keeps (has_page wp) (ob_ws_register_web_page path ttl g p f)"
  by (rule keepsI) (auto simp: register_apply has_page_def split: option.split)

lemma has_page_start_listener: "keeps (has_page wp) start_listener"
  unfolding start_listener_def Let_def
  by (intro keeps_intros keeps_exts keeps_modify) (simp_all add: has_page_def)

lemma has_page_server_work: "keeps (has_page wp) (do_start_web_server portal_deliver)"
  unfolding do_start_web_server_def
  by (intro keeps_intros keeps_exts keeps_modify has_page_start_listener keeps_quiet_deliver)
    (simp_all add: has_page_def quiet_frame_def)

lemma has_page_dev_do: "keeps (has_page wp) (dev_do op :: ('z portal_scheme, unit) prog)"
proof (cases op)
  case (OpEvent e)
  then show ?thesis
    unfolding dev_do_def by (simp add: keeps_has_page_view keeps_quiet_deliver site_view_frame)
qed (simp_all add: dev_do_def ob_cp_init_def keeps_bnd keeps_ret keeps_has_page_view keeps_view_wifi keeps_view_server
    has_page_server_work has_page_register)

lemma has_page_step: "sys_step errs st st' \<Longrightarrow> has_page wp (fst st) \<Longrightarrow> has_page wp (fst st')"
proof (induction rule: sys_step.induct)
  case (api op s u s' ths)
  then show ?case using keeps_Inr [OF has_page_dev_do _ api(2), of wp] by simp
next
  case (thread st st')
  from pages.srv_step_keeps [OF this] show ?case .
qed

lemma has_page_steps: "(sys_step errs)\<^sup>*\<^sup>* st st' \<Longrightarrow> has_page wp (fst st) \<Longrightarrow> has_page wp (fst st')"
  by (induction rule: rtranclp_induct) (auto dest: has_page_step)

lemma sys_reach_steps: "(sys_step errs)\<^sup>*\<^sup>* st st' \<Longrightarrow> sys_reach errs s0 st \<Longrightarrow> sys_reach errs s0 st'"
  by (induction rule: rtranclp_induct) (auto intro: sys_reach.step)

lemma pages_stay:
  fixes s0 :: "'z portal_scheme"
  assumes "powered_up s0" "sys_reach errs s0 (s, ths)" "(sys_step errs)\<^sup>*\<^sup>* (s, ths) (s', ths')"
  shows "(\<forall>wp \<in> set (web_pages s). \<exists>wp' \<in> set (web_pages s'). wp'\<lparr>content_length := content_length wp\<rparr> = wp) \<and>
    (page_of s' WIFI_SETUP_PAGE_PATH \<noteq> None \<longrightarrow>
      (\<exists>i. first_index (answers WIFI_SETUP_PAGE_PATH) (web_pages s') = Some i \<and>
        get_callback (web_pages s' ! i) = Some ''display_wifi_setup_page'' \<and>
        post_callback (web_pages s' ! i) = Some ''post_wifi_setup_page'')) \<and>
    attrs_ok (wifi_setup_attrib s') \<and> map pa_name (wifi_setup_attrib s') = [''ssid'', ''password''] \<and>
    (\<forall>(lf, cf, i, ph) \<in> set ths'. i < length (accepted lf s'))"
proof -
  have "has_page wp s" if "wp \<in> set (web_pages s)" for wp
    using that by (auto simp: has_page_def intro: bexI [of _ wp])
  with has_page_steps [OF assms(3)] have kept: "\<forall>wp \<in> set (web_pages s). has_page wp s'" by simp
  have "sys_ok (world_of s0) (s', ths')"
    by (rule sys_reach_ok [OF assms(1) sys_reach_steps [OF assms(3,2)]])
  then have ok: "site_ok s'" "\<forall>th \<in> set ths'. slot_in_table s' th" by (simp_all add: sys_ok_def dev_ok_def)
  have first: "\<exists>i. first_index (answers WIFI_SETUP_PAGE_PATH) (web_pages s') = Some i \<and>
      get_callback (web_pages s' ! i) = Some ''display_wifi_setup_page'' \<and>
      post_callback (web_pages s' ! i) = Some ''post_wifi_setup_page''" if "page_of s' WIFI_SETUP_PAGE_PATH \<noteq> None"
    using site_ready [OF ok(1) that] by blast
  have "attrs_ok (wifi_setup_attrib s')" "map pa_name (wifi_setup_attrib s') = [''ssid'', ''password'']"
    "\<forall>(lf, cf, i, ph) \<in> set ths'. i < length (accepted lf s')"
    using ok by (simp_all add: site_ok_def setup_attribs_ok_def slot_in_table_def)
  with kept first show ?thesis unfolding has_page_def by blast
qed

section \<open>From power-up to the network\<close>

lemma life_stores:
  fixes s0 :: "'z portal_scheme"
  assumes life: "powered_up s0" "sys_reach errs s0 (s, ths)" "(lf, cf, i, Reading) \<in> set ths"
      "page_of s WIFI_SETUP_PAGE_PATH \<noteq> None"
    and form: "rx s (accepted lf s ! i) = map RxByte (setup_request hs1 hs2 x y) @ es" "setup_headers_ok hs1 hs2"
    and vals: "form_value n x" "form_value n' y"
    and saves: "\<And>tr k v. reply s0 tr (SettingsSaveOne k v) = Some 0"
  shows "store (final (client_conn_handler portal_page lf cf i s)) =
    (store s)(NVS_SETTINGS_ID_WIFI_SSID \<mapsto> x, NVS_SETTINGS_ID_WIFI_PSK \<mapsto> y)"
proof -
  obtain k where k: "i < length (accepted lf s)" "pages_ok s"
    "first_index (answers WIFI_SETUP_PAGE_PATH) (web_pages s) = Some k"
    "post_callback (web_pages s ! k) = Some ''post_wifi_setup_page''" "setup_attribs_ok s" "world_of s = world_of s0"
    using life by (rule life_ready)
  have "reply s = reply s0" using k(6) by (simp add: world_of_def)
  with saves have "\<And>tr k v. reply s tr (SettingsSaveOne k v) = Some 0" by simp
  from request_stores [OF refl k(1) form k(2-5) vals this] show ?thesis .
qed

lemma life_joins:
  fixes s0 t :: "'z portal_scheme"
  assumes life: "powered_up s0" "sys_reach errs s0 (s, ths)" "(lf, cf, i, Reading) \<in> set ths"
      "page_of s WIFI_SETUP_PAGE_PATH \<noteq> None"
    and form: "rx s (accepted lf s ! i) = map RxByte (setup_request hs1 hs2 x y) @ es" "setup_headers_ok hs1 hs2"
    and cred: "good_credential (WIFI_SSID_MAX_LEN (cfg t)) x" "good_credential (WIFI_PSK_MAX_LEN (cfg t)) y"
    and saves: "\<And>tr k v. reply s0 tr (SettingsSaveOne k v) = Some 0"
    and next_boot: "booted (store (final (client_conn_handler portal_page lf cf i s))) t" "boots_fine t"
    and iface: "\<And>tr. reply t tr (NetIfGet wifi_sta) = Some iface" "iface \<noteq> 0"
  shows "\<exists>r t'. ob_wifi_init portal_deliver t = Inr (r, t') \<and>
    NetMgmt (NET_REQUEST_WIFI_CONNECT x y) iface \<in> set (trace t')"
proof -
  note st = life_stores [OF life form cred [THEN good_credentialD(2)] saves]
  have "has_credentials x y t"
    using booted_credentials [OF next_boot(1) [unfolded st], of x y] cred
    by (simp add: good_credential_def form_value_def)
  from boot_asks_for_stored [OF next_boot(2) this iface] show ?thesis .
qed

lemma life_open:
  fixes s0 t :: "'z portal_scheme"
  assumes life: "powered_up s0" "sys_reach errs s0 (s, ths)" "(lf, cf, i, Reading) \<in> set ths"
      "page_of s WIFI_SETUP_PAGE_PATH \<noteq> None"
    and form: "rx s (accepted lf s ! i) = map RxByte (setup_request hs1 hs2 x []) @ es" "setup_headers_ok hs1 hs2"
    and x: "form_value n x" and saves: "\<And>tr k v. reply s0 tr (SettingsSaveOne k v) = Some 0"
    and next_boot: "booted (store (final (client_conn_handler portal_page lf cf i s))) t" "boots_fine t"
      "\<not> CONFIG_ONBOARDING_PRECONFIG_WIFI (cfg t)"
  shows "store (final (client_conn_handler portal_page lf cf i s)) NVS_SETTINGS_ID_WIFI_SSID = Some x \<and>
    (\<exists>t'. ob_wifi_init portal_deliver t = Inr (0, t') \<and> connects t' = 0 \<and>
      (CONFIG_ONBOARDING_WIFI_AP (cfg t) \<longrightarrow> KWorkSchedule ''start_ap_work'' 500 \<in> set (trace t')))"
proof -
  have "form_value 0 []" by (simp add: form_value_def VALUE_BUFFER_SIZE_def)
  note st = life_stores [OF life form x this saves]
  from boot_without_credentials [OF next_boot] st show ?thesis by (simp add: no_value_def)
qed

end
