(* ===== verification/Ob_Setup.thy ===== *)
theory Ob_Setup
  imports Ob_Server
begin

text \<open>
  The setup page of src/ob_captive_portal.c as its handlers run it: from the scan it waits for to
  the bytes on the socket, and what becomes of it when two handlers run it at once. The handlers
  share one buffer with the networks, one array with the fields of the form, and the length of the
  content in the page; the page is cut where a handler waits or calls the platform, and the parts
  of two handlers are put in an order.
\<close>

section \<open>The page in parts\<close>

definition display_scan :: "(net_event \<Rightarrow> ('z portal_scheme, unit) prog) \<Rightarrow> ('z portal_scheme, unit) prog" where
  "display_scan deliver =
     thn (set_scan_done_callback (Some ''client_scan_done''))
     (bnd ob_wifi_scan (\<lambda>_. bnd (ext_wait deliver (KSemTake scan_done_sem None)) (\<lambda>_. ret ())))"

definition display_send :: "int \<Rightarrow> ('z portal_scheme, int) prog" where
  "display_send client =
     bnd (gets content_wifi_body_ssid) (\<lambda>body.
     bnd (send_setup_page client body) (\<lambda>rc.
     thn (cond (body \<noteq> BodyNull) (modify (\<lambda>s. s\<lparr>content_wifi_body_ssid := BodyFreed\<rparr>))) (ret rc)))"

lemma display_in_parts:
  "display_wifi_setup_page deliver client s = thn (display_scan deliver) (display_send client) s"
  by (simp add: display_wifi_setup_page_def display_scan_def display_send_def split: sum.split)

section \<open>From the scan to the page\<close>

definition page_same :: "'z portal_scheme \<Rightarrow> 'z portal_scheme \<Rightarrow> bool" where
  "page_same t s \<longleftrightarrow> reply s = reply t \<and> arrivals s = arrivals t \<and> cfg s = cfg t \<and> tx s = tx t \<and>
     wire s = wire t \<and> web_pages s = web_pages t \<and> wifi_inited s = wifi_inited t"

lemma page_same_frame: "list_frame (\<lambda>s. page_same t s \<and> done_callback s = cb \<and> content_wifi_body_ssid s = b)"
  by (simp add: list_frame_def page_same_def)

lemma page_same_trans: "page_same s t \<Longrightarrow> page_same t u \<Longrightarrow> page_same s u"
  by (simp add: page_same_def)

lemma portal_scan_results:
  "each (map scan_event rs) (portal_deliver :: net_event \<Rightarrow> ('z portal_scheme, unit) prog) =
   each (map scan_entry rs) (\<lambda>(x, n, sec, str). ssid_add_item x n sec str)"
proof (induction rs)
  case (Cons r rs)
  obtain x n rssi sec where r: "r = (x, n, rssi, sec)" by (cases r)
  have "(portal_deliver (scan_event r) :: ('z portal_scheme, unit) prog) = ssid_add_item x n sec (scan_strength rssi)"
    by (rule HOL.ext) (simp add: r scan_event_def portal_deliver_def web_deliver_def
        wifi_deliver_def ob_wifi_mgmt_event_handler_def handle_wifi_scan_result_def ob_web_event_handler_def
        split: sum.split)
  moreover have "scan_entry r = (x, n, sec, scan_strength rssi)" by (simp add: r scan_entry_def)
  ultimately show ?case unfolding list.map each.simps Cons.IH by simp
qed simp

lemma portal_scan_done:
  assumes "done_callback s = Some ''client_scan_done''"
  shows "portal_deliver WIFI_SCAN_DONE s = thn (client_scan_done (ssid_head s)) ssid_init_list s"
  using assms
  by (simp add: portal_deliver_def web_deliver_def wifi_deliver_def ob_wifi_mgmt_event_handler_def
      handle_wifi_scan_done_def portal_cb_def ob_web_event_handler_def split: sum.split)

text \<open>The options of a list of networks.\<close>

definition networks_text :: "ap list \<Rightarrow> string" where
  "networks_text l = concat (map option_text (map ap_name l))"

definition networks_fit :: "'z kern_scheme \<Rightarrow> ap list \<Rightarrow> bool" where
  "networks_fit s l \<longleftrightarrow> (\<forall>a \<in> set l. length (ap_name a) \<le> WIFI_SSID_MAX_LEN (cfg s))"

lemma heap_names_aps: "heap_names s as = map ap_name (aps_at (ssid_heap s) as)"
  by (simp add: heap_names_def aps_at_def ap_of_def)

lemma scan_fills_buffer:
  fixes s :: "'z portal_scheme"
  assumes l: "list_models s []" "has_memory (reply s)" and cb: "done_callback s = Some ''client_scan_done''"
    and found: "rs \<noteq> []" "l = fold ap_add_result (map scan_entry rs) []" and fit: "networks_fit s l"
  shows "\<exists>s' n. each (map scan_event rs @ [WIFI_SCAN_DONE]) portal_deliver s = Inr ((), s') \<and>
    page_same s s' \<and> list_models s' [] \<and> content_wifi_body_ssid s' = Body n (networks_text l) \<and>
    length (networks_text l) < n"
proof -
  let ?I = "\<lambda>t. page_same s t \<and> done_callback t = Some ''client_scan_done'' \<and> content_wifi_body_ssid t = content_wifi_body_ssid s"
  have "names_distinct []" by (simp add: names_distinct_def)
  from sl.add_all [OF l(1) this, of "map scan_entry rs"] l(2) found(2) obtain s1 where
    s1: "each (map scan_event rs) portal_deliver s = Inr ((), s1)" "list_models s1 l"
    unfolding portal_scan_results by blast
  have "keeps ?I (each (map scan_event rs) portal_deliver)"
    unfolding portal_scan_results by (intro keeps_intros keeps_ssid_add_item page_same_frame)
  from keeps_Inr [OF this _ s1(1)] cb have same1: "?I s1" by (simp add: page_same_def)
  obtain as where as: "ssid_rep s1 as" "aps_at (ssid_heap s1) as = l" and env: "responsive s1"
    using s1(2) by (auto simp: list_models_def ssid_models_def)
  have "as \<noteq> []" using found_nonempty [OF found(1)] found(2) as(2) by (auto simp: aps_at_def)
  have names: "heap_names s1 as = map ap_name l" by (simp add: heap_names_aps as(2))
  have "names_fit s1 as"
    using fit same1 as(2) by (auto simp: names_fit_def networks_fit_def page_same_def aps_at_def ap_of_def)
  from client_scan_done_state [OF as(1) this \<open>as \<noteq> []\<close> env] same1 l(2) obtain n tr where
    s2: "client_scan_done (ssid_head s1) s1 = Inr ((), s1\<lparr>brk := Suc (brk s1),
        content_wifi_body_ssid := Body n (networks_text l), trace := tr\<rparr>)" "length (networks_text l) < n"
    unfolding names networks_text_def by (auto simp: page_same_def)
  define s2 where "s2 = s1\<lparr>brk := Suc (brk s1), content_wifi_body_ssid := Body n (networks_text l), trace := tr\<rparr>"
  have "ssid_rep s2 as" using as(1) by (auto simp: ssid_rep_def s2_def)
  then have "list_models s2 l" using s1(2) as(2) by (auto simp: list_models_def ssid_models_def s2_def)
  from sl.clear_law [OF this] obtain s3 where s3: "ssid_init_list s2 = Inr ((), s3)" "list_models s3 []" by blast
  have "keeps (\<lambda>t. page_same s t \<and> done_callback t = Some ''client_scan_done'' \<and>
      content_wifi_body_ssid t = Body n (networks_text l)) ssid_init_list"
    by (rule keeps_ssid_init_list [OF page_same_frame])
  from keeps_Inr [OF this _ s3(1)] same1 have "page_same s s3" "content_wifi_body_ssid s3 = Body n (networks_text l)"
    by (simp_all add: s2_def page_same_def)
  with s1(1) s2 s3 same1 portal_scan_done [of s1] show ?thesis
    by (auto simp: each_append s2_def split: sum.splits)
qed

text \<open>The state in which the page is asked for, and in which a scan finds the networks \<open>l\<close>.\<close>

definition scan_finds :: "'z portal_scheme \<Rightarrow> ap list \<Rightarrow> bool" where
  "scan_finds s l \<longleftrightarrow> (\<exists>l0. list_models s l0) \<and> has_memory (reply s) \<and> wifi_inited s \<and> networks_fit s l \<and>
     (\<exists>rs. rs \<noteq> [] \<and> l = fold ap_add_result (map scan_entry rs) [] \<and>
       (\<forall>tr. arrivals s tr (KSemTake scan_done_sem None) = map scan_event rs @ [WIFI_SCAN_DONE]))"

lemma display_scan_fills:
  fixes s :: "'z portal_scheme"
  assumes "scan_finds s l"
  shows "\<exists>s' n. display_scan portal_deliver s = Inr ((), s') \<and> page_same s s' \<and> scan_finds s' l \<and>
    content_wifi_body_ssid s' = Body n (networks_text l) \<and> length (networks_text l) < n"
proof -
  obtain l0 rs where l0: "list_models s l0" and rs: "rs \<noteq> []" "l = fold ap_add_result (map scan_entry rs) []"
    and arr: "\<And>tr. arrivals s tr (KSemTake scan_done_sem None) = map scan_event rs @ [WIFI_SCAN_DONE]"
    and h: "has_memory (reply s)" "wifi_inited s" "networks_fit s l"
    using assms by (auto simp: scan_finds_def)
  let ?cb = "Some ''client_scan_done''" and ?take = "KSemTake scan_done_sem None"
  let ?I = "\<lambda>t. page_same s t \<and> done_callback t = ?cb \<and> content_wifi_body_ssid t = content_wifi_body_ssid s"
  define s1 where "s1 = s\<lparr>done_callback := ?cb\<rparr>"
  have "list_models s1 l0" using l0 by (auto simp: s1_def list_models_def ssid_models_def ssid_rep_def)
  from scan_starts [OF this] h(2) obtain s2 where s2: "ob_wifi_scan s1 = Inr (0, s2)" "list_models s2 []"
    by (auto simp: s1_def)
  have "keeps ?I ob_wifi_scan"
    unfolding ob_wifi_scan_def
    by (intro keeps_intros keeps_ext keeps_ext0 keeps_ssid_init_list page_same_frame) (simp_all add: page_same_def)
  from keeps_Inr [OF this _ s2(1)] have same2: "?I s2" by (simp add: s1_def page_same_def)
  have "responsive s2" using s2(2) by (simp add: list_models_def)
  then obtain r where r: "reply s2 (trace s2) ?take = Some r" by (auto elim: repliesE)
  define s3 where "s3 = s2\<lparr>trace := trace s2 @ [?take]\<rparr>"
  have same3: "?I s3" "list_models s3 []" using same2 s2(2) by (simp_all add: s3_def page_same_def)
  have "has_memory (reply s3)" "networks_fit s3 l" using same3(1) h by (simp_all add: page_same_def networks_fit_def)
  with scan_fills_buffer [OF same3(2) _ _ rs] same3(1) obtain s4 n where
    s4: "each (map scan_event rs @ [WIFI_SCAN_DONE]) portal_deliver s3 = Inr ((), s4)" "page_same s3 s4"
      "list_models s4 []" "content_wifi_body_ssid s4 = Body n (networks_text l)" "length (networks_text l) < n"
    by blast
  have run: "display_scan portal_deliver s = Inr ((), s4)"
    using s2(1) r s4(1) arr same2
    by (simp add: display_scan_def set_scan_done_callback_def s1_def s3_def ext_wait_def page_same_def)
  have same4: "page_same s s4" using same3(1) s4(2) page_same_trans by blast
  then have "scan_finds s4 l"
    using s4(3) h rs arr by (auto simp: scan_finds_def page_same_def networks_fit_def)
  with run same4 s4(4,5) show ?thesis by blast
qed

text \<open>The page on the socket.\<close>

definition page_sendable :: "'z portal_scheme \<Rightarrow> int \<Rightarrow> string \<Rightarrow> bool" where
  "page_sendable s c txt \<longleftrightarrow> length txt < 10 ^ 6 \<and> pages_ok s \<and> length (menu_text (web_pages s)) < WEB_MENU_LEN \<and>
     sock_law s c \<and> sock_live s c (length (header_text (int (length (concat (setup_parts txt)))) WIFI_SETUP_TITLE
       (menu_text (web_pages s)) @ concat (setup_parts txt)))"

lemma page_sendable_same: "page_same s t \<Longrightarrow> page_sendable t c txt = page_sendable s c txt"
  by (simp add: page_same_def page_sendable_def pages_ok_def sock_law_def sock_live_def)

lemma display_send_whole:
  assumes "content_wifi_body_ssid s = Body n txt" "length txt < n" and "page_sendable s c txt"
  shows "\<exists>s' content. display_send c s = Inr (0, s') \<and> content_wifi_body_ssid s' = BodyFreed \<and>
    wire s' c = wire s c @ http1_1_OK @ ''Content-Length: '' @ dec_nat (length content) @ [CR, LF] @
       CONTENT_TYPE @ content \<and> content = page_head WIFI_SETUP_TITLE (menu_text (web_pages s)) @ concat (setup_parts txt)"
proof -
  have h: "length txt < 10 ^ 6" "pages_ok s" "length (menu_text (web_pages s)) < WEB_MENU_LEN" "sock_law s c"
    "sock_live s c (length (header_text (int (length (concat (setup_parts txt)))) WIFI_SETUP_TITLE
       (menu_text (web_pages s)) @ concat (setup_parts txt)))"
    using assms(3) by (simp_all add: page_sendable_def)
  obtain t content where t: "send_setup_page c (Body n txt) s = Inr (0, t)"
    "wire t c = wire s c @ http1_1_OK @ ''Content-Length: '' @ dec_nat (length content) @ [CR, LF] @
       CONTENT_TYPE @ content" "content = page_head WIFI_SETUP_TITLE (menu_text (web_pages s)) @ concat (setup_parts txt)"
    using send_setup_page_whole [OF assms(2) h] by blast
  then show ?thesis using assms(1)
    by (intro exI [of _ "t\<lparr>content_wifi_body_ssid := BodyFreed\<rparr>"] exI [of _ content]) (simp add: display_send_def)
qed

lemma setup_page_sent:
  assumes "scan_finds s l" and "page_sendable s c (networks_text l)"
  shows "\<exists>s' content. display_wifi_setup_page portal_deliver c s = Inr (0, s') \<and>
    wire s' c = wire s c @ http1_1_OK @ ''Content-Length: '' @ dec_nat (length content) @ [CR, LF] @
       CONTENT_TYPE @ content \<and> content = page_head WIFI_SETUP_TITLE (menu_text (web_pages s)) @ concat (setup_parts (networks_text l))"
proof -
  obtain s1 n where s1: "display_scan portal_deliver s = Inr ((), s1)" "page_same s s1"
    "content_wifi_body_ssid s1 = Body n (networks_text l)" "length (networks_text l) < n"
    using display_scan_fills [OF assms(1)] by blast
  have "page_sendable s1 c (networks_text l)" using assms(2) page_sendable_same [OF s1(2)] by simp
  from display_send_whole [OF s1(3,4) this] s1(1,2) show ?thesis
    unfolding display_in_parts by (auto simp: page_same_def)
qed

section \<open>Two handlers on the page\<close>

text \<open>
  Two clients ask for the page: the first has its networks, the second is served whole and frees
  the buffer, the first goes on and reads it.
\<close>

lemma two_pages_read_freed:
  assumes "scan_finds s l" and "page_sendable s b (networks_text l)"
  shows "\<exists>s1 s2. display_scan portal_deliver s = Inr ((), s1) \<and>
    display_wifi_setup_page portal_deliver b s1 = Inr (0, s2) \<and> display_send a s2 = Inl (UseAfterFree, s2)"
proof -
  obtain s1 where s1: "display_scan portal_deliver s = Inr ((), s1)" "page_same s s1" "scan_finds s1 l"
    using display_scan_fills [OF assms(1)] by blast
  obtain t n where t: "display_scan portal_deliver s1 = Inr ((), t)" "page_same s1 t"
    "content_wifi_body_ssid t = Body n (networks_text l)" "length (networks_text l) < n"
    using display_scan_fills [OF s1(3)] by blast
  have "page_sendable t b (networks_text l)"
    using assms(2) page_sendable_same [OF s1(2)] page_sendable_same [OF t(2)] by simp
  from display_send_whole [OF t(3,4) this] obtain s2 where
    s2: "display_send b t = Inr (0, s2)" "content_wifi_body_ssid s2 = BodyFreed" by blast
  have "display_wifi_setup_page portal_deliver b s1 = Inr (0, s2)"
    using t(1) s2(1) by (simp add: display_in_parts)
  moreover have "display_send a s2 = Inl (UseAfterFree, s2)"
    using s2(2) by (simp add: display_send_def send_setup_page_def)
  ultimately show ?thesis using s1(1) by blast
qed

section \<open>Two handlers on the form\<close>

definition form_read :: "int \<Rightarrow> nat \<Rightarrow> int \<Rightarrow> ('z portal_scheme, int) prog" where
  "form_read client p len =
     thn (set_content_length p len)
     (bnd (gets wifi_setup_attrib) (\<lambda>ap.
      bnd (ob_ws_process_post client ap p) (\<lambda>(rc, ap').
      thn (modify (\<lambda>s. s\<lparr>wifi_setup_attrib := ap'\<rparr>)) (ret rc))))"

definition form_save_ssid :: "('z portal_scheme, int) prog" where
  "form_save_ssid = save_attrib NVS_SETTINGS_ID_WIFI_SSID WIFI_SETUP_ATTRIB_SSID"

definition form_save_psk :: "('z portal_scheme, int) prog" where
  "form_save_psk = save_attrib NVS_SETTINGS_ID_WIFI_PSK WIFI_SETUP_ATTRIB_PASSWORD"

lemma form_in_parts:
  "thn (set_content_length p len) (post_wifi_setup_page run_page deliver client p) s =
   bnd (form_read client p len) (\<lambda>rc.
   bnd (if rc \<ge> 0 then bnd form_save_ssid (\<lambda>_. form_save_psk) else ret rc) (\<lambda>rc.
   bnd (ob_web_server_display_home run_page client) (\<lambda>_.
     if rc \<ge> 0 then thn (ob_reboot deliver) (ret rc) else ret rc))) s"
  by (simp add: post_wifi_setup_page_def form_read_def form_save_ssid_def form_save_psk_def split: sum.split)

lemma form_read_apply:
  assumes i: "i < length (web_pages s)" and rx: "rx s c = map RxByte (setup_form x y) @ es"
    and ap: "setup_attribs_ok s" and x: "form_value n x" and y: "form_value n' y"
  shows "\<exists>s'. form_read c (length (web_pages s) - i) (int (length (setup_form x y))) s = Inr (0, s') \<and>
    setup_attribs_ok s' \<and> map attr_value (wifi_setup_attrib s') = [x, y] \<and>
    (\<forall>a \<in> set (wifi_setup_attrib s'). terminated (valuebuffer a)) \<and>
    reply s' = reply s \<and> flash0 s' = flash0 s \<and> trace s' = trace s \<and> (\<forall>d. d \<noteq> c \<longrightarrow> rx s' d = rx s d) \<and>
    length (web_pages s') = length (web_pages s)"
proof -
  let ?fs = "[(''ssid'', x), (''password'', y)]"
  let ?n = "int (length (setup_form x y))" and ?p = "length (web_pages s) - i"
  let ?ap = "fold assign ?fs (wifi_setup_attrib s)"
  define wp where "wp = (web_pages s ! i)\<lparr>content_length := ?n\<rparr>"
  define t where "t = s\<lparr>web_pages := (web_pages s)[i := wp]\<rparr>"
  have names: "map pa_name (wifi_setup_attrib s) = [''ssid'', ''password'']" "attrs_ok (wifi_setup_attrib s)"
    using ap by (simp_all add: setup_attribs_ok_def)
  then have "pa_name ` set (wifi_setup_attrib s) = {''ssid'', ''password''}"
    by (metis list.set_map list.simps(15) list.set(1))
  then have good: "\<forall>f \<in> set ?fs. good_field (wifi_setup_attrib t) f"
    using x y by (simp add: good_field_def form_value_def t_def)
  have nul: "nul_free x" "nul_free y" using x y by (simp_all add: form_value_def)
  note two = two_fields [OF names(2,1) nul]
  have len: "set_content_length ?p ?n s = Inr ((), t)"
    using set_content_length_at [OF i] by (simp add: t_def wp_def)
  have wp: "load_wp ?p t = Inr (wp, t)" using load_wp_at [of i t] i by (simp add: t_def)
  define ap' where "ap' = ?ap"
  have same: "wifi_setup_attrib t = wifi_setup_attrib s" by (simp add: t_def)
  have "ob_ws_process_post c (wifi_setup_attrib t) ?p t = Inr ((0, ap'), t\<lparr>rx := (rx t)(c := es)\<rparr>)"
    unfolding ap'_def same [symmetric]
    by (rule process_post_form [OF wp _ _ _ good])
      (use rx names in \<open>simp_all add: wp_def t_def setup_form_def\<close>)
  moreover define u where "u = t\<lparr>rx := (rx t)(c := es), wifi_setup_attrib := ap'\<rparr>"
  ultimately have run: "form_read c ?p ?n s = Inr (0, u)" using len by (simp add: form_read_def t_def)
  have names': "map pa_name ap' = [''ssid'', ''password'']" unfolding ap'_def fold_assign_names by (rule names(1))
  from this [THEN arg_cong, of length] obtain a b where ab: "ap' = [a, b]" by (auto simp: length_Suc_conv)
  have "attrs_ok ap'"
    unfolding ap'_def using x y by (simp add: assign_ok [OF assign_ok [OF names(2)]] form_value_def)
  moreover note names'
  ultimately have ok: "setup_attribs_ok u" unfolding setup_attribs_ok_def u_def by simp
  have u: "wifi_setup_attrib u = [a, b]" unfolding u_def ab by simp
  have vals: "attr_value a = x" "attr_value b = y" "terminated (valuebuffer a)" "terminated (valuebuffer b)"
    using two unfolding ap'_def [symmetric] ab by simp_all
  have "reply u = reply s" "flash0 u = flash0 s" "trace u = trace s" "\<forall>d. d \<noteq> c \<longrightarrow> rx u d = rx s d"
    "length (web_pages u) = length (web_pages s)"
    by (simp_all add: u_def t_def)
  with run ok u vals show ?thesis by (intro exI [of _ u]) simp
qed

lemma form_save_apply:
  assumes "map attr_value (wifi_setup_attrib s) = [x, y]" and "\<forall>a \<in> set (wifi_setup_attrib s). terminated (valuebuffer a)"
    and "\<And>tr k v. reply s tr (SettingsSaveOne k v) = Some 0"
  shows "form_save_ssid s = Inr (0, s\<lparr>trace := trace s @ [SettingsSaveOne NVS_SETTINGS_ID_WIFI_SSID x]\<rparr>)"
    and "form_save_psk s = Inr (0, s\<lparr>trace := trace s @ [SettingsSaveOne NVS_SETTINGS_ID_WIFI_PSK y]\<rparr>)"
proof -
  obtain a b where ab: "wifi_setup_attrib s = [a, b]" "attr_value a = x" "attr_value b = y"
    using assms(1) by (auto simp: map_eq_Cons_conv)
  show "form_save_ssid s = Inr (0, s\<lparr>trace := trace s @ [SettingsSaveOne NVS_SETTINGS_ID_WIFI_SSID x]\<rparr>)"
    using save_attrib_apply [of s WIFI_SETUP_ATTRIB_SSID "valuebuffer a" NVS_SETTINGS_ID_WIFI_SSID 0] ab assms(2,3)
    by (simp add: form_save_ssid_def WIFI_SETUP_ATTRIB_SSID_def attr_value_def)
  show "form_save_psk s = Inr (0, s\<lparr>trace := trace s @ [SettingsSaveOne NVS_SETTINGS_ID_WIFI_PSK y]\<rparr>)"
    using save_attrib_apply [of s WIFI_SETUP_ATTRIB_PASSWORD "valuebuffer b" NVS_SETTINGS_ID_WIFI_PSK 0] ab assms(2,3)
    by (simp add: form_save_psk_def WIFI_SETUP_ATTRIB_PASSWORD_def attr_value_def)
qed

text \<open>
  Two forms: the first handler has read its form and saved the name, the second reads its form, the
  first goes on and saves the key.
\<close>

definition two_forms :: "int \<Rightarrow> int \<Rightarrow> nat \<Rightarrow> int \<Rightarrow> int \<Rightarrow> ('z portal_scheme, int) prog" where
  "two_forms a b p n m =
     thn (form_read a p n) (thn form_save_ssid (thn (form_read b p m) form_save_psk))"

lemma two_forms_mixed:
  assumes i: "i < length (web_pages s)" and "a \<noteq> b" and ap: "setup_attribs_ok s"
    and rx: "rx s a = map RxByte (setup_form x1 y1) @ es1" "rx s b = map RxByte (setup_form x2 y2) @ es2"
    and x: "form_value n1 x1" "form_value n2 x2" and y: "form_value m1 y1" "form_value m2 y2"
    and saves: "\<And>tr k v. reply s tr (SettingsSaveOne k v) = Some 0"
  shows "\<exists>s'. two_forms a b (length (web_pages s) - i) (int (length (setup_form x1 y1))) (int (length (setup_form x2 y2))) s =
      Inr (0, s') \<and>
    store s' = (store s)(NVS_SETTINGS_ID_WIFI_SSID \<mapsto> x1, NVS_SETTINGS_ID_WIFI_PSK \<mapsto> y2)"
proof -
  let ?p = "length (web_pages s) - i"
  obtain s1 where s1: "form_read a ?p (int (length (setup_form x1 y1))) s = Inr (0, s1)" "setup_attribs_ok s1"
    "map attr_value (wifi_setup_attrib s1) = [x1, y1]" "\<forall>a \<in> set (wifi_setup_attrib s1). terminated (valuebuffer a)"
    "reply s1 = reply s" "flash0 s1 = flash0 s" "trace s1 = trace s" "rx s1 b = rx s b"
    "length (web_pages s1) = length (web_pages s)"
    using form_read_apply [OF i rx(1) ap x(1) y(1)] \<open>a \<noteq> b\<close> by auto
  define s2 where "s2 = s1\<lparr>trace := trace s1 @ [SettingsSaveOne NVS_SETTINGS_ID_WIFI_SSID x1]\<rparr>"
  have save1: "form_save_ssid s1 = Inr (0, s2)"
    using form_save_apply(1) [OF s1(3,4)] saves s1(5) by (simp add: s2_def)
  have i2: "i < length (web_pages s2)" and rx2: "rx s2 b = map RxByte (setup_form x2 y2) @ es2" and ap2: "setup_attribs_ok s2"
    using i s1 rx(2) by (simp_all add: s2_def setup_attribs_ok_def)
  obtain s3 where s3: "form_read b ?p (int (length (setup_form x2 y2))) s2 = Inr (0, s3)"
    "map attr_value (wifi_setup_attrib s3) = [x2, y2]" "\<forall>a \<in> set (wifi_setup_attrib s3). terminated (valuebuffer a)"
    "reply s3 = reply s2" "flash0 s3 = flash0 s2" "trace s3 = trace s2"
    using form_read_apply [OF i2 rx2 ap2 x(2) y(2)] s1(9) by (auto simp: s2_def)
  have save2: "form_save_psk s3 = Inr (0, s3\<lparr>trace := trace s3 @ [SettingsSaveOne NVS_SETTINGS_ID_WIFI_PSK y2]\<rparr>)"
    using form_save_apply(2) [OF s3(2,3)] saves s1(5) s3(4) by (simp add: s2_def)
  show ?thesis
    using s1(1) save1 s3(1) save2 s1(5-7) s3(4-6) saves
    by (simp add: two_forms_def s2_def store_step_def store_at_two)
qed

text \<open>The device that starts on that store joins with them.\<close>

lemma mixed_forms_join:
  assumes "i < length (web_pages s)" "a \<noteq> b" "setup_attribs_ok s"
    and "rx s a = map RxByte (setup_form x1 y1) @ es1" "rx s b = map RxByte (setup_form x2 y2) @ es2"
    and x: "good_credential (WIFI_SSID_MAX_LEN (cfg t)) x1" "form_value n2 x2"
    and y: "form_value m1 y1" "good_credential (WIFI_PSK_MAX_LEN (cfg t)) y2"
    and "\<And>tr k v. reply s tr (SettingsSaveOne k v) = Some 0"
    and boot: "booted (store (final (two_forms a b (length (web_pages s) - i) (int (length (setup_form x1 y1)))
      (int (length (setup_form x2 y2))) s))) t"
    and iface: "\<And>tr. reply t tr (NetIfGet wifi_sta) = Some iface" "iface \<noteq> 0"
    and fine: "boots_fine t"
  shows "\<exists>r t'. ob_wifi_init portal_deliver t = Inr (r, t') \<and>
    NetMgmt (NET_REQUEST_WIFI_CONNECT x1 y2) iface \<in> set (trace t')"
proof -
  obtain s' where s': "two_forms a b (length (web_pages s) - i) (int (length (setup_form x1 y1)))
      (int (length (setup_form x2 y2))) s = Inr (0, s')"
    "store s' = (store s)(NVS_SETTINGS_ID_WIFI_SSID \<mapsto> x1, NVS_SETTINGS_ID_WIFI_PSK \<mapsto> y2)"
    using two_forms_mixed [OF assms(1-5) good_credentialD(2) [OF x(1)] x(2) y(1) good_credentialD(2) [OF y(2)] assms(10)]
    by blast
  have "has_credentials x1 y2 t"
    using booted_credentials [OF boot [unfolded s'(1) final_simps s'(2)], of x1 y2] x(1) y(2)
    by (simp add: good_credential_def form_value_def)
  from boot_asks_for_stored [OF fine this iface] show ?thesis .
qed

end
