(* ===== verification/Ob_Device.thy ===== *)
theory Ob_Device
  imports Ob_Life Ob_Setup
begin

text \<open>
  A concrete device: a build configuration, a platform that keeps its settings in memory and
  answers every other call, and the state of the program when it starts. The theorems of the
  development are applied to it to show that their hypotheses hold of a device.
\<close>

definition device_cfg :: config where
  "device_cfg = \<lparr>CONFIG_ONBOARDING_WIFI = True, CONFIG_ONBOARDING_WIFI_AP = True,
     CONFIG_ONBOARDING_WEB_SERVER = True, CONFIG_ONBOARDING_WEB_SERVER_HTTPS = False,
     CONFIG_ONBOARDING_BLUETOOTH = True, CONFIG_ONBOARDING_BLUETOOTH_GATT = True,
     CONFIG_ONBOARDING_OTA = False, CONFIG_ONBOARDING_OTA_PROVIDER = None,
     CONFIG_ONBOARDING_PRECONFIG_WIFI = False, CONFIG_ONBOARDING_CERTS_GENERATE_CERTS = True,
     CONFIG_NET_DHCPV4_SERVER = True, CONFIG_NET_HOSTNAME_DYNAMIC = False, CONFIG_NET_IPV4 = True,
     CONFIG_NET_IPV6 = False, CONFIG_NET_CONNECTION_MANAGER = False, CONFIG_ESP32_STA_AUTO_DHCP = False,
     CONFIG_USE_READY_LED = False, CONFIG_ONBOARDING_LOG_LEVEL_DBG = False, CONFIG_HTTP_NUM_HANDLERS = 2,
     CONFIG_ONBOARDING_WIFI_SSID = ''home'', CONFIG_ONBOARDING_WIFI_PSK = ''password'',
     CONFIG_ONBOARDING_WIFI_AP_SSID = ''OB_'', CONFIG_ONBOARDING_WIFI_AP_PSK = ''onboarding'',
     CONFIG_ONBOARDING_WIFI_AP_ADDRESS = ''192.168.4.1'', CONFIG_BT_DEVICE_NAME = ''onboarding'', WIFI_SSID_MAX_LEN = 32, WIFI_PSK_MAX_LEN = 64,
     NET_HOSTNAME_MAX_LEN = 63, ca_certificate = ''ca'', device_certificate = ''cert'',
     device_private_key = ''key''\<rparr>"

text \<open>There is an interface and memory; a reset does not come back; the rest succeeds.\<close>

definition device_reply :: "call list \<Rightarrow> call \<Rightarrow> int option" where
  "device_reply tr c = (case c of
     Net (IfGet _) \<Rightarrow> Some 1
   | Kernel (Alloc _) \<Rightarrow> Some 1
   | Kernel Reboot \<Rightarrow> None
   | _ \<Rightarrow> Some 0)"

definition device_data :: "call list \<Rightarrow> call \<Rightarrow> string" where
  "device_data tr c = (case c of Net (IfGetLinkAddr _) \<Rightarrow> ''abcdef'' | _ \<Rightarrow> [])"

text \<open>The state at power-up with settings \<open>m\<close> stored, a page list and scripts for the sockets.\<close>

definition device :: "(string \<times> string) list \<Rightarrow> web_page list \<Rightarrow> (int \<Rightarrow> rx_event list)
   \<Rightarrow> (int \<Rightarrow> (nat \<Rightarrow> int) list) \<Rightarrow> portal" where
  "device m ps rxs txs =
     \<lparr>cfg = device_cfg, reply = mem_reply m device_reply, data = mem_data m device_reply device_data,
      arrivals = (\<lambda>_ _. []), listing = mem_listing m device_reply, flash0 = map_of m, trace = [], brk = 0,
      nvs_data_inited = False, mMirrorCallback = None, certs_initialized = False,
      ota_poll_interval = 0, ota_vtable = None,
      ssid_heap = Map.empty, ssid_head = 0, ssid_tail = 0,
      wifi_inited = False, wifi_connect_status_succeded = False, mHasAp = False,
      gSSID = replicate 32 NUL, gSSID_len = 0, gPSK = replicate 64 NUL, gPSK_len = 0,
      wifi_ap_ssid = [], wifi_ap_psk = [], wifi_ap_address = [], done_callback = None,
      address_add_callback = None, rx = rxs, tx = txs, wire = (\<lambda>_. []),
      web_pages = ps, web_server_inited = False, mWebServerRunning = False, web_connected = False,
      want_to_quit = False, tcp4_listen_sock = - 1, tcp6_listen_sock = - 1,
      tcp4_accepted = [5, - 1], tcp6_accepted = [- 1, - 1], tcp4_handler_tid = [1, 0], tcp6_handler_tid = [0, 0],
      content_wifi_body_ssid = BodyNull, wifi_setup_attrib = wifi_setup_attrib_init\<rparr>"

lemma device_fields [simp]:
  "cfg (device m ps r t) = device_cfg" "reply (device m ps r t) = mem_reply m device_reply"
  "trace (device m ps r t) = []" "brk (device m ps r t) = 0" "flash0 (device m ps r t) = map_of m"
  "nvs_data_inited (device m ps r t) = False" "ssid_head (device m ps r t) = 0"
  "ssid_heap (device m ps r t) = Map.empty" "ssid_tail (device m ps r t) = 0"
  "wifi_inited (device m ps r t) = False" "mHasAp (device m ps r t) = False"
  "rx (device m ps r t) = r" "tx (device m ps r t) = t" "wire (device m ps r t) = (\<lambda>_. [])"
  "web_pages (device m ps r t) = ps" "want_to_quit (device m ps r t) = False"
  "wifi_setup_attrib (device m ps r t) = wifi_setup_attrib_init"
  "gSSID (device m ps r t) = replicate 32 NUL" "gPSK (device m ps r t) = replicate 64 NUL"
  "arrivals (device m ps r t) = (\<lambda>_ _. [])" "listing (device m ps r t) = mem_listing m device_reply"
  "data (device m ps r t) = mem_data m device_reply device_data" "ota_vtable (device m ps r t) = None"
  "mWebServerRunning (device m ps r t) = False" "tcp4_listen_sock (device m ps r t) = - 1"
  "tcp6_listen_sock (device m ps r t) = - 1" "ota_poll_interval (device m ps r t) = 0"
  by (simp_all add: device_def)

lemma device_accepted [simp]:
  "accepted AF_INET (device m ps r t) = [5, - 1]" "accepted AF_INET6 (device m ps r t) = [- 1, - 1]"
  by (simp_all add: device_def accepted_def)

lemma device_responsive [simp]: "replies (mem_reply m device_reply)"
  by (auto simp: replies_def mem_reply_def device_reply_def split: call.split settings_call.split
      kernel_call.split net_call.split option.split)

lemma device_memory [simp]: "has_memory (mem_reply m device_reply)"
  by (simp add: has_memory_def mem_reply_def device_reply_def)

lemma device_nvs [simp]: "distinct (map fst m) \<Longrightarrow> nvs_env_ok (device m ps r t)"
  by (simp add: nvs_env_ok_def settings_law_mem) (simp add: mem_reply_def device_reply_def)

lemma device_reply_simps [simp]:
  "mem_reply m device_reply tr (NetIfGet k) = Some 1"
  "mem_reply m device_reply tr (Malloc n) = Some 1"
  "mem_reply m device_reply tr (SettingsSaveOne x v) = Some 0"
  "mem_reply m device_reply tr (SettingsDelete x) = Some 0"
  "mem_reply m device_reply tr SettingsLoadSubtree = Some 0"
  "mem_reply m device_reply tr SettingsSubsysInit = Some 0"
  "mem_reply m device_reply tr (NetMgmt q i) = Some 0"
  "mem_reply m device_reply tr SysReboot = None"
  "mem_reply m device_reply tr (KSemTake sm x3) = Some 0"
  "mem_reply m device_reply tr (KSemGive sm) = Some 0"
  "mem_reply m device_reply tr (Zsock z) = Some 0"
  by (simp_all add: mem_reply_def device_reply_def deletable_def)

text \<open>The sending side of a socket that takes all it is given.\<close>

definition takes_all :: "nat \<Rightarrow> (nat \<Rightarrow> int) list" where
  "takes_all n = replicate n int"

lemma takes_all_law [simp]: "tx_law (takes_all n)"
  by (simp add: tx_law_def takes_all_def)

lemma takes_all_live [simp]: "tx_live (takes_all n) k \<longleftrightarrow> k \<le> n"
  by (auto simp: tx_live_def takes_all_def)

text \<open>The setup page as registered.\<close>

definition setup_page :: web_page where
  "setup_page = new_page WIFI_SETUP_PAGE_PATH WIFI_SETUP_TITLE (Some ''display_wifi_setup_page'')
     (Some ''post_wifi_setup_page'') 3"

lemma setup_page_ok [simp]: "page_ok setup_page"
  unfolding setup_page_def by (rule page_ok_new) (simp_all add: WIFI_SETUP_PAGE_PATH_def WIFI_SETUP_TITLE_def)

lemma setup_page_path [simp]: "cstr (pathname setup_page) = WIFI_SETUP_PAGE_PATH"
  by (simp add: setup_page_def new_page_def MAX_WEB_PATH_NAME_LEN_def WIFI_SETUP_PAGE_PATH_def)

lemma setup_page_title [simp]: "cstr (title setup_page) = WIFI_SETUP_TITLE"
  by (simp add: setup_page_def new_page_def MAX_WEB_TITLE_LEN_def WIFI_SETUP_TITLE_def)

lemma setup_page_callbacks [simp]:
  "get_callback setup_page = Some ''display_wifi_setup_page''"
  "post_callback setup_page = Some ''post_wifi_setup_page''" "flags setup_page = 3"
  by (simp_all add: setup_page_def new_page_def)

lemma device_list [simp]: "list_models (device m ps r t) []"
  by (auto simp: list_models_def ssid_models_def ssid_rep_def aps_at_def intro!: exI [of _ "[]"])

lemma attrib_init_ok [simp]: "attrs_ok wifi_setup_attrib_init"
  by (simp add: attrs_ok_def wifi_setup_attrib_init_def NAME_BUFFER_SIZE_def)

lemma attrib_init_names [simp]: "map pa_name wifi_setup_attrib_init = [''ssid'', ''password'']"
  by (simp add: wifi_setup_attrib_init_def)

section \<open>A form being posted\<close>

text \<open>The setup page is registered, and socket 5 delivers the form.\<close>

definition posting :: portal where
  "posting = device [] [setup_page\<lparr>content_length := int (length (setup_form ''home'' ''secret12''))\<rparr>]
     (\<lambda>_. map RxByte (setup_form ''home'' ''secret12'')) (\<lambda>_. takes_all 5000)"

lemma posting_facts:
  "load_wp 1 posting = Inr (setup_page\<lparr>content_length := int (length (setup_form ''home'' ''secret12''))\<rparr>, posting)"
  "content_length (setup_page\<lparr>content_length := int (length (setup_form ''home'' ''secret12''))\<rparr>) =
     int (length (setup_form ''home'' ''secret12''))"
  "rx posting 5 = map RxByte (setup_form ''home'' ''secret12'') @ []" "setup_attribs_ok posting"
  by (simp_all add: posting_def load_wp_def setup_attribs_ok_def)

lemma posting_saves: "reply posting tr (SettingsSaveOne k v) = Some 0"
  by (simp add: posting_def)

lemma subseq_length_name:
  "subseq length_name xs \<longleftrightarrow> greedy xs length_name = []"
  by (simp add: greedy_subseq)

lemma requesting_headers: "setup_headers_ok [''Host: d''] [''Accept: y'']"
  by (simp add: setup_headers_ok_def subseq_length_name plain_line_def length_name_def http_lines_def
      request_line_def method_text_def crlf_def WIFI_SETUP_PAGE_PATH_def)

lemma good_home: "good_credential 32 ''home''" "good_credential 64 ''secret12''"
  by (simp_all add: good_credential_def form_value_def VALUE_BUFFER_SIZE_def)

lemmas home_values = good_home [THEN good_credentialD(2)]

text \<open>The device after the restart.\<close>

definition restart_on :: "string \<Rightarrow> string \<Rightarrow> portal" where
  "restart_on x y = device [(NVS_SETTINGS_ID_WIFI_PSK, y), (NVS_SETTINGS_ID_WIFI_SSID, x)]
     [] (\<lambda>_. []) (\<lambda>_. [])"

definition after_post :: portal where
  "after_post = restart_on ''home'' ''secret12''"

text \<open>The same with an open network.\<close>

lemma open_values: "form_value 32 ''cafe''" "form_value 64 []"
  by (simp_all add: form_value_def VALUE_BUFFER_SIZE_def)

lemma open_preconfig: "\<not> CONFIG_ONBOARDING_PRECONFIG_WIFI (cfg (restart_on x y))"
  by (simp add: restart_on_def device_cfg_def)

lemma connect_loop_first:
  "connect_loop deliver req 20 r = bnd (ext req) (\<lambda>r. if r = 0 then ret 0
     else bnd (ext_wait deliver (KMsleep 1000)) (\<lambda>_. connect_loop deliver req 19 r))"
proof -
  have "(20::nat) = Suc 19" by simp
  then show ?thesis by (simp only: connect_loop.simps)
qed

section \<open>A device from power-up to the form\<close>

text \<open>The portal is set up, the server starts, and an IPv4 client connects that sends the form.\<close>

definition new_device :: "string \<Rightarrow> string \<Rightarrow> portal" where
  "new_device x y = (device [] [] (\<lambda>_. map RxByte (setup_request [''Host: d''] [''Accept: y''] x y)) (\<lambda>_. takes_all 5000))
     \<lparr>tcp4_accepted := [0, 0], tcp6_accepted := [0, 0], tcp4_handler_tid := [0, 0],
      tcp6_listen_sock := 0, data := \<lambda>_ _. [CHR 0x01]\<rparr>"

lemma new_device_up: "powered_up (new_device x y)"
  by (simp add: powered_up_def nvs_static_def certs_static_def ota_static_def wifi_static_def web_static_def
      portal_static_def new_device_def device_def device_cfg_def numeral_2_eq_2)

lemma new_device_saves: "reply (new_device x y) tr (SettingsSaveOne k v) = Some 0"
  by (simp add: new_device_def)

lemma new_device_runs:
  "\<exists>t s. thn (dev_do OpPortalInit) (thn (dev_do OpServerStart) (thn (dev_do OpServerWork)
      (dev_do (OpListen AF_INET)))) (new_device x y) = Inr ((), t) \<and> process_tcp AF_INET t = Inr (0, s) \<and>
    listener_alive AF_INET t \<and> created AF_INET (drop (length (trace t)) (trace s)) = [(AF_INET, AF_INET, 0, Reading)] \<and>
    page_of s WIFI_SETUP_PAGE_PATH \<noteq> None \<and>
    rx s (accepted AF_INET s ! 0) = map RxByte (setup_request [''Host: d''] [''Accept: y''] x y) @ [] \<and>
    store s = Map.empty"
  by (simp add: new_device_def device_def device_cfg_def dev_do_def ob_cp_init_def register_apply
      start_web_server_def init_web_server_def ob_nvs_data_init_def do_start_web_server_def start_listener_def
      web_setup_def set_listen_sock_def process_tcp_def start_handler_def set_accepted_def set_tid_def get_free_slot_def
      ext_apply ext0_apply ext_data_apply ext_wait_def mem_reply_def device_reply_def Let_def af_def
      page_of_def path_key_def accepted_def listener_alive_def numeral_2_eq_2 listener_thread_def
      MAX_WEB_PATH_NAME_LEN_def WIFI_SETUP_PAGE_PATH_def store_at_def store_step_def)

lemma new_device_life:
  obtains s where "sys_reach False (new_device x y) (s, [(AF_INET, AF_INET, 0, Reading)])"
    "page_of s WIFI_SETUP_PAGE_PATH \<noteq> None"
    "rx s (accepted AF_INET s ! 0) = map RxByte (setup_request [''Host: d''] [''Accept: y''] x y) @ []"
    "store s = Map.empty"
proof -
  obtain t s where run: "thn (dev_do OpPortalInit) (thn (dev_do OpServerStart) (thn (dev_do OpServerWork)
      (dev_do (OpListen AF_INET)))) (new_device x y) = Inr ((), t)" "process_tcp AF_INET t = Inr (0, s)"
    "listener_alive AF_INET t" "created AF_INET (drop (length (trace t)) (trace s)) = [(AF_INET, AF_INET, 0, Reading)]"
    and facts: "page_of s WIFI_SETUP_PAGE_PATH \<noteq> None"
    "rx s (accepted AF_INET s ! 0) = map RxByte (setup_request [''Host: d''] [''Accept: y''] x y) @ []" "store s = Map.empty"
    using new_device_runs [of x y] by blast
  obtain t1 t2 t3 where "dev_do OpPortalInit (new_device x y) = Inr ((), t1)" "dev_do OpServerStart t1 = Inr ((), t2)"
    "dev_do OpServerWork t2 = Inr ((), t3)" "dev_do (OpListen AF_INET) t3 = Inr ((), t)"
    using run(1) unfolding thn_Inr by auto
  then have "sys_reach False (new_device x y) (t, [])"
    by (meson op_ok_simps sys_reach.intros sys_step.api)
  moreover have "sys_step False (t, []) (s, [(AF_INET, AF_INET, 0, Reading)])"
    using srv_step.accept [OF run(3,2), of portal_page False "[]"] run(4) by (simp add: sys_step.thread)
  ultimately have "sys_reach False (new_device x y) (s, [(AF_INET, AF_INET, 0, Reading)])" by (rule sys_reach.step)
  then show thesis using facts by (rule that)
qed

lemma new_device_stores:
  assumes "sys_reach False (new_device x y) (s, [(AF_INET, AF_INET, 0, Reading)])" "page_of s WIFI_SETUP_PAGE_PATH \<noteq> None"
    "rx s (accepted AF_INET s ! 0) = map RxByte (setup_request [''Host: d''] [''Accept: y''] x y) @ []"
    "store s = Map.empty" and vals: "form_value n x" "form_value n' y"
  shows "booted (store (final (client_conn_handler portal_page AF_INET AF_INET 0 s))) (restart_on x y)"
proof -
  have "store (final (client_conn_handler portal_page AF_INET AF_INET 0 s)) =
      map_of [(NVS_SETTINGS_ID_WIFI_PSK, y), (NVS_SETTINGS_ID_WIFI_SSID, x)]"
    using life_stores [OF new_device_up assms(1) _ assms(2,3) requesting_headers vals new_device_saves] assms(4)
    by simp
  then show ?thesis by (simp add: booted_def restart_on_def device_cfg_def)
qed

lemma restart_fine: "boots_fine (restart_on x y)"
  by (simp add: boots_fine_def restart_on_def build_ok_def boot_env_def device_cfg_def WIFI_AP_ADDRESS_SIZE_def)

section \<open>Requests and scans\<close>

definition app_page :: web_page where
  "app_page = new_page ''/app'' ''App'' (Some ''app_page'') None 0"

lemma app_page_facts [simp]:
  "page_ok app_page" "cstr (pathname app_page) = ''/app''" "cstr (title app_page) = ''App''"
  "get_callback app_page = Some ''app_page''" "post_callback app_page = None" "flags app_page = 0"
  by (simp_all add: app_page_def page_ok_new new_page_def MAX_WEB_PATH_NAME_LEN_def MAX_WEB_TITLE_LEN_def)
    (simp add: page_ok_new [unfolded new_page_def MAX_WEB_PATH_NAME_LEN_def MAX_WEB_TITLE_LEN_def])

text \<open>Two pages are registered, and a client asks for \<open>path\<close>.\<close>

definition getting :: "string \<Rightarrow> portal" where
  "getting path = device [] [app_page, setup_page] (\<lambda>_. map RxByte (http_request GET path [''Host: d'']))
     (\<lambda>_. takes_all 5000)"

lemma getting_facts [simp]:
  "accepted AF_INET (getting path) = [5, - 1]" "web_pages (getting path) = [app_page, setup_page]"
  "rx (getting path) c = map RxByte (http_request GET path [''Host: d''])" "pages_ok (getting path)"
  "sock_law (getting path) c" "sock_live (getting path) c n \<longleftrightarrow> n \<le> 5000" "wire (getting path) c = []"
  "reply (getting path) = mem_reply [] device_reply" "trace (getting path) = []" "cfg (getting path) = device_cfg"
  by (simp_all add: getting_def pages_ok_def sock_law_def sock_live_def)

lemma no_length_line: "\<not> subseq length_name (http_request GET ''/app/x'' [''Host: d''])"
  "\<not> subseq length_name (http_request GET ''/nothing'' [''Host: d''])"
  by (simp_all add: subseq_length_name length_name_def http_request_def http_lines_def
      request_line_def method_text_def crlf_def)

lemma closed_connection_returns:
  "\<exists>u s'. client_conn_handler portal_page AF_INET AF_INET 0 (device [] [] (\<lambda>_. [RxClosed]) (\<lambda>_. [])) = Inr (u, s')"
  by (simp add: client_conn_handler_def set_rx_def serve_def req_init_def set_accepted_def set_tid_def ext0_apply)

text \<open>A server whose two slots are in use.\<close>

definition full_server :: portal where
  "full_server = (device [] [] (\<lambda>_. []) (\<lambda>_. []))\<lparr>tcp4_accepted := [5, 6]\<rparr>"

lemma full_server_facts:
  "accepted AF_INET full_server = [5, 6]" "trace full_server = []" "listen_sock AF_INET full_server = - 1"
  "reply full_server = mem_reply [] device_reply"
  by (simp_all add: full_server_def accepted_def listen_sock_def)

text \<open>Servers that accept IPv4 peers: one with no connection, one whose connection fails.\<close>

definition idle_server :: portal where
  "idle_server = (device [] [] (\<lambda>_. [RxClosed]) (\<lambda>_. []))\<lparr>tcp4_accepted := [- 1, - 1], data := \<lambda>_ _. [CHR 0x01]\<rparr>"

definition failing_server :: portal where
  "failing_server = (device [] [] (\<lambda>_. [RxError 104]) (\<lambda>_. []))\<lparr>data := \<lambda>_ _. [CHR 0x01]\<rparr>"

lemma server_tables [simp]:
  "accepted f idle_server = [- 1, - 1]" "accepted AF_INET failing_server = [5, - 1]"
  "accepted AF_INET6 failing_server = [- 1, - 1]"
  by (cases f) (simp_all add: idle_server_def failing_server_def accepted_def device_def)

lemma server_peers: "peers_known (cfg idle_server) (data idle_server)" "peers_known (cfg failing_server) (data failing_server)"
  by (simp_all add: idle_server_def failing_server_def peers_known_def device_cfg_def af_def)

lemma server_replies [simp]: "reply idle_server = mem_reply [] device_reply" "reply failing_server = mem_reply [] device_reply"
  by (simp_all add: idle_server_def failing_server_def)

lemma idle_books: "taken idle_server = closed idle_server"
  by (simp add: idle_server_def device_def taken_def closed_def)

lemma idle_accepts: "\<exists>s cf. srv_step portal_page False (idle_server, []) (s, [(AF_INET, cf, 0, Reading)])"
proof -
  have free: "get_free_slot (accepted AF_INET idle_server) = Some 0" by (simp add: get_free_slot_def)
  obtain r s where run: "process_tcp AF_INET idle_server = Inr (r, s)"
    using process_tcp_returns [of idle_server AF_INET] by auto
  from process_tcp_starts [OF run server_peers(1) _ _ free] obtain cf where
    "created AF_INET (drop (length (trace idle_server)) (trace s)) = [(AF_INET, cf, 0, Reading)]" by auto
  moreover have "listener_alive AF_INET idle_server" by (simp add: listener_alive_def idle_server_def)
  ultimately show ?thesis using srv_step.accept [OF _ run, of portal_page False "[]"] by auto
qed

lemma failing_ok: "srv_ok (failing_server, [] @ (AF_INET, AF_INET, 0, Reading) # [])"
proof (rule srv_okI)
  show "(f, i) \<in> slot_of ` set ([] @ (AF_INET, AF_INET, 0, Reading) # [])"
    if "i < length (accepted f failing_server)" "0 \<le> accepted f failing_server ! i" for f i
    using that by (cases f) (auto simp: less_Suc_eq nth_Cons split: nat.splits)
qed (auto simp: client_is_def)

lemma failing_listens: "listener_alive AF_INET failing_server"
  by (simp add: listener_alive_def failing_server_def)

lemma failing_reads:
  "\<exists>r s1. conn_read AF_INET 0 failing_server = Inr ((5, r, True), s1) \<and> reply s1 = reply failing_server \<and>
     responsive s1"
proof -
  have "rx failing_server 5 = [RxError 104]" by (simp add: failing_server_def)
  then show ?thesis by (simp add: conn_read_def set_rx_def set_accepted_def modify_def)
qed

text \<open>A scan about to start, a list with one network, a socket that breaks, a crowded menu.\<close>

definition scanning :: portal where
  "scanning = (device [] [] (\<lambda>_. []) (\<lambda>_. []))\<lparr>wifi_inited := True\<rparr>"

lemma scanning_facts: "list_models scanning []" "wifi_inited scanning" "has_memory (reply scanning)"
  by (simp_all add: scanning_def list_models_def ssid_models_def ssid_rep_def aps_at_def)

definition one_network :: portal where
  "one_network = (device [] [] (\<lambda>_. []) (\<lambda>_. []))\<lparr>brk := 1, ssid_head := 1, ssid_tail := 1,
     ssid_heap := [1 \<mapsto> \<lparr>it_next = 0, it_ssid = ''home'' @ [NUL], it_len = 4, it_signal_strength = 80,
       it_security = True\<rparr>]\<rparr>"

lemma one_network_facts:
  "ssid_rep one_network [1]" "names_fit one_network [1]" "responsive one_network" "has_memory (reply one_network)"
  "heap_names one_network [1] = [''home'']" "ssid_head one_network = 1"
  by (simp_all add: one_network_def ssid_rep_def names_fit_def heap_names_def terminated_def device_cfg_def)

definition two_sends :: portal where
  "two_sends = device [] [] (\<lambda>_. []) (\<lambda>_. [\<lambda>k. min 1 (int k), \<lambda>k. - 104])"

lemma two_sends_law: "sock_law two_sends 5"
  by (simp add: two_sends_def sock_law_def tx_law_def)

lemma two_sends_wire: "wire two_sends c = []"
  by (simp add: two_sends_def)

lemma two_sends_fail: "\<exists>s'. sendall 5 ''abc'' two_sends = Inr (- 104, s')"
  by (simp add: two_sends_def sendall_def zsock_send_Cons SENDALL_MAX_LEN_def)

definition crowded :: portal where
  "crowded = device [] [setup_page, app_page, setup_page] (\<lambda>_. []) (\<lambda>_. [])"

lemma getting_page_fits:
  "length (menu_text [app_page, setup_page]) < WEB_MENU_LEN"
  "length (header_text (int (length (concat (setup_parts (option_text ''home''))))) WIFI_SETUP_TITLE
     (menu_text [app_page, setup_page])) + length (concat (setup_parts (option_text ''home''))) \<le> 5000"
proof -
  have m: "length (menu_text [app_page, setup_page]) = 214"
    by (simp add: length_menu_text menu_counted_def counted_def length_menu_start WIFI_SETUP_PAGE_PATH_def WIFI_SETUP_TITLE_def)
  then show "length (menu_text [app_page, setup_page]) < WEB_MENU_LEN" by (simp add: WEB_MENU_LEN_def)
  have p: "length (concat (setup_parts (option_text ''home''))) \<le> 1000"
    by (simp add: setup_parts_def length_option_text content_wifi_body_start_def content_wifi_body_tail_def
        WIFI_SETUP_PAGE_PATH_def)
  have "length (dec_int (int (length (concat (setup_parts (option_text ''home'')))) +
      int (length (page_head WIFI_SETUP_TITLE (menu_text [app_page, setup_page]))))) \<le> 11"
    by (rule dec_int_length)
      (use p m in \<open>simp add: in_int_def page_head_def content_head_def content_head_tail_def WIFI_SETUP_TITLE_def\<close>)
  with m p show "length (header_text (int (length (concat (setup_parts (option_text ''home''))))) WIFI_SETUP_TITLE
     (menu_text [app_page, setup_page])) + length (concat (setup_parts (option_text ''home''))) \<le> 5000"
    by (simp add: header_text_def http1_1_OK_def content_length_line_def CONTENT_TYPE_def page_head_def
        content_head_def content_head_tail_def WIFI_SETUP_TITLE_def)
qed

text \<open>A device on which a scan finds one network, and one to which two forms are sent.\<close>

definition showing :: portal where
  "showing = (getting ''/'')\<lparr>wifi_inited := True,
     arrivals := \<lambda>tr c. if c = KSemTake scan_done_sem None
       then map scan_event [(''home'', 4, 206, True)] @ [WIFI_SCAN_DONE] else []\<rparr>"

definition home_ap :: ap where
  "home_ap = \<lparr>ap_name = ''home'', ap_len = 4, ap_strength = 80, ap_secure = True\<rparr>"

lemma home_found: "fold ap_add_result (map scan_entry [(''home'', 4, 206, True)]) [] = [home_ap]"
  by (simp add: scan_entry_def ap_add_def ap_listed_def ap_new_def scan_strength_def Let_def home_ap_def)

lemma home_text: "networks_text [home_ap] = option_text ''home''"
  by (simp add: networks_text_def home_ap_def)

lemma showing_facts: "scan_finds showing [home_ap]" "page_sendable showing c (networks_text [home_ap])" "wire showing c = []"
proof -
  have "list_models showing []"
    by (simp add: showing_def getting_def list_models_def ssid_models_def ssid_rep_def aps_at_def)
  moreover have "has_memory (reply showing)" "wifi_inited showing" "networks_fit showing [home_ap]"
    by (simp_all add: showing_def networks_fit_def home_ap_def device_cfg_def)
  moreover have "arrivals showing tr (KSemTake scan_done_sem None) = map scan_event [(''home'', 4, 206, True)] @ [WIFI_SCAN_DONE]" for tr
    by (simp add: showing_def)
  ultimately show "scan_finds showing [home_ap]"
    unfolding scan_finds_def using home_found by (metis list.distinct(1))
  have "pages_ok showing" "sock_law showing c" "sock_live showing c n \<longleftrightarrow> n \<le> 5000" for n
    using getting_facts(4) [of "''/''"] getting_facts(5,6) [of "''/''" c]
    by (simp_all add: showing_def pages_ok_def sock_law_def sock_live_def)
  moreover have "web_pages showing = [app_page, setup_page]" by (simp add: showing_def)
  ultimately show "page_sendable showing c (networks_text [home_ap])"
    using getting_page_fits by (simp add: page_sendable_def home_text length_option_text)
  show "wire showing c = []" by (simp add: showing_def)
qed

definition two_posts :: portal where
  "two_posts = device [] [setup_page]
     (\<lambda>c. map RxByte (if c = 5 then setup_form ''home'' ''secret12'' else setup_form ''cafe'' ''espresso'')) (\<lambda>_. [])"

lemma two_posts_facts:
  "0 < length (web_pages two_posts)" "setup_attribs_ok two_posts"
  "rx two_posts 5 = map RxByte (setup_form ''home'' ''secret12'') @ []"
  "rx two_posts 6 = map RxByte (setup_form ''cafe'' ''espresso'') @ []"
  "reply two_posts tr (SettingsSaveOne k v) = Some 0" "store two_posts = Map.empty"
  "length (web_pages two_posts) - 0 = 1"
  by (simp_all add: two_posts_def setup_attribs_ok_def)

lemma good_cafe: "good_credential 32 ''cafe''" "good_credential 64 ''espresso''"
  by (simp_all add: good_credential_def form_value_def VALUE_BUFFER_SIZE_def)

lemmas cafe_values = good_cafe [THEN good_credentialD(2)]

definition mixed_device :: portal where
  "mixed_device = device [(NVS_SETTINGS_ID_WIFI_PSK, ''espresso''), (NVS_SETTINGS_ID_WIFI_SSID, ''home'')]
     [] (\<lambda>_. []) (\<lambda>_. [])"

lemma mixed_cfg: "cfg mixed_device = device_cfg" "WIFI_SSID_MAX_LEN device_cfg = 32" "WIFI_PSK_MAX_LEN device_cfg = 64"
  by (simp_all add: mixed_device_def device_cfg_def)

lemma mixed_booted:
  "booted (store (final (two_forms 5 6 (length (web_pages two_posts) - 0) (int (length (setup_form ''home'' ''secret12'')))
     (int (length (setup_form ''cafe'' ''espresso''))) two_posts))) mixed_device"
proof -
  obtain s' where "two_forms 5 6 (length (web_pages two_posts) - 0) (int (length (setup_form ''home'' ''secret12'')))
     (int (length (setup_form ''cafe'' ''espresso''))) two_posts = Inr (0, s')"
    "store s' = (store two_posts)(NVS_SETTINGS_ID_WIFI_SSID \<mapsto> ''home'', NVS_SETTINGS_ID_WIFI_PSK \<mapsto> ''espresso'')"
    using two_forms_mixed [OF two_posts_facts(1) _ two_posts_facts(2-4) home_values(1) cafe_values(1) home_values(2)
        cafe_values(2) two_posts_facts(5)] by auto
  then show ?thesis by (simp add: two_posts_facts(6) booted_def mixed_device_def device_cfg_def)
qed

lemma mixed_fine: "boots_fine mixed_device"
  by (simp add: boots_fine_def mixed_device_def build_ok_def boot_env_def device_cfg_def WIFI_AP_ADDRESS_SIZE_def)

text \<open>A running server with a handler, stopped and started.\<close>

lemma failing_restarts:
  "\<exists>r s1 s2. stop_web_server (failing_server\<lparr>mWebServerRunning := True\<rparr>) = Inr (r, s1) \<and>
     do_start_web_server portal_deliver s1 = Inr ((), s2)"
  by (simp add: failing_server_def device_def device_cfg_def stop_web_server_def do_start_web_server_def
      start_listener_def ext_apply ext0_apply ext_wait_def mem_reply_def device_reply_def Let_def)

lemma failing_running: "srv_ok (failing_server\<lparr>mWebServerRunning := True\<rparr>, [(AF_INET, AF_INET, 0, Reading)])"
proof (rule srv_ok_same)
  show "srv_ok (failing_server, [(AF_INET, AF_INET, 0, Reading)])" using failing_ok by simp
  show "accepted f (failing_server\<lparr>mWebServerRunning := True\<rparr>) = accepted f failing_server" for f
    by (simp add: accepted_def split: family.split)
qed

section \<open>The wifi, the store, the update\<close>

definition plain_device :: portal where
  "plain_device = device [] [] (\<lambda>_. []) (\<lambda>_. [])"

lemma plain_booted: "booted Map.empty plain_device" "\<not> CONFIG_ONBOARDING_PRECONFIG_WIFI (cfg plain_device)"
  by (simp_all add: plain_device_def booted_def device_cfg_def)

lemma plain_fine: "boots_fine plain_device"
  by (simp add: boots_fine_def plain_device_def build_ok_def boot_env_def device_cfg_def WIFI_AP_ADDRESS_SIZE_def)

text \<open>A network accepts the device, and the address arrives while it waits.\<close>

definition joining :: portal where
  "joining = plain_device\<lparr>wifi_inited := True,
     arrivals := (\<lambda>tr c. if c = KSemTake wifi_connect_sem None then [IPV4_DHCP_BOUND 0] else [])\<rparr>"

lemma joining_returns: "\<exists>s'. ob_wifi_connect portal_deliver joining = Inr (0, s')"
  by (simp add: joining_def plain_device_def device_def device_cfg_def ob_wifi_connect_def connect_loop_first
      connect_request_def ext_apply ext0_apply ext_wait_def portal_deliver_def web_deliver_def wifi_deliver_def
      ipv4_mgmt_event_handler_def ob_web_event_handler_def mem_reply_def device_reply_def)

text \<open>A store with two settings, and one in which the second cannot be deleted.\<close>

definition two_settings :: portal where
  "two_settings = device [(''a'', ''1''), (''b'', ''2'')] [] (\<lambda>_. []) (\<lambda>_. [])"

lemma two_settings_facts:
  "settings_ok two_settings" "reply two_settings tr (SettingsDelete k) = Some 0" "nvs_env_ok two_settings"
  "store two_settings = map_of [(''a'', ''1''), (''b'', ''2'')]"
  using settings_law_mem [of "[(''a'', ''1''), (''b'', ''2'')]" device_reply device_data]
  by (simp_all add: two_settings_def)

definition stuck_reply :: replier where
  "stuck_reply tr c = (if c = SettingsDelete ''b'' then Some (- 5) else device_reply tr c)"

definition stuck_settings :: portal where
  "stuck_settings = plain_device\<lparr>reply := mem_reply [(''a'', ''1''), (''b'', ''2''), (''c'', ''3'')] stuck_reply,
     data := mem_data [(''a'', ''1''), (''b'', ''2''), (''c'', ''3'')] stuck_reply device_data,
     listing := mem_listing [(''a'', ''1''), (''b'', ''2''), (''c'', ''3'')] stuck_reply,
     flash0 := map_of [(''a'', ''1''), (''b'', ''2''), (''c'', ''3'')]\<rparr>"

lemma stuck_settings_facts:
  "settings_ok stuck_settings" "listing stuck_settings (trace stuck_settings) = [''a''] @ ''b'' # [''c'']"
  "j \<in> set [''a''] \<Longrightarrow> reply stuck_settings tr (SettingsDelete j) = Some 0"
  "reply stuck_settings tr (SettingsDelete ''b'') = Some (- 5)"
  "store stuck_settings = map_of [(''a'', ''1''), (''b'', ''2''), (''c'', ''3'')]"
  using settings_law_mem [of "[(''a'', ''1''), (''b'', ''2''), (''c'', ''3'')]" stuck_reply device_data]
  by (simp_all add: stuck_settings_def plain_device_def mem_listing_def mem_store_def mem_reply_def deletable_def
      stuck_reply_def device_reply_def)

text \<open>An update function that has something at the first call and succeeds at the second.\<close>

definition provider :: ob_ota_vtable where
  "provider = \<lparr>ob_ota_autohandler = None, ob_ota_confirm = None, ob_ota_probe = Some ''probe'',
     ob_ota_update = Some ''update'', ob_ota_reboot = Some ''restart'', ob_dt_set_fn = None\<rparr>"

definition updating :: portal where
  "updating = plain_device\<lparr>ota_vtable := Some provider,
     reply := (\<lambda>tr c. if c = CallPtr ''update'' then Some (if tr = [] then 1 else 0)
       else if c = CallPtr ''probe'' then Some 4 else device_reply tr c)\<rparr>"

lemma updating_returns: "\<exists>s'. ota_do_update updating = Inr (True, s')"
  by (simp add: updating_def plain_device_def provider_def ota_do_update_def call_ptr_def ext_apply ext0_apply
      ota_reboot_def device_reply_def)

text \<open>The access point's name, on a device whose configured name is short enough or is not.\<close>

lemma plain_device_ap:
  "responsive plain_device" "reply plain_device (trace plain_device) (NetIfGet wifi_sap) = Some 1"
  "data plain_device (trace plain_device @ [NetIfGet wifi_sap]) (NetIfGetLinkAddr 1) = ''abcdef''"
  by (simp_all add: plain_device_def mem_data_def device_data_def)

definition listening :: portal where
  "listening = plain_device\<lparr>reply := (\<lambda>tr c. case c of Zsock (Accept _) \<Rightarrow> Some (- 1) | _ \<Rightarrow> device_reply tr c)\<rparr>"

text \<open>A POST to the page that has no post callback.\<close>

definition posting_app :: portal where
  "posting_app = device [] [app_page, setup_page]
     (\<lambda>_. map RxByte (http_request POST ''/app'' ([] @ (length_name @ dec_nat 0) # []))) (\<lambda>_. [])"

lemma posting_app_facts:
  "accepted AF_INET posting_app ! 0 = 5" "0 < length (accepted AF_INET posting_app)"
  "rx posting_app 5 = map RxByte (http_request POST ''/app'' ([] @ (length_name @ dec_nat 0) # [])) @ []"
  "good_path ''/app''" "\<forall>l \<in> set ([] @ []). plain_line l" "in_int (int 0)"
  "\<not> subseq length_name (http_lines [request_line POST ''/app''])"
  "\<not> subseq length_name (LF # http_lines [] @ crlf)" "pages_ok posting_app"
  "first_index (answers ''/app'') (web_pages posting_app) = Some 0" "post_callback (web_pages posting_app ! 0) = None"
  by (simp_all add: posting_app_def good_path_def in_int_def subseq_length_name length_name_def http_lines_def
      request_line_def method_text_def crlf_def pages_ok_def answers_def)

end
