(* ===== verification/Ob_Gatt.thy ===== *)
theory Ob_Gatt
  imports Ob_Portal_Facts
begin

unbundle bit_operations_syntax

text \<open>
  src/ob_bluetooth_gatt.c: the GATT service. A read of one characteristic starts a scan and
  sends the networks found as notifications, cut to the size of the connection; a write of the
  other is a request to join a network. The JSON library is not under src/: what it makes of a
  text and the text it leaves in a buffer are functions of the state (\<open>json_obj_parse\<close>,
  \<open>json_obj_encode_buf\<close>), which the source calls with its own descriptions of its objects.
  What the peer has been notified of is a field too.

  The work queue waits on \<open>scan_semaphore\<close> for the handler of network events, which gives
  it from \<open>scan_complete\<close> and then frees the list it has passed. Which of the two runs
  first from there is the scheduler's choice, so the operations that wait take the handler in
  two parts: \<open>deliver\<close>, what it does before the waiter goes on, and \<open>pending\<close>,
  what it does after.
\<close>

section \<open>JSON objects\<close>

text \<open>
  A description lists the fields of a struct with their tokens; an object is the struct, by field
  name. The parser returns its code and the fields it found; the encoder is given the room it has.
\<close>

datatype json_tok = JSON_TOK_STRING | JSON_TOK_TRUE | JSON_TOK_FALSE | JSON_TOK_NUMBER
datatype json_value = JString string | JBool bool | JNumber int

type_synonym json_obj_descr = "(string \<times> json_tok) list"
type_synonym json_obj = "string \<rightharpoonup> json_value"
type_synonym json_parser = "string \<Rightarrow> json_obj_descr \<Rightarrow> int \<times> json_obj"
type_synonym json_encoder = "json_obj_descr \<Rightarrow> json_obj \<Rightarrow> nat \<Rightarrow> string"

definition secure_ap_list_entry_json_descr :: json_obj_descr where
  "secure_ap_list_entry_json_descr =
     [(''ssid'', JSON_TOK_STRING), (''secure'', JSON_TOK_TRUE), (''strength'', JSON_TOK_NUMBER)]"

definition open_ap_list_entry_json_descr :: json_obj_descr where
  "open_ap_list_entry_json_descr =
     [(''ssid'', JSON_TOK_STRING), (''secure'', JSON_TOK_FALSE), (''strength'', JSON_TOK_NUMBER)]"

definition current_ap_set_json_descr :: json_obj_descr where
  "current_ap_set_json_descr = [(''ssid'', JSON_TOK_STRING), (''error'', JSON_TOK_STRING)]"

definition set_ap_json_descr :: json_obj_descr where
  "set_ap_json_descr =
     [(''ssid'', JSON_TOK_STRING), (''passcode'', JSON_TOK_STRING), (''error'', JSON_TOK_STRING)]"

text \<open>The structs of the source as objects, and what is read of a parsed one.\<close>

definition ob_ap_list_entry :: "string \<Rightarrow> bool \<Rightarrow> int \<Rightarrow> json_obj" where
  "ob_ap_list_entry ssid secure strength =
     [''ssid'' \<mapsto> JString ssid, ''secure'' \<mapsto> JBool secure, ''strength'' \<mapsto> JNumber strength]"

definition ob_current_ap :: "string \<Rightarrow> string \<Rightarrow> json_obj" where
  "ob_current_ap ssid error = [''ssid'' \<mapsto> JString ssid, ''error'' \<mapsto> JString error]"

definition string_field :: "string \<Rightarrow> json_obj \<Rightarrow> string option" where
  "string_field k obj = (case obj k of Some (JString x) \<Rightarrow> Some x | _ \<Rightarrow> None)"

section \<open>State\<close>

record gatt = portal +
  json_obj_parse :: json_parser
  json_obj_encode_buf :: json_encoder
  notified :: string
  ssid_list :: nat
  ap_list_count :: nat
  ap_list_data :: string          \<comment> \<open>contents as a C string\<close>
  current_ap_data :: string       \<comment> \<open>contents as a C string\<close>
  tmp_write_buffer :: string      \<comment> \<open>the array, 256 characters\<close>
  most_recent_scan_time :: "32 word"
  work_handler_conn_pointer :: int

definition MAX_AP_LIST_LENGTH :: nat where "MAX_AP_LIST_LENGTH = 64"
definition AP_LIST_DATA_SIZE :: nat where "AP_LIST_DATA_SIZE = 2048"
definition CURRENT_AP_DATA_SIZE :: nat where "CURRENT_AP_DATA_SIZE = 256"
definition WRITE_BUFFER_SIZE :: nat where "WRITE_BUFFER_SIZE = 256"
definition MIN_SCAN_INTERVAL_MS :: "32 word" where "MIN_SCAN_INTERVAL_MS = 5000"
definition SCAN_TIMEOUT :: nat where "SCAN_TIMEOUT = 5000"
definition ENOMEM :: int where "ENOMEM = 12"
definition ATT_ERR_INVALID_OFFSET :: int where "ATT_ERR_INVALID_OFFSET = 7"
definition ATT_ERR_VALUE_NOT_ALLOWED :: int where "ATT_ERR_VALUE_NOT_ALLOWED = 19"

text \<open>The three calls of the library the source makes.\<close>

definition encode_entry :: "json_encoder \<Rightarrow> string \<Rightarrow> bool \<Rightarrow> int \<Rightarrow> nat \<Rightarrow> string" where
  "encode_entry enc ssid secure strength room =
     enc (if secure then secure_ap_list_entry_json_descr else open_ap_list_entry_json_descr)
       (ob_ap_list_entry ssid secure strength) room"

definition encode_current :: "json_encoder \<Rightarrow> string \<Rightarrow> string \<Rightarrow> nat \<Rightarrow> string" where
  "encode_current enc ssid error room = enc current_ap_set_json_descr (ob_current_ap ssid error) room"

definition parse_set_ap :: "json_parser \<Rightarrow> string \<Rightarrow> int \<times> string option \<times> string option" where
  "parse_set_ap parse b = (case parse b set_ap_json_descr of (result, ap) \<Rightarrow>
     (result, string_field ''ssid'' ap, string_field ''passcode'' ap))"

abbreviation "json_entry \<equiv> \<lambda>s. encode_entry (json_obj_encode_buf s)"
abbreviation "json_current \<equiv> \<lambda>s. encode_current (json_obj_encode_buf s)"
abbreviation "json_parse \<equiv> \<lambda>s. parse_set_ap (json_obj_parse s)"

text \<open>
  \<open>json_obj_encode_buf\<close> leaves a C string in the room it is given, whether or not the whole
  text fits.
\<close>

definition in_room :: "nat \<Rightarrow> string \<Rightarrow> string" where
  "in_room n x = take (n - 1) x"

section \<open>The list of networks\<close>

definition scan_complete :: "nat \<Rightarrow> ('z gatt_scheme, unit) prog" where
  "scan_complete item = thn (modify (\<lambda>s. s\<lparr>ssid_list := item\<rparr>)) (ext0 (KSemGive scan_semaphore))"

text \<open>The do loop over the list, which reads the first node before any test.\<close>

type_synonym ap_list_entry = "string \<times> bool \<times> int"

fun ap_entries :: "nat \<Rightarrow> nat \<Rightarrow> ('z ssids_scheme, ap_list_entry list) prog" where
  "ap_entries 0 it = ret []"
| "ap_entries (Suc n) it =
     bnd (load_item it) (\<lambda>i. bnd (str_of (it_ssid i)) (\<lambda>x.
     bnd (if n = 0 \<or> it_next i = 0 then ret [] else ap_entries n (it_next i)) (\<lambda>es.
     ret ((x, it_security i, it_signal_strength i) # es))))"

text \<open>
  The loop that formats the entries. A character put at \<open>strlen\<close> needs another NUL after it.
\<close>

definition put_end :: "char \<Rightarrow> string \<Rightarrow> ('s, string) prog" where
  "put_end c txt = thn (require (length txt + 1 < AP_LIST_DATA_SIZE) Unterminated) (ret (txt @ [c]))"

fun encode_entries :: "ap_list_entry list \<Rightarrow> string \<Rightarrow> ('z gatt_scheme, string) prog" where
  "encode_entries [] txt = ret txt"
| "encode_entries ((x, secure, strength) # es) txt =
     bnd (gets json_entry) (\<lambda>enc.
     let room = AP_LIST_DATA_SIZE - length txt; txt = txt @ in_room room (enc x secure strength room) in
     bnd (if es \<noteq> [] then put_end CHR '','' txt else ret txt) (encode_entries es))"

definition ob_update_ap_list :: "('z gatt_scheme, unit) prog" where
  "ob_update_ap_list =
     bnd (gets ssid_list) (\<lambda>p.
     bnd (ap_entries MAX_AP_LIST_LENGTH p) (\<lambda>es.
     thn (modify (\<lambda>s. s\<lparr>ap_list_count := length es\<rparr>))
     (bnd (encode_entries es ''['') (\<lambda>txt.
      bnd (put_end CHR '']'' txt) (\<lambda>txt.
      modify (\<lambda>s. s\<lparr>ap_list_data := txt\<rparr>))))))"

definition scan_and_update_list ::
  "(net_event \<Rightarrow> ('z gatt_scheme, unit) prog) \<Rightarrow> ('z gatt_scheme, unit) prog \<Rightarrow> ('z gatt_scheme, unit) prog" where
  "scan_and_update_list deliver pending =
     bnd (ext KUptimeGet) (\<lambda>now. let new_scan_time = word_of_int now :: 32 word in
     bnd (gets most_recent_scan_time) (\<lambda>recent.
     bnd (gets ap_list_count) (\<lambda>n.
     if MIN_SCAN_INTERVAL_MS < new_scan_time - recent \<and> 0 < n then ret ()
     else
       bnd ob_wifi_scan (\<lambda>_.
       thn (modify (\<lambda>s. s\<lparr>most_recent_scan_time := new_scan_time\<rparr>))
       (bnd (ext_wait deliver (KSemTake scan_semaphore (Some SCAN_TIMEOUT))) (\<lambda>rc.
        thn ob_update_ap_list pending))))))"

section \<open>Sending the list\<close>

definition bt_gatt_notify_cb :: "string \<Rightarrow> ('z gatt_scheme, int) prog" where
  "bt_gatt_notify_cb chunk = bnd (ext (BtGattNotifyCb chunk)) (\<lambda>err.
     thn (cond (0 \<le> err) (modify (\<lambda>s. s\<lparr>notified := notified s @ chunk\<rparr>))) (ret err))"

text \<open>The loop, with fuel: false when the fuel is used up before the loop ends.\<close>

primrec notify_loop :: "nat \<Rightarrow> nat \<Rightarrow> string \<Rightarrow> ('z gatt_scheme, bool) prog" where
  "notify_loop 0 chunk_size txt = ret (txt = [])"
| "notify_loop (Suc n) chunk_size txt =
     (if txt = [] then ret True
      else bnd (bt_gatt_notify_cb (take chunk_size txt)) (\<lambda>err.
        if err = - ENOMEM then thn (ext0 (KMsleep 10)) (notify_loop n chunk_size txt)
        else if err < 0 then ret True
        else thn (ext0 KYield) (notify_loop n chunk_size (drop chunk_size txt))))"

definition send_ap_list_work_handler ::
  "nat \<Rightarrow> (net_event \<Rightarrow> ('z gatt_scheme, unit) prog) \<Rightarrow> ('z gatt_scheme, unit) prog \<Rightarrow> ('z gatt_scheme, bool) prog" where
  "send_ap_list_work_handler n deliver pending =
     bnd (gets (\<lambda>s. CONFIG_ONBOARDING_WIFI (cfg s))) (\<lambda>wifi.
     thn (cond wifi (scan_and_update_list deliver pending))
     (bnd (gets ap_list_data) (\<lambda>txt.
      bnd (ext BtGattGetMtu) (\<lambda>mtu. notify_loop n (unat (word_of_int mtu - 3 :: 16 word)) txt))))"

definition read_aps :: "int \<Rightarrow> nat \<Rightarrow> nat \<Rightarrow> ('z gatt_scheme, int) prog" where
  "read_aps conn len offset =
     thn (cond (offset = 0) (thn (modify (\<lambda>s. s\<lparr>work_handler_conn_pointer := conn\<rparr>))
                                 (ext0 (KWorkSubmit ''send_ap_list_work_handler''))))
         (ext (BtGattAttrRead len offset []))"

section \<open>The current network\<close>

definition read_current_ap :: "nat \<Rightarrow> nat \<Rightarrow> ('z gatt_scheme, int) prog" where
  "read_current_ap len offset = bnd (gets current_ap_data) (\<lambda>txt. ext (BtGattAttrRead len offset txt))"

definition set_current_ap :: "string \<Rightarrow> string \<Rightarrow> ('z gatt_scheme, unit) prog" where
  "set_current_ap ssid error =
     modify (\<lambda>s. s\<lparr>current_ap_data := in_room CURRENT_AP_DATA_SIZE
       (json_current s ssid error CURRENT_AP_DATA_SIZE)\<rparr>)"

definition ob_join_network ::
  "(net_event \<Rightarrow> ('z gatt_scheme, unit) prog) \<Rightarrow> string \<Rightarrow> string \<Rightarrow> ('z gatt_scheme, unit) prog" where
  "ob_join_network deliver ssid passcode =
     thn (set_current_ap ssid [])
     (bnd (gets cfg) (\<lambda>c.
      thn (require (length ssid < WIFI_SSID_MAX_LEN c) OutOfBounds)
      (thn (modify (\<lambda>s. s\<lparr>gSSID := fill_buf (gSSID s) (ssid @ [NUL]), gSSID_len := int (length ssid)\<rparr>))
      (thn (require (length passcode < WIFI_PSK_MAX_LEN c) OutOfBounds)
      (thn (modify (\<lambda>s. s\<lparr>gPSK := fill_buf (gPSK s) (passcode @ [NUL]), gPSK_len := int (length passcode)\<rparr>))
      (bnd (ob_wifi_connect deliver) (\<lambda>connect_rc.
       thn (if connect_rc = 0 then
              bnd (ob_nvs_data_write NVS_SETTINGS_ID_WIFI_SSID ssid (length ssid)) (\<lambda>_.
              bnd (ob_nvs_data_write NVS_SETTINGS_ID_WIFI_PSK passcode (length passcode)) (\<lambda>_. ret ()))
            else set_current_ap ssid ''Failed to connect.'')
       (bnd (gets current_ap_data) (\<lambda>txt. ext0 (BtGattNotify txt))))))))))"

text \<open>
  \<open>flags | BT_GATT_WRITE_FLAG_EXECUTE | BT_GATT_WRITE_FLAG_CMD\<close>, as written. The fields of
  \<open>ap\<close> the parser did not find have no value.
\<close>

definition write_current_ap ::
  "(net_event \<Rightarrow> ('z gatt_scheme, unit) prog) \<Rightarrow> string \<Rightarrow> nat \<Rightarrow> 8 word \<Rightarrow> ('z gatt_scheme, int) prog" where
  "write_current_ap deliver buf offset flgs =
     (if WRITE_BUFFER_SIZE < offset + length buf then ret (- ATT_ERR_INVALID_OFFSET)
      else
        thn (modify (\<lambda>s. s\<lparr>tmp_write_buffer := take offset (tmp_write_buffer s) @ buf @
               drop (offset + length buf) (tmp_write_buffer s)\<rparr>))
        (thn (require (offset + length buf < WRITE_BUFFER_SIZE) OutOfBounds)
        (thn (modify (\<lambda>s. s\<lparr>tmp_write_buffer := (tmp_write_buffer s)[offset + length buf := NUL]\<rparr>))
        (if flgs OR 4 OR 2 \<noteq> 0 then
           bnd (gets json_parse) (\<lambda>parse.
           bnd (gets tmp_write_buffer) (\<lambda>b.
           case parse (cstr b) of (result, ssid, passcode) \<Rightarrow>
             if result < 0 then ret (- ATT_ERR_VALUE_NOT_ALLOWED)
             else (case (ssid, passcode) of
                 (Some x, Some y) \<Rightarrow> thn (ob_join_network deliver x y) (ret (int (length buf)))
               | _ \<Rightarrow> halted Uninitialised)))
         else ret (int (length buf))))))"

section \<open>Advertising\<close>

definition BT_LE_AD_GENERAL :: "8 word" where "BT_LE_AD_GENERAL = 2"
definition BT_LE_AD_NO_BREDR :: "8 word" where "BT_LE_AD_NO_BREDR = 4"

definition BT_UUID_CUSTOM_ONBOARDING_VAL :: uuid128 where
  "BT_UUID_CUSTOM_ONBOARDING_VAL = (0x8993c412, 0xb941, 0x4d54, 0x8d09, 0xc70b1d50b7a1)"
definition BT_UUID_CUSTOM_GET_APS_VAL :: uuid128 where
  "BT_UUID_CUSTOM_GET_APS_VAL = (0xd6cf98d9, 0x1180, 0x4e02, 0x820b, 0xd3de6ecf7206)"
definition BT_UUID_CUSTOM_SET_AP_VAL :: uuid128 where
  "BT_UUID_CUSTOM_SET_AP_VAL = (0x9c3a708e, 0x2f6c, 0x4336, 0x8a68, 0x4612a886dc81)"

definition advertisement :: "bt_data list" where
  "advertisement = [BT_DATA_FLAGS (BT_LE_AD_GENERAL OR BT_LE_AD_NO_BREDR),
     BT_DATA_UUID128_ALL BT_UUID_CUSTOM_ONBOARDING_VAL]"

definition sd :: "config \<Rightarrow> bt_data list" where
  "sd c = [BT_DATA_NAME_COMPLETE (CONFIG_BT_DEVICE_NAME c)]"

definition gatt_connected :: "('z gatt_scheme, int) prog" where
  "gatt_connected = ret 0"

definition gatt_adv_stop :: "('z kern_scheme, int) prog" where
  "gatt_adv_stop = thn (ext0 BtLeAdvStop) (ret 0)"

definition gatt_adv_start :: "('z kern_scheme, int) prog" where
  "gatt_adv_start = bnd (gets cfg) (\<lambda>c. ext (BtLeAdvStart advertisement (sd c)))"

definition gatt_init :: "('z gatt_scheme, int) prog" where
  "gatt_init = ret 0"

section \<open>The service\<close>

text \<open>
  The table the stack dispatches requests from. Each entry stands for the attributes its macro
  makes: one for the service, two for a characteristic (its declaration and its value), one for
  a configuration of notifications.
\<close>

definition BT_GATT_CHRC_READ :: "8 word" where "BT_GATT_CHRC_READ = 2"
definition BT_GATT_CHRC_WRITE :: "8 word" where "BT_GATT_CHRC_WRITE = 8"
definition BT_GATT_CHRC_NOTIFY :: "8 word" where "BT_GATT_CHRC_NOTIFY = 16"
definition BT_GATT_PERM_READ :: "16 word" where "BT_GATT_PERM_READ = 1"
definition BT_GATT_PERM_WRITE :: "16 word" where "BT_GATT_PERM_WRITE = 2"
definition BT_GATT_PERM_READ_ENCRYPT :: "16 word" where "BT_GATT_PERM_READ_ENCRYPT = 4"
definition BT_GATT_PERM_WRITE_ENCRYPT :: "16 word" where "BT_GATT_PERM_WRITE_ENCRYPT = 8"

record gatt_chrc =
  ch_uuid :: uuid128
  ch_props :: "8 word"
  ch_perm :: "16 word"
  ch_read :: "fnptr option"
  ch_write :: "fnptr option"
  ch_user_data :: string

datatype gatt_entry =
    BT_GATT_PRIMARY_SERVICE uuid128
  | BT_GATT_CHARACTERISTIC gatt_chrc
  | BT_GATT_CCC fnptr "16 word"

definition primary_service :: "gatt_entry list" where
  "primary_service =
     [BT_GATT_PRIMARY_SERVICE BT_UUID_CUSTOM_ONBOARDING_VAL,
      BT_GATT_CHARACTERISTIC \<lparr>ch_uuid = BT_UUID_CUSTOM_GET_APS_VAL,
        ch_props = BT_GATT_CHRC_READ OR BT_GATT_CHRC_NOTIFY, ch_perm = BT_GATT_PERM_READ_ENCRYPT,
        ch_read = Some ''read_aps'', ch_write = None, ch_user_data = ''ap_list_data''\<rparr>,
      BT_GATT_CCC ''aps_ccc_cfg_changed'' (BT_GATT_PERM_READ_ENCRYPT OR BT_GATT_PERM_WRITE_ENCRYPT),
      BT_GATT_CHARACTERISTIC \<lparr>ch_uuid = BT_UUID_CUSTOM_SET_AP_VAL,
        ch_props = BT_GATT_CHRC_WRITE OR BT_GATT_CHRC_READ OR BT_GATT_CHRC_NOTIFY,
        ch_perm = BT_GATT_PERM_READ_ENCRYPT OR BT_GATT_PERM_WRITE_ENCRYPT,
        ch_read = Some ''read_current_ap'', ch_write = Some ''write_current_ap'',
        ch_user_data = ''current_ap_data''\<rparr>,
      BT_GATT_CCC ''aps_ccc_cfg_changed'' (BT_GATT_PERM_READ_ENCRYPT OR BT_GATT_PERM_WRITE_ENCRYPT)]"

definition aps_ccc_cfg_changed :: "int \<Rightarrow> ('z gatt_scheme, unit) prog" where
  "aps_ccc_cfg_changed v = ret ()"

section \<open>The handlers of network events in this build\<close>

definition gatt_cb :: "fnptr \<Rightarrow> nat \<Rightarrow> ('z gatt_scheme, unit) prog" where
  "gatt_cb f p = (if f = ''scan_complete'' then scan_complete p else portal_cb f p)"

definition gatt_deliver :: "net_event \<Rightarrow> ('z gatt_scheme, unit) prog" where
  "gatt_deliver = web_deliver gatt_cb"

text \<open>The same, with the end of a scan cut after its callback.\<close>

definition gatt_deliver_prompt :: "net_event \<Rightarrow> ('z gatt_scheme, unit) prog" where
  "gatt_deliver_prompt e =
     (case e of
        WIFI_SCAN_DONE \<Rightarrow> bnd (gets done_callback) (\<lambda>cb. case cb of
            None \<Rightarrow> ret ()
          | Some f \<Rightarrow> bnd (gets ssid_head) (gatt_cb f))
      | _ \<Rightarrow> gatt_deliver e)"

end
