(* ===== verification/Ob_Gatt_Facts.thy ===== *)
theory Ob_Gatt_Facts
  imports Ob_Gatt Ob_Provision
begin

text \<open>
  Facts about src/ob_bluetooth_gatt.c: what the notifications of the list add up to, what the
  list contains under the two orders in which the waiter and the event handler can go on, and
  what a request to join stores.
\<close>

section \<open>Notifications\<close>

text \<open>
  The peer takes a chunk, or has no buffer for it and takes it when it is offered again after
  the pause.
\<close>

definition takes_chunks :: "replier \<Rightarrow> bool" where
  "takes_chunks r \<longleftrightarrow> (\<forall>tr c. r tr (BtGattNotifyCb c) = Some 0 \<or>
     r tr (BtGattNotifyCb c) = Some (- ENOMEM) \<and>
     r (tr @ [BtGattNotifyCb c, KMsleep 10]) (BtGattNotifyCb c) = Some 0)"

lemma notify_taken:
  assumes "reply s (trace s) (BtGattNotifyCb c) = Some e" and "0 \<le> e"
  shows "bt_gatt_notify_cb c s = Inr (e, s\<lparr>trace := trace s @ [BtGattNotifyCb c], notified := notified s @ c\<rparr>)"
  using assms by (simp add: bt_gatt_notify_cb_def)

lemma notify_refused:
  assumes "reply s (trace s) (BtGattNotifyCb c) = Some e" and "e < 0"
  shows "bt_gatt_notify_cb c s = Inr (e, s\<lparr>trace := trace s @ [BtGattNotifyCb c]\<rparr>)"
  using assms by (simp add: bt_gatt_notify_cb_def)

lemma notify_loop_taken:
  assumes "reply s (trace s) (BtGattNotifyCb (take k msg)) = Some 0" and "responsive s" and "msg \<noteq> []"
  defines "s1 \<equiv> s\<lparr>notified := notified s @ take k msg, trace := trace s @ [BtGattNotifyCb (take k msg), KYield]\<rparr>"
  shows "notify_loop (Suc n) k msg s = notify_loop n k (drop k msg) s1"
proof -
  obtain y where "reply s (trace s @ [BtGattNotifyCb (take k msg)]) KYield = Some y"
    using assms(2) by (auto elim: repliesE)
  with notify_taken [OF assms(1)] assms(3) show ?thesis
    by (simp add: ext0_apply ENOMEM_def s1_def)
qed

lemma notify_loop_busy:
  assumes "reply s (trace s) (BtGattNotifyCb (take k msg)) = Some (- ENOMEM)" and "responsive s" and "msg \<noteq> []"
  defines "s1 \<equiv> s\<lparr>trace := trace s @ [BtGattNotifyCb (take k msg), KMsleep 10]\<rparr>"
  shows "notify_loop (Suc n) k msg s = notify_loop n k msg s1"
proof -
  obtain y where "reply s (trace s @ [BtGattNotifyCb (take k msg)]) (KMsleep 10) = Some y"
    using assms(2) by (auto elim: repliesE)
  with notify_refused [OF assms(1)] assms(3) show ?thesis
    by (simp add: ext0_apply ENOMEM_def s1_def)
qed

lemma notify_loop_all:
  fixes s :: "'z gatt_scheme"
  assumes "takes_chunks (reply s)" and "responsive s" and "0 < k" and "2 * length msg \<le> n"
  shows "\<exists>s'. notify_loop n k msg s = Inr (True, s') \<and> notified s' = notified s @ msg"
  using assms
proof (induction "length msg" arbitrary: msg n s rule: less_induct)
  case less
  show ?case
  proof (cases "msg = []")
    case True
    then show ?thesis by (cases n) simp_all
  next
    case False
    then have "1 \<le> length msg" by (cases msg) auto
    with less.prems(4) have "2 \<le> n" by linarith
    then obtain m where n: "n = Suc (Suc m)" by (metis add_2_eq_Suc le_Suc_ex)
    have short: "length (drop k msg) < length msg" using False less.prems(3) by simp
    have go: "\<exists>s'. notify_loop (Suc j) k msg t = Inr (True, s') \<and> notified s' = notified t @ msg"
      if "reply t (trace t) (BtGattNotifyCb (take k msg)) = Some 0" and "reply t = reply s"
        and "2 * length msg \<le> Suc (Suc j)" for t :: "'z gatt_scheme" and j
    proof -
      let ?t1 = "t\<lparr>notified := notified t @ take k msg, trace := trace t @ [BtGattNotifyCb (take k msg), KYield]\<rparr>"
      have resp: "responsive t" using that(2) less.prems(2) by simp
      have "\<exists>s'. notify_loop j k (drop k msg) ?t1 = Inr (True, s') \<and> notified s' = notified ?t1 @ drop k msg"
        by (rule less.hyps [OF short]) (use that less.prems short in \<open>simp_all\<close>)
      then show ?thesis
        unfolding notify_loop_taken [OF that(1) resp False] by simp
    qed
    show ?thesis
    proof (cases "reply s (trace s) (BtGattNotifyCb (take k msg)) = Some 0")
      case True
      with go [of s "Suc m"] less.prems(4) show ?thesis by (simp add: n)
    next
      case busy: False
      let ?s1 = "s\<lparr>trace := trace s @ [BtGattNotifyCb (take k msg), KMsleep 10]\<rparr>"
      from busy less.prems(1) have b: "reply s (trace s) (BtGattNotifyCb (take k msg)) = Some (- ENOMEM)"
        "reply ?s1 (trace ?s1) (BtGattNotifyCb (take k msg)) = Some 0"
        by (auto simp: takes_chunks_def)
      have "\<exists>s'. notify_loop (Suc m) k msg ?s1 = Inr (True, s') \<and> notified s' = notified ?s1 @ msg"
        by (rule go [OF b(2)]) (use less.prems(4) n in simp_all)
      then show ?thesis
        unfolding n notify_loop_busy [OF b(1) less.prems(2) False] by simp
    qed
  qed
qed

text \<open>Whatever the stack answers, what the peer has got is a prefix of the text.\<close>

lemma notify_loop_prefix:
  "notify_loop n k msg s = Inr (b, s') \<Longrightarrow> \<exists>p. prefix p msg \<and> notified s' = notified s @ p"
proof (induction n arbitrary: msg s)
  case 0
  then show ?case by (auto intro: exI [of _ "[]"])
next
  case (Suc n)
  show ?case
  proof (cases "msg = []")
    case True
    with Suc.prems show ?thesis by (auto intro: exI [of _ "[]"])
  next
    case False
    with Suc.prems obtain e s1 where e: "reply s (trace s) (BtGattNotifyCb (take k msg)) = Some e"
      by (auto simp: bt_gatt_notify_cb_def ext_apply split: option.splits)
    consider "e = - ENOMEM" | "e < 0" "e \<noteq> - ENOMEM" | "0 \<le> e" by linarith
    then show ?thesis
    proof cases
      case 1
      then have "e < 0" by (simp add: ENOMEM_def)
      with Suc.prems False 1 notify_refused [OF e this] obtain s2 where
        "notify_loop n k msg s2 = Inr (b, s')" "notified s2 = notified s"
        by (auto simp: ext0_apply split: option.splits)
      with Suc.IH show ?thesis by metis
    next
      case 2
      with Suc.prems False notify_refused [OF e 2(1)] show ?thesis by (auto intro: exI [of _ "[]"])
    next
      case 3
      with Suc.prems False notify_taken [OF e 3] obtain s2 where
        s2: "notify_loop n k (drop k msg) s2 = Inr (b, s')" "notified s2 = notified s @ take k msg"
        by (auto simp: ext0_apply ENOMEM_def split: option.splits)
      from Suc.IH [OF s2(1)] obtain p where "prefix p (drop k msg)" "notified s' = notified s2 @ p" by blast
      then have "prefix (take k msg @ p) msg \<and> notified s' = notified s @ take k msg @ p"
        using s2(2) by (simp add: prefix_def) (metis append.assoc append_take_drop_id)
      then show ?thesis by blast
    qed
  qed
qed

definition small_notes :: "nat \<Rightarrow> 'z kern_scheme \<Rightarrow> bool" where
  "small_notes k s \<longleftrightarrow> (\<forall>x. BtGattNotifyCb x \<in> set (trace s) \<longrightarrow> length x \<le> k)"

lemma keeps_small_notes: "keeps (small_notes k) (notify_loop n k msg)"
proof (induction n arbitrary: msg)
  case 0
  show ?case unfolding notify_loop.simps by (rule keeps_ret)
next
  case (Suc n)
  have one: "keeps (small_notes k) (bt_gatt_notify_cb (take k msg))"
    unfolding bt_gatt_notify_cb_def
    by (intro keeps_intros keeps_ext keeps_modify) (auto simp: small_notes_def)
  show ?case
    unfolding notify_loop.simps
    by (intro keeps_intros keeps_ext0 Suc.IH one) (auto simp: small_notes_def)
qed

lemma mtu_room:
  assumes "3 < mtu" and "mtu < 2 ^ 16"
  shows "0 < unat (word_of_int mtu - 3 :: 16 word)"
proof -
  have "(word_of_int mtu :: 16 word) \<noteq> 3"
  proof
    assume "(word_of_int mtu :: 16 word) = 3"
    then have "uint (word_of_int mtu :: 16 word) = 3" by simp
    with assms show False by (simp add: uint_word_of_int)
  qed
  then show ?thesis by (simp add: unat_gt_0)
qed

text \<open>A connection whose size leaves no room for a byte: the loop never ends.\<close>

lemma notify_loop_stuck:
  assumes "\<And>tr. reply s tr (BtGattNotifyCb []) = Some 0" and "responsive s" and "msg \<noteq> []"
  shows "\<exists>s'. notify_loop n 0 msg s = Inr (False, s')"
  using assms
proof (induction n arbitrary: s)
  case 0
  then show ?case by simp
next
  case (Suc n)
  then show ?case
    using notify_loop_taken [of s 0 msg n] by simp
qed

section \<open>The list\<close>

definition entry_at :: "'z ssids_scheme \<Rightarrow> nat \<Rightarrow> ap_list_entry" where
  "entry_at s a = (let i = the (ssid_heap s a) in (cstr (it_ssid i), it_security i, it_signal_strength i))"

lemma entry_at_Some:
  "ssid_heap s a = Some i \<Longrightarrow> entry_at s a = (cstr (it_ssid i), it_security i, it_signal_strength i)"
  by (simp add: entry_at_def Let_def)

lemma ap_entries_chain:
  assumes "chain (ssid_heap s) p (a # as)" and "\<forall>b \<in> set (a # as). terminated (it_ssid (the (ssid_heap s b)))"
    and "0 < n"
  shows "ap_entries n p s = Inr (take n (map (entry_at s) (a # as)), s)"
  using assms
proof (induction as arbitrary: a p n)
  case Nil
  then obtain i where i: "ssid_heap s a = Some i" "it_next i = 0" "p = a" "a \<noteq> 0" by auto
  obtain m where "n = Suc m" using Nil.prems(3) by (cases n) auto
  with i Nil.prems(2) show ?case by (simp add: load_item_def entry_at_Some)
next
  case (Cons b bs)
  then obtain i where i: "ssid_heap s a = Some i" "chain (ssid_heap s) (it_next i) (b # bs)" "p = a" "a \<noteq> 0" by auto
  obtain m where n: "n = Suc m" using Cons.prems(3) by (cases n) auto
  have more: "it_next i \<noteq> 0" using i(2) by auto
  have t: "terminated (it_ssid i)" using Cons.prems(2) i(1) by simp
  show ?case
  proof (cases "m = 0")
    case True
    with i(1,3,4) t n show ?thesis by (simp add: load_item_def entry_at_Some)
  next
    case False
    then have "ap_entries m (it_next i) s = Inr (take m (map (entry_at s) (b # bs)), s)"
      using Cons.IH [OF i(2)] Cons.prems(2) by simp
    with i(1,3,4) t n False more show ?thesis by (simp add: load_item_def entry_at_Some)
  qed
qed

text \<open>
  The text of an entry is what the JSON library makes of it with the whole buffer as its room;
  it is the same in any room it fits.
\<close>

type_synonym entry_encoder = "string \<Rightarrow> bool \<Rightarrow> int \<Rightarrow> nat \<Rightarrow> string"

definition json_law :: "entry_encoder \<Rightarrow> bool" where
  "json_law enc \<longleftrightarrow> (\<forall>x secure strength room. length (enc x secure strength AP_LIST_DATA_SIZE) < room \<longrightarrow>
     enc x secure strength room = enc x secure strength AP_LIST_DATA_SIZE)"

definition entry_text :: "entry_encoder \<Rightarrow> ap_list_entry \<Rightarrow> string" where
  "entry_text enc e = (case e of (x, secure, strength) \<Rightarrow> enc x secure strength AP_LIST_DATA_SIZE)"

fun with_commas :: "string list \<Rightarrow> string" where
  "with_commas [] = []"
| "with_commas [x] = x"
| "with_commas (x # y # xs) = x @ '','' @ with_commas (y # xs)"

definition entries_text :: "entry_encoder \<Rightarrow> ap_list_entry list \<Rightarrow> string" where
  "entries_text enc es = with_commas (map (entry_text enc) es)"

lemma entries_text_Cons:
  "entries_text enc (e # es) = entry_text enc e @ (if es = [] then [] else '','' @ entries_text enc es)"
  by (cases es) (simp_all add: entries_text_def)

lemma encode_entries_fit:
  assumes law: "json_law (json_entry s)"
    and "length msg + length (entries_text (json_entry s) es) + 1 < AP_LIST_DATA_SIZE"
  shows "encode_entries es msg s = Inr (msg @ entries_text (json_entry s) es, s)"
  using assms(2)
proof (induction es arbitrary: msg)
  case Nil
  then show ?case by (simp add: entries_text_def)
next
  case (Cons e es)
  obtain x secure strength where e: "e = (x, secure, strength)" by (cases e) auto
  let ?x = "entry_text (json_entry s) e"
  let ?room = "AP_LIST_DATA_SIZE - length msg"
  let ?t = "msg @ ?x"
  have room: "length ?x < ?room" using Cons.prems by (simp add: entries_text_Cons)
  then have "json_entry s x secure strength ?room = ?x"
    using law unfolding json_law_def entry_text_def e prod.case by blast
  with room have whole: "in_room ?room (json_entry s x secure strength ?room) = ?x"
    by (simp add: in_room_def)
  show ?case
  proof (cases "es = []")
    case True
    then show ?thesis using whole by (simp add: e entries_text_Cons Let_def)
  next
    case False
    have "encode_entries es (?t @ '','') s = Inr ((?t @ '','') @ entries_text (json_entry s) es, s)"
      by (rule Cons.IH) (use Cons.prems False in \<open>simp add: entries_text_Cons\<close>)
    moreover have "put_end CHR '','' ?t s = Inr (?t @ '','', s)"
      using Cons.prems False by (simp add: put_end_def entries_text_Cons)
    ultimately show ?thesis using False whole by (simp add: e entries_text_Cons Let_def)
  qed
qed

text \<open>The text of an abstract list of networks.\<close>

definition ap_entry :: "ap \<Rightarrow> ap_list_entry" where
  "ap_entry a = (ap_name a, ap_secure a, ap_strength a)"

definition ap_list_text :: "entry_encoder \<Rightarrow> ap list \<Rightarrow> string" where
  "ap_list_text enc l = ''['' @ entries_text enc (take MAX_AP_LIST_LENGTH (map ap_entry l)) @ '']''"

lemma map_entry_at: "map (entry_at s) as = map ap_entry (aps_at (ssid_heap s) as)"
  by (simp add: aps_at_def entry_at_def ap_entry_def ap_of_def Let_def)

lemma update_list_text:
  assumes "chain (ssid_heap s) (ssid_list s) as" "as \<noteq> []"
    and "\<forall>a \<in> set as. terminated (it_ssid (the (ssid_heap s a)))" and "json_law (json_entry s)"
    and "length (ap_list_text (json_entry s) (aps_at (ssid_heap s) as)) < AP_LIST_DATA_SIZE"
  shows "ob_update_ap_list s = Inr ((), s\<lparr>ap_list_count := min (length as) MAX_AP_LIST_LENGTH,
    ap_list_data := ap_list_text (json_entry s) (aps_at (ssid_heap s) as)\<rparr>)"
proof -
  obtain a bs where as: "as = a # bs" using assms(2) by (cases as) auto
  let ?es = "take MAX_AP_LIST_LENGTH (map (entry_at s) as)"
  let ?t = "s\<lparr>ap_list_count := length ?es\<rparr>"
  have read: "ap_entries MAX_AP_LIST_LENGTH (ssid_list s) s = Inr (?es, s)"
    using assms(1,3) unfolding as by (rule ap_entries_chain) (simp add: MAX_AP_LIST_LENGTH_def)
  have "encode_entries ?es ''['' ?t = Inr (''['' @ entries_text (json_entry ?t) ?es, ?t)"
    by (rule encode_entries_fit) (use assms(4,5) in \<open>simp_all add: ap_list_text_def map_entry_at\<close>)
  with read assms(5) show ?thesis
    by (simp add: ob_update_ap_list_def put_end_def ap_list_text_def map_entry_at [symmetric] min.commute)
qed

lemma update_list_empty: "ssid_list s = 0 \<Longrightarrow> ob_update_ap_list s = Inl (NullDeref, s)"
  by (simp add: ob_update_ap_list_def MAX_AP_LIST_LENGTH_def numeral_eq_Suc load_item_def)

lemma update_list_freed:
  "ssid_list s \<noteq> 0 \<Longrightarrow> ssid_heap s (ssid_list s) = None \<Longrightarrow> ob_update_ap_list s = Inl (UseAfterFree, s)"
  by (simp add: ob_update_ap_list_def MAX_AP_LIST_LENGTH_def numeral_eq_Suc load_item_def)

section \<open>Who runs first\<close>

text \<open>
  A scan ends with a list that \<open>scan_complete\<close> is to be told of. If the event handler
  goes on first, it frees the list and the waiter reads freed nodes; if the waiter goes on
  first, it formats the list as it is.
\<close>

lemma scan_complete_apply:
  "reply s (trace s) (KSemGive scan_semaphore) = Some r \<Longrightarrow>
   scan_complete p s = Inr ((), s\<lparr>ssid_list := p, trace := trace s @ [KSemGive scan_semaphore]\<rparr>)"
  by (simp add: scan_complete_def ext0_apply)

lemma handler_first:
  assumes rep: "ssid_rep s as" "as \<noteq> []" and cb: "done_callback s = Some ''scan_complete''" and env: "responsive s"
  shows "\<exists>s'. thn (gatt_deliver WIFI_SCAN_DONE) ob_update_ap_list s = Inl (UseAfterFree, s')"
proof -
  obtain r where r: "reply s (trace s) (KSemGive scan_semaphore) = Some r" using env by (auto elim: repliesE)
  define s1 where "s1 = s\<lparr>ssid_list := ssid_head s, trace := trace s @ [KSemGive scan_semaphore]\<rparr>"
  define s2 where "s2 = s1\<lparr>ssid_heap := Map.empty, ssid_head := 0, ssid_tail := 0\<rparr>"
  have "ssid_rep s1 as" using rep(1) by (simp add: s1_def ssid_rep_def)
  then have "ssid_init_list s1 = Inr ((), s2)" unfolding s2_def by (rule ssid_init_list_rep)
  then have run: "gatt_deliver WIFI_SCAN_DONE s = Inr ((), s2)"
    using cb scan_complete_apply [OF r]
    by (simp add: gatt_deliver_def web_deliver_def wifi_deliver_def ob_wifi_mgmt_event_handler_def
        handle_wifi_scan_done_def gatt_cb_def ob_web_event_handler_def s1_def)
  have "ssid_head s \<noteq> 0" using rep by (cases as) (auto simp: ssid_rep_def)
  then have "ob_update_ap_list s2 = Inl (UseAfterFree, s2)"
    by (intro update_list_freed) (simp_all add: s1_def s2_def)
  with run show ?thesis by simp
qed

lemma waiter_first:
  assumes rep: "ssid_rep s as" "as \<noteq> []" and cb: "done_callback s = Some ''scan_complete''" and env: "responsive s"
    and fit: "json_law (json_entry s)" "length (ap_list_text (json_entry s) (aps_at (ssid_heap s) as)) < AP_LIST_DATA_SIZE"
  shows "thn (gatt_deliver_prompt WIFI_SCAN_DONE) ob_update_ap_list s =
    Inr ((), s\<lparr>ssid_list := ssid_head s, trace := trace s @ [KSemGive scan_semaphore],
      ap_list_count := min (length as) MAX_AP_LIST_LENGTH,
      ap_list_data := ap_list_text (json_entry s) (aps_at (ssid_heap s) as)\<rparr>)"
proof -
  obtain r where r: "reply s (trace s) (KSemGive scan_semaphore) = Some r" using env by (auto elim: repliesE)
  define s1 where "s1 = s\<lparr>ssid_list := ssid_head s, trace := trace s @ [KSemGive scan_semaphore]\<rparr>"
  have run: "gatt_deliver_prompt WIFI_SCAN_DONE s = Inr ((), s1)"
    using cb scan_complete_apply [OF r] by (simp add: gatt_deliver_prompt_def gatt_cb_def s1_def)
  have "ob_update_ap_list s1 = Inr ((), s1\<lparr>ap_list_count := min (length as) MAX_AP_LIST_LENGTH,
      ap_list_data := ap_list_text (json_entry s1) (aps_at (ssid_heap s1) as)\<rparr>)"
    by (rule update_list_text) (use rep fit in \<open>simp_all add: s1_def ssid_rep_def\<close>)
  with run show ?thesis by (simp add: s1_def)
qed
section \<open>From a read to the notifications\<close>

text \<open>What of the state a scan leaves alone.\<close>

definition gatt_same :: "'z gatt_scheme \<Rightarrow> 'z gatt_scheme \<Rightarrow> bool" where
  "gatt_same t s \<longleftrightarrow> reply s = reply t \<and> arrivals s = arrivals t \<and> json_obj_encode_buf s = json_obj_encode_buf t \<and>
     notified s = notified t \<and> done_callback s = done_callback t"

lemma gatt_same_frame: "list_frame (gatt_same t)"
  by (simp add: list_frame_def gatt_same_def)

lemma gatt_same_scan: "keeps (gatt_same t) ob_wifi_scan"
  unfolding ob_wifi_scan_def
  by (intro keeps_intros keeps_ext keeps_ext0 keeps_ssid_init_list gatt_same_frame) (simp_all add: gatt_same_def)

lemma list_models_other [simp]:
  "list_models (s\<lparr>most_recent_scan_time := x\<rparr>) l = list_models s l"
  "list_models (s\<lparr>notified := y\<rparr>) l = list_models s l"
  by (simp_all add: list_models_def ssid_models_def ssid_rep_def)

lemma prompt_scan_results:
  "each (map scan_event rs) (gatt_deliver_prompt :: net_event \<Rightarrow> ('z gatt_scheme, unit) prog) =
   each (map scan_entry rs) (\<lambda>(x, n, sec, str). ssid_add_item x n sec str)"
proof (induction rs)
  case (Cons r rs)
  obtain x n rssi sec where r: "r = (x, n, rssi, sec)" by (cases r)
  have "(gatt_deliver_prompt (scan_event r) :: ('z gatt_scheme, unit) prog) = ssid_add_item x n sec (scan_strength rssi)"
    by (rule HOL.ext) (simp add: r scan_event_def gatt_deliver_prompt_def gatt_deliver_def web_deliver_def
        wifi_deliver_def ob_wifi_mgmt_event_handler_def handle_wifi_scan_result_def ob_web_event_handler_def
        split: sum.split)
  moreover have "scan_entry r = (x, n, sec, scan_strength rssi)" by (simp add: r scan_entry_def)
  ultimately show ?case unfolding list.map each.simps Cons.IH by simp
qed simp

lemma scan_is_formatted:
  fixes s :: "'z gatt_scheme"
  assumes l: "list_models s []" "has_memory (reply s)" and cb: "done_callback s = Some ''scan_complete''"
    and found: "rs \<noteq> []" "l = fold ap_add_result (map scan_entry rs) []"
    and fit: "json_law (json_entry s)" "length (ap_list_text (json_entry s) l) < AP_LIST_DATA_SIZE"
  shows "\<exists>s'. thn (each (map scan_event rs @ [WIFI_SCAN_DONE]) gatt_deliver_prompt)
      (thn ob_update_ap_list ssid_init_list) s = Inr ((), s') \<and>
    gatt_same s s' \<and> list_models s' [] \<and> ap_list_data s' = ap_list_text (json_entry s) l"
proof -
  have "names_distinct []" by (simp add: names_distinct_def)
  from sl.add_all [OF l(1) this, of "map scan_entry rs"] l(2) found(2) obtain s1 where
    s1: "each (map scan_event rs) gatt_deliver_prompt s = Inr ((), s1)" "list_models s1 l"
    unfolding prompt_scan_results by blast
  have "keeps (gatt_same s) (each (map scan_event rs) gatt_deliver_prompt)"
    unfolding prompt_scan_results by (intro keeps_intros keeps_ssid_add_item gatt_same_frame)
  from keeps_Inr [OF this _ s1(1)] have same1: "gatt_same s s1" by (simp add: gatt_same_def)
  obtain as where as: "ssid_rep s1 as" "aps_at (ssid_heap s1) as = l"
    using s1(2) by (auto simp: list_models_def ssid_models_def)
  have "l \<noteq> []" using found by (simp add: found_nonempty)
  with as have ne: "as \<noteq> []" by (auto simp: aps_at_def)
  define s2 where "s2 = s1\<lparr>ssid_list := ssid_head s1, trace := trace s1 @ [KSemGive scan_semaphore],
    ap_list_count := min (length as) MAX_AP_LIST_LENGTH, ap_list_data := ap_list_text (json_entry s) l\<rparr>"
  have upd: "thn (gatt_deliver_prompt WIFI_SCAN_DONE) ob_update_ap_list s1 = Inr ((), s2)"
    using waiter_first [OF as(1) ne] same1 cb s1(2) fit as(2)
    by (simp add: gatt_same_def list_models_def s2_def)
  have same2: "gatt_same s s2" using same1 by (simp add: gatt_same_def s2_def)
  have "list_models s2 l" using s1(2) as by (auto simp: list_models_def ssid_models_def ssid_rep_def s2_def)
  from sl.clear_law [OF this] obtain s3 where s3: "ssid_init_list s2 = Inr ((), s3)" "list_models s3 []" by blast
  have "keeps (\<lambda>t. gatt_same s t \<and> ap_list_data t = ap_list_text (json_entry s) l) ssid_init_list"
    by (rule keeps_ssid_init_list) (simp add: list_frame_def gatt_same_def)
  from keeps_Inr [OF this _ s3(1)] same2 have "gatt_same s s3" "ap_list_data s3 = ap_list_text (json_entry s) l"
    by (simp_all add: s2_def)
  with s1(1) upd s3 show ?thesis
    by (auto simp: each_append split: sum.splits)
qed

lemma read_sends_the_scan:
  fixes s :: "'z gatt_scheme"
  assumes l: "list_models s l0" "has_memory (reply s)" "wifi_inited s" and cb: "done_callback s = Some ''scan_complete''"
    and cfg: "CONFIG_ONBOARDING_WIFI (cfg s)" and first: "ap_list_count s = 0"
    and arr: "\<And>tr. arrivals s tr (KSemTake scan_semaphore (Some SCAN_TIMEOUT)) = map scan_event rs @ [WIFI_SCAN_DONE]"
    and found: "rs \<noteq> []" "l = fold ap_add_result (map scan_entry rs) []"
    and fit: "json_law (json_entry s)" "length (ap_list_text (json_entry s) l) < AP_LIST_DATA_SIZE"
    and peer: "takes_chunks (reply s)" "\<And>tr. reply s tr BtGattGetMtu = Some mtu" "3 < mtu" "mtu < 2 ^ 16"
    and fuel: "2 * length (ap_list_text (json_entry s) l) \<le> n"
  shows "\<exists>s'. send_ap_list_work_handler n gatt_deliver_prompt ssid_init_list s = Inr (True, s') \<and>
    notified s' = notified s @ ap_list_text (json_entry s) l"
proof -
  have env: "responsive s" using l(1) by (simp add: list_models_def)
  obtain now where now: "reply s (trace s) KUptimeGet = Some now" using env by (auto elim: repliesE)
  define s1 where "s1 = s\<lparr>trace := trace s @ [KUptimeGet]\<rparr>"
  have "list_models s1 l0" "wifi_inited s1" using l(1,3) by (simp_all add: s1_def)
  from scan_starts [OF this] obtain s2 where s2: "ob_wifi_scan s1 = Inr (0, s2)" "list_models s2 []" by blast
  have "gatt_same s s1" by (simp add: gatt_same_def s1_def)
  from keeps_Inr [OF gatt_same_scan this s2(1)] have same2: "gatt_same s s2" .
  let ?take = "KSemTake scan_semaphore (Some SCAN_TIMEOUT)"
  obtain r where r: "reply s2 (trace s2) ?take = Some r"
    using env same2 by (auto simp: gatt_same_def elim: repliesE)
  define s3 where "s3 = s2\<lparr>most_recent_scan_time := word_of_int now, trace := trace s2 @ [?take]\<rparr>"
  have l3: "list_models s3 []" using s2(2) by (simp add: s3_def list_models_def ssid_models_def ssid_rep_def)
  have same3: "gatt_same s s3" using same2 by (simp add: gatt_same_def s3_def)
  from scan_is_formatted [OF l3 _ _ found] same3 l(2) cb fit obtain s4 where
    s4: "thn (each (map scan_event rs @ [WIFI_SCAN_DONE]) gatt_deliver_prompt)
        (thn ob_update_ap_list ssid_init_list) s3 = Inr ((), s4)"
      "gatt_same s3 s4" "ap_list_data s4 = ap_list_text (json_entry s) l"
    by (auto simp: gatt_same_def)
  then obtain t u where parts: "each (map scan_event rs @ [WIFI_SCAN_DONE]) gatt_deliver_prompt s3 = Inr ((), t)"
    "ob_update_ap_list t = Inr ((), u)" "ssid_init_list u = Inr ((), s4)"
    unfolding thn_Inr by auto
  then have run: "scan_and_update_list gatt_deliver_prompt ssid_init_list s = Inr ((), s4)"
    using now s2(1) r same2 arr first
    by (simp add: scan_and_update_list_def Let_def s1_def s3_def ext_wait_def gatt_same_def)
  have same4: "reply s4 = reply s" "notified s4 = notified s" using same3 s4(2) by (simp_all add: gatt_same_def)
  let ?k = "unat (word_of_int mtu - 3 :: 16 word)"
  let ?s5 = "s4\<lparr>trace := trace s4 @ [BtGattGetMtu]\<rparr>"
  have k: "0 < ?k" using peer(3,4) by (rule mtu_room)
  have "\<exists>s'. notify_loop n ?k (ap_list_text (json_entry s) l) ?s5 = Inr (True, s') \<and>
      notified s' = notified ?s5 @ ap_list_text (json_entry s) l"
    by (rule notify_loop_all) (use same4 peer(1) env k fuel in simp_all)
  with run cfg s4(3) same4 peer(2) show ?thesis by (simp add: send_ap_list_work_handler_def)
qed

section \<open>Joining\<close>

lemma keeps_store_gatt_cb: "keeps (store_is m s0) (gatt_cb f p)"
  unfolding gatt_cb_def scan_complete_def
  by (intro keeps_intros keeps_modify keeps_ext0 keeps_quiet_cb quiet_frame_store)
    (simp_all add: store_is_def store_step_def)

lemma keeps_store_gatt_deliver: "keeps (store_is m s0) (gatt_deliver e)"
  unfolding gatt_deliver_def by (intro keeps_quiet_web_deliver quiet_frame_store keeps_store_gatt_cb)

lemma keeps_store_connect:
  assumes "\<And>e. keeps (store_is m s0) (deliver e)"
  shows "keeps (store_is m s0) (ob_wifi_connect deliver)"
  unfolding ob_wifi_connect_def
  by (intro keeps_intros keeps_exts keeps_connect_loop assms)
    (auto simp: store_is_def store_step_def)

text \<open>The state from which \<open>ob_join_network\<close> connects.\<close>

definition join_ready :: "string \<Rightarrow> string \<Rightarrow> 'z gatt_scheme \<Rightarrow> 'z gatt_scheme" where
  "join_ready x y s = s\<lparr>current_ap_data := in_room CURRENT_AP_DATA_SIZE (json_current s x [] CURRENT_AP_DATA_SIZE),
     gSSID := fill_buf (gSSID s) (x @ [NUL]), gSSID_len := int (length x),
     gPSK := fill_buf (gPSK s) (y @ [NUL]), gPSK_len := int (length y)\<rparr>"

lemma join_ready_fields [simp]:
  "trace (join_ready x y s) = trace s" "reply (join_ready x y s) = reply s" "flash0 (join_ready x y s) = flash0 s"
  by (simp_all add: join_ready_def)

lemma join_ready_request:
  assumes "length x < length (gSSID s)" and "length y < length (gPSK s)"
  shows "connect_request (join_ready x y s) = NET_REQUEST_WIFI_CONNECT x y"
  using assms by (simp add: connect_request_def join_ready_def fill_buf_def)

lemma write_saves:
  assumes "\<And>tr k v. reply s tr (SettingsSaveOne k v) = Some 0"
  shows "ob_nvs_data_write k v (length v) s = Inr (0, s\<lparr>trace := trace s @ [SettingsSaveOne k v]\<rparr>)"
  using assms by (simp add: ob_nvs_data_write_def)

lemma join_saves:
  fixes s :: "'z gatt_scheme"
  assumes len: "length x < WIFI_SSID_MAX_LEN (cfg s)" "length y < WIFI_PSK_MAX_LEN (cfg s)"
    and saves: "\<And>tr k v. reply s tr (SettingsSaveOne k v) = Some 0"
    and run: "ob_join_network gatt_deliver x y s = Inr ((), s')"
  shows "\<exists>rc s1. ob_wifi_connect gatt_deliver (join_ready x y s) = Inr (rc, s1) \<and>
    store s' = (if rc = 0 then (store s)(NVS_SETTINGS_ID_WIFI_SSID \<mapsto> x, NVS_SETTINGS_ID_WIFI_PSK \<mapsto> y) else store s)"
proof -
  from run len obtain rc s1 where conn: "ob_wifi_connect gatt_deliver (join_ready x y s) = Inr (rc, s1)"
    by (auto simp: ob_join_network_def set_current_ap_def join_ready_def split: sum.splits)
  have "store_is (store s) s (join_ready x y s)" by (simp add: store_is_def)
  from keeps_Inr [OF keeps_store_connect [OF keeps_store_gatt_deliver] this conn]
  have st1: "store_is (store s) s s1" .
  then have saves1: "reply s1 tr (SettingsSaveOne k v) = Some 0" for tr k v
    using saves by (simp add: store_is_def)
  define rest :: "('z gatt_scheme, unit) prog" where
    "rest = bnd (gets current_ap_data) (\<lambda>msg. ext0 (BtGattNotify msg))"
  have rest: "keeps (store_is m s0) rest" for m s0
    unfolding rest_def by (intro keeps_intros keeps_ext0) (simp add: store_is_def store_step_def)
  have tail: "thn (if rc = 0 then
              bnd (ob_nvs_data_write NVS_SETTINGS_ID_WIFI_SSID x (length x)) (\<lambda>_.
              bnd (ob_nvs_data_write NVS_SETTINGS_ID_WIFI_PSK y (length y)) (\<lambda>_. ret ()))
            else set_current_ap x ''Failed to connect.'') rest s1 = Inr ((), s')"
    using run len conn
    by (simp add: ob_join_network_def set_current_ap_def [of x "[]"] join_ready_def rest_def)
  show ?thesis
  proof (cases "rc = 0")
    case True
    let ?m = "(store s)(NVS_SETTINGS_ID_WIFI_SSID \<mapsto> x, NVS_SETTINGS_ID_WIFI_PSK \<mapsto> y)"
    define s3 where "s3 = s1\<lparr>trace := trace s1 @
      [SettingsSaveOne NVS_SETTINGS_ID_WIFI_SSID x, SettingsSaveOne NVS_SETTINGS_ID_WIFI_PSK y]\<rparr>"
    have "store_is ?m s s3"
      using st1 saves by (simp add: store_is_def s3_def store_at_two store_step_def)
    moreover have "rest s3 = Inr ((), s')"
      using tail True write_saves [OF saves1] saves1
      by (simp add: s3_def ob_nvs_data_write_def)
    ultimately have "store_is ?m s s'" using keeps_Inr [OF rest] by blast
    then show ?thesis using conn True by (auto simp: store_is_def)
  next
    case False
    then obtain z where z: "rest (s1\<lparr>current_ap_data := z\<rparr>) = Inr ((), s')"
      using tail by (auto simp: set_current_ap_def)
    have "store_is (store s) s (s1\<lparr>current_ap_data := z\<rparr>)" using st1 by (simp add: store_is_def)
    from keeps_Inr [OF rest this z] have "store_is (store s) s s'" .
    then show ?thesis using conn False by (auto simp: store_is_def)
  qed
qed

section \<open>Writes\<close>

text \<open>A write that ends exactly at the end of the buffer puts its terminator behind it.\<close>

lemma full_write_overruns:
  assumes "offset + length buf = WRITE_BUFFER_SIZE"
  shows "\<exists>s'. write_current_ap deliver buf offset flgs s = Inl (OutOfBounds, s')"
  using assms by (simp add: write_current_ap_def)

text \<open>The test of the flags is always true: each fragment of a long write is parsed by itself.\<close>

lemma every_write_executes: "(flgs :: 8 word) OR 4 OR 2 \<noteq> 0"
proof -
  have "bit (flgs OR 4 OR 2) 1" by (simp add: bit_or_iff bit_simps)
  then show ?thesis by auto
qed

text \<open>A whole request in one write.\<close>

lemma write_joins:
  assumes "length buf < WRITE_BUFFER_SIZE" and "nul_free buf" and "length (tmp_write_buffer s) = WRITE_BUFFER_SIZE"
    and "json_parse s buf = (res, Some x, Some y)" and "0 \<le> res"
  shows "write_current_ap deliver buf 0 flgs s = thn (ob_join_network deliver x y) (ret (int (length buf)))
    (s\<lparr>tmp_write_buffer := buf @ NUL # drop (Suc (length buf)) (tmp_write_buffer s)\<rparr>)"
proof -
  have "drop (length buf) (tmp_write_buffer s) \<noteq> []" using assms(1,3) by simp
  then obtain c where c: "drop (length buf) (tmp_write_buffer s) = c # drop (Suc (length buf)) (tmp_write_buffer s)"
    by (metis Cons_nth_drop_Suc drop_eq_Nil not_less)
  show ?thesis
    using assms every_write_executes [of flgs]
    by (simp add: write_current_ap_def c list_update_end)
qed

lemma gatt_connect_success:
  assumes "ob_wifi_connect gatt_deliver s = Inr (0, s')"
  shows "\<exists>iface tr. iface \<noteq> 0 \<and> reply s tr (NetMgmt (connect_request s) iface) = Some 0"
proof -
  have "keeps (\<lambda>s. reply s = r) (gatt_cb f p)" for r f p
    unfolding gatt_cb_def scan_complete_def
    by (intro keeps_intros keeps_modify keeps_ext0 keeps_quiet_cb quiet_frame_reply) simp_all
  then have "keeps (\<lambda>s. reply s = r) (gatt_deliver e)" for e r
    unfolding gatt_deliver_def by (intro keeps_quiet_web_deliver quiet_frame_reply)
  from connect_success [OF this assms] show ?thesis by blast
qed

text \<open>A write stores a network only after the wifi has accepted the request to join it.\<close>

lemma write_saves_accepted:
  fixes s :: "'z gatt_scheme"
  assumes buf: "length buf < WRITE_BUFFER_SIZE" "nul_free buf" "length (tmp_write_buffer s) = WRITE_BUFFER_SIZE"
    and parsed: "json_parse s buf = (res, Some x, Some y)" "0 \<le> res"
    and arrays: "length (gSSID s) = WIFI_SSID_MAX_LEN (cfg s)" "length (gPSK s) = WIFI_PSK_MAX_LEN (cfg s)"
    and len: "length x < WIFI_SSID_MAX_LEN (cfg s)" "length y < WIFI_PSK_MAX_LEN (cfg s)"
    and saves: "\<And>tr k v. reply s tr (SettingsSaveOne k v) = Some 0"
    and run: "write_current_ap gatt_deliver buf 0 flgs s = Inr (r, s')"
  shows "r = int (length buf) \<and> (store s' = store s \<or>
    store s' = (store s)(NVS_SETTINGS_ID_WIFI_SSID \<mapsto> x, NVS_SETTINGS_ID_WIFI_PSK \<mapsto> y) \<and>
    (\<exists>iface tr. iface \<noteq> 0 \<and> reply s tr (NetMgmt (NET_REQUEST_WIFI_CONNECT x y) iface) = Some 0))"
proof -
  let ?s = "s\<lparr>tmp_write_buffer := buf @ NUL # drop (Suc (length buf)) (tmp_write_buffer s)\<rparr>"
  from run write_joins [OF buf parsed, of gatt_deliver flgs]
  have join: "ob_join_network gatt_deliver x y ?s = Inr ((), s')" and r: "r = int (length buf)"
    by (auto split: sum.splits)
  have "length x < WIFI_SSID_MAX_LEN (cfg ?s)" "length y < WIFI_PSK_MAX_LEN (cfg ?s)" using len by simp_all
  from join_saves [OF this _ join] saves obtain rc s1 where
    conn: "ob_wifi_connect gatt_deliver (join_ready x y ?s) = Inr (rc, s1)"
    and st: "store s' = (if rc = 0 then (store ?s)(NVS_SETTINGS_ID_WIFI_SSID \<mapsto> x, NVS_SETTINGS_ID_WIFI_PSK \<mapsto> y)
      else store ?s)" by auto
  have req: "connect_request (join_ready x y ?s) = NET_REQUEST_WIFI_CONNECT x y"
    by (rule join_ready_request) (use arrays len in simp_all)
  show ?thesis
  proof (cases "rc = 0")
    case True
    with conn have "ob_wifi_connect gatt_deliver (join_ready x y ?s) = Inr (0, s1)" by simp
    from gatt_connect_success [OF this] req st r True show ?thesis by auto
  next
    case False
    with st r show ?thesis by simp
  qed
qed

text \<open>A list obtained more than five seconds ago is taken as it is; a newer one is scanned again.\<close>

lemma old_list_is_kept:
  assumes "reply s (trace s) KUptimeGet = Some now"
    and "MIN_SCAN_INTERVAL_MS < word_of_int now - most_recent_scan_time s" and "0 < ap_list_count s"
  shows "scan_and_update_list deliver pending s = Inr ((), s\<lparr>trace := trace s @ [KUptimeGet]\<rparr>)"
  using assms by (simp add: scan_and_update_list_def Let_def)

end
