(* ===== verification/Ob_Gatt_Session.thy ===== *)
theory Ob_Gatt_Session
  imports Ob_Gatt_Facts
begin

text \<open>
  A session of the GATT service: any sequence of reads and writes a peer may make through the
  table \<open>primary_service\<close>, and of runs of the work item that sends the list. The stack, which
  is not under src/, dispatches a request only if the permission of the attribute allows it on
  the link; the theory shows what such a session can do to the store, and what the next start-up
  makes of it.
\<close>

unbundle bit_operations_syntax

section \<open>Steps\<close>

text \<open>
  A permission with \<open>ENCRYPT\<close> requires an encrypted link for its kind of access.
\<close>

definition may_read :: "bool \<Rightarrow> 16 word \<Rightarrow> bool" where
  "may_read enc perm \<longleftrightarrow> perm AND (BT_GATT_PERM_READ OR BT_GATT_PERM_READ_ENCRYPT) \<noteq> 0 \<and>
     (perm AND BT_GATT_PERM_READ_ENCRYPT \<noteq> 0 \<longrightarrow> enc)"

definition may_write :: "bool \<Rightarrow> 16 word \<Rightarrow> bool" where
  "may_write enc perm \<longleftrightarrow> perm AND (BT_GATT_PERM_WRITE OR BT_GATT_PERM_WRITE_ENCRYPT) \<noteq> 0 \<and>
     (perm AND BT_GATT_PERM_WRITE_ENCRYPT \<noteq> 0 \<longrightarrow> enc)"

definition run_read :: "fnptr \<Rightarrow> int \<Rightarrow> nat \<Rightarrow> nat \<Rightarrow> ('z gatt_scheme, int) prog" where
  "run_read f conn len offset =
     (if f = ''read_aps'' then read_aps conn len offset
      else if f = ''read_current_ap'' then read_current_ap len offset
      else halted NullCall)"

definition run_write :: "fnptr \<Rightarrow> string \<Rightarrow> nat \<Rightarrow> 8 word \<Rightarrow> ('z gatt_scheme, int) prog" where
  "run_write f buf offset flgs =
     (if f = ''write_current_ap'' then write_current_ap gatt_deliver buf offset flgs
      else halted NullCall)"

text \<open>
  The work item, once it has been submitted: a scan that ends while it waits is handled before
  the list is freed, or none ends.
\<close>

definition work_submitted :: "'z kern_scheme \<Rightarrow> bool" where
  "work_submitted s \<longleftrightarrow> KWorkSubmit ''send_ap_list_work_handler'' \<in> set (trace s)"

inductive gatt_step :: "bool \<Rightarrow> 'z gatt_scheme \<Rightarrow> 'z gatt_scheme \<Rightarrow> bool" for enc where
  peer_read: "BT_GATT_CHARACTERISTIC ch \<in> set primary_service \<Longrightarrow> ch_read ch = Some f \<Longrightarrow> may_read enc (ch_perm ch) \<Longrightarrow>
     run_read f conn len offset s = Inr (r, s') \<Longrightarrow> gatt_step enc s s'"
| peer_write: "BT_GATT_CHARACTERISTIC ch \<in> set primary_service \<Longrightarrow> ch_write ch = Some f \<Longrightarrow> may_write enc (ch_perm ch) \<Longrightarrow>
     run_write f buf offset flgs s = Inr (r, s') \<Longrightarrow> gatt_step enc s s'"
| peer_configure: "BT_GATT_CCC f perm \<in> set primary_service \<Longrightarrow> may_write enc perm \<Longrightarrow>
     aps_ccc_cfg_changed v s = Inr ((), s') \<Longrightarrow> gatt_step enc s s'"
| scanned: "work_submitted s \<Longrightarrow>
     send_ap_list_work_handler n gatt_deliver_prompt ssid_init_list s = Inr (b, s') \<Longrightarrow> gatt_step enc s s'"
| late: "work_submitted s \<Longrightarrow>
     send_ap_list_work_handler n gatt_deliver (ret ()) s = Inr (b, s') \<Longrightarrow> gatt_step enc s s'"

inductive gatt_session :: "bool \<Rightarrow> 'z gatt_scheme \<Rightarrow> 'z gatt_scheme \<Rightarrow> bool" for enc s0 where
  start: "gatt_session enc s0 s0"
| step: "gatt_session enc s0 s \<Longrightarrow> gatt_step enc s s' \<Longrightarrow> gatt_session enc s0 s'"

section \<open>The table\<close>

lemmas table_simps = primary_service_def may_read_def may_write_def BT_GATT_PERM_READ_def BT_GATT_PERM_WRITE_def
  BT_GATT_PERM_READ_ENCRYPT_def BT_GATT_PERM_WRITE_ENCRYPT_def

text \<open>Nothing of the service can be reached without encryption.\<close>

lemma table_encrypted:
  "BT_GATT_CHARACTERISTIC ch \<in> set primary_service \<Longrightarrow> may_read enc (ch_perm ch) \<Longrightarrow> enc"
  "BT_GATT_CHARACTERISTIC ch \<in> set primary_service \<Longrightarrow> may_write enc (ch_perm ch) \<Longrightarrow> enc"
  "BT_GATT_CCC f perm \<in> set primary_service \<Longrightarrow> may_write enc perm \<Longrightarrow> enc"
  by (auto simp: table_simps)

lemma table_handlers:
  "BT_GATT_CHARACTERISTIC ch \<in> set primary_service \<Longrightarrow> ch_read ch = Some f \<Longrightarrow> f \<in> {''read_aps'', ''read_current_ap''}"
  "BT_GATT_CHARACTERISTIC ch \<in> set primary_service \<Longrightarrow> ch_write ch = Some f \<Longrightarrow> f = ''write_current_ap''"
  by (auto simp: primary_service_def)

section \<open>What the operations leave alone\<close>

definition gatt_frame :: "('z gatt_scheme \<Rightarrow> bool) \<Rightarrow> bool" where
  "gatt_frame I \<longleftrightarrow> quiet_frame I \<and> (\<forall>s. I s \<longrightarrow>
     (\<forall>x. I (s\<lparr>ssid_list := x\<rparr>)) \<and> (\<forall>x. I (s\<lparr>ap_list_count := x\<rparr>)) \<and> (\<forall>x. I (s\<lparr>ap_list_data := x\<rparr>)) \<and>
     (\<forall>x. I (s\<lparr>notified := x\<rparr>)) \<and> (\<forall>x. I (s\<lparr>most_recent_scan_time := x\<rparr>)) \<and>
     (\<forall>x. I (s\<lparr>work_handler_conn_pointer := x\<rparr>)))"

lemma gatt_frame_quiet: "gatt_frame I \<Longrightarrow> quiet_frame I"
  by (simp add: gatt_frame_def)

lemma gatt_frame_fields:
  assumes "gatt_frame I" and "I s"
  shows "I (s\<lparr>ssid_list := a\<rparr>)" "I (s\<lparr>ap_list_count := a\<rparr>)" "I (s\<lparr>ap_list_data := x\<rparr>)" "I (s\<lparr>notified := x\<rparr>)"
    "I (s\<lparr>most_recent_scan_time := w\<rparr>)" "I (s\<lparr>work_handler_conn_pointer := c\<rparr>)"
  using assms by (simp_all add: gatt_frame_def)

lemma keeps_gatt_cb: "gatt_frame I \<Longrightarrow> keeps I (gatt_cb f p)"
  unfolding gatt_cb_def scan_complete_def
  by (intro keeps_quiet keeps_modify keeps_quiet_cb)
    (simp_all add: gatt_frame_fields gatt_frame_quiet quiet_call_def)

lemma keeps_gatt_deliver: "gatt_frame I \<Longrightarrow> keeps I (gatt_deliver e)"
  unfolding gatt_deliver_def by (intro keeps_quiet_web_deliver gatt_frame_quiet keeps_gatt_cb)

lemma keeps_gatt_prompt:
  assumes "gatt_frame I" shows "keeps I (gatt_deliver_prompt e)"
proof -
  note k = keeps_gatt_cb [OF assms] keeps_gatt_deliver [OF assms]
  show ?thesis
    unfolding gatt_deliver_prompt_def
    by (cases e) (auto intro!: keeps_intros k)
qed

lemma keeps_ap_entries: "keeps I (ap_entries n p)"
  by (induction n arbitrary: p) (auto intro!: keeps_intros keeps_load_item keeps_str_of)

lemma keeps_encode_entries: "keeps I (encode_entries es msg)"
proof (induction es arbitrary: msg)
  case Nil
  show ?case unfolding encode_entries.simps by (rule keeps_ret)
next
  case (Cons e es)
  obtain x secure strength where e: "e = (x, secure, strength)" by (cases e) auto
  show ?case
    unfolding e encode_entries.simps put_end_def Let_def by (intro keeps_intros Cons.IH)
qed

lemma keeps_update_list: "gatt_frame I \<Longrightarrow> keeps I ob_update_ap_list"
  unfolding ob_update_ap_list_def put_end_def
  by (intro keeps_intros keeps_ap_entries keeps_encode_entries keeps_modify) (simp_all add: gatt_frame_fields)

lemma keeps_notify: "gatt_frame I \<Longrightarrow> keeps I (notify_loop n k msg)"
proof (induction n arbitrary: msg)
  case 0
  show ?case unfolding notify_loop.simps by (rule keeps_ret)
next
  case (Suc n)
  show ?case
    unfolding notify_loop.simps bt_gatt_notify_cb_def
    by (intro keeps_quiet keeps_modify Suc) (use Suc.prems in \<open>simp_all add: gatt_frame_fields gatt_frame_quiet quiet_call_def\<close>)
qed

lemma keeps_work:
  assumes "gatt_frame I" and "\<And>e. keeps I (deliver e)" and "keeps I pending"
  shows "keeps I (send_ap_list_work_handler n deliver pending)"
  unfolding send_ap_list_work_handler_def scan_and_update_list_def ob_wifi_scan_def Let_def
  by (intro keeps_quiet keeps_modify keeps_notify keeps_update_list quiet_frame_list gatt_frame_quiet assms)
    (use assms(1) in \<open>simp_all add: gatt_frame_fields gatt_frame_quiet quiet_call_def\<close>)

lemma keeps_read: "gatt_frame I \<Longrightarrow> keeps I (run_read f conn len offset)"
  unfolding run_read_def read_aps_def read_current_ap_def
  by (intro keeps_quiet keeps_modify) (simp_all add: gatt_frame_fields gatt_frame_quiet quiet_call_def)

lemma gatt_step_frame:
  assumes "gatt_step enc s s'" and I: "gatt_frame I" "I s"
  obtains (same) "I s'"
  | (written) buf offset flgs r where "write_current_ap gatt_deliver buf offset flgs s = Inr (r, s')" "enc"
  using assms(1)
proof (cases rule: gatt_step.cases)
  case (peer_read ch f conn len offset r)
  with keeps_Inr [OF keeps_read [OF I(1)] I(2)] same show thesis by blast
next
  case (peer_write ch f buf offset flgs r)
  with table_handlers(2) [of ch f] table_encrypted(2) [of ch enc] written show thesis by (simp add: run_write_def)
next
  case (peer_configure f perm v)
  with I(2) same show thesis by (simp add: aps_ccc_cfg_changed_def)
next
  case (scanned n b)
  have "keeps I ssid_init_list" by (intro keeps_ssid_init_list quiet_frame_list gatt_frame_quiet I)
  from keeps_Inr [OF keeps_work [OF I(1) keeps_gatt_prompt [OF I(1)] this] I(2) scanned(2)] same show thesis by blast
next
  case (late n b)
  from keeps_Inr [OF keeps_work [OF I(1) keeps_gatt_deliver [OF I(1)] keeps_ret] I(2) late(2)] same show thesis by blast
qed

section \<open>A write\<close>

lemma keeps_trace_connect:
  assumes "\<And>s c. K s \<Longrightarrow> K (s\<lparr>trace := trace s @ [c]\<rparr>)" and "\<And>e. keeps K (deliver e)"
  shows "keeps K (ob_wifi_connect deliver)"
  unfolding ob_wifi_connect_def by (intro keeps_intros keeps_exts keeps_connect_loop assms)

text \<open>A property of fields a write leaves alone, whatever it calls.\<close>

definition write_frame :: "('z gatt_scheme \<Rightarrow> bool) \<Rightarrow> bool" where
  "write_frame K \<longleftrightarrow> gatt_frame K \<and> (\<forall>s. K s \<longrightarrow>
     (\<forall>c. K (s\<lparr>trace := trace s @ [c]\<rparr>)) \<and> (\<forall>x. K (s\<lparr>current_ap_data := x\<rparr>)) \<and>
     (\<forall>x. K (s\<lparr>tmp_write_buffer := x\<rparr>)) \<and> (\<forall>x n. K (s\<lparr>gSSID := fill_buf (gSSID s) x, gSSID_len := n\<rparr>)) \<and>
     (\<forall>x n. K (s\<lparr>gPSK := fill_buf (gPSK s) x, gPSK_len := n\<rparr>)))"

lemma write_frame_fields:
  assumes "write_frame K"
  shows "gatt_frame K" "\<And>s c. K s \<Longrightarrow> K (s\<lparr>trace := trace s @ [c]\<rparr>)" "\<And>s. K s \<Longrightarrow> K (s\<lparr>current_ap_data := x\<rparr>)"
    "\<And>s. K s \<Longrightarrow> K (s\<lparr>tmp_write_buffer := x\<rparr>)" "\<And>s. K s \<Longrightarrow> K (s\<lparr>gSSID := fill_buf (gSSID s) x, gSSID_len := n\<rparr>)"
    "\<And>s. K s \<Longrightarrow> K (s\<lparr>gPSK := fill_buf (gPSK s) x, gPSK_len := n\<rparr>)"
  using assms by (simp_all add: write_frame_def)

lemma keeps_join:
  assumes "write_frame K"
  shows "keeps K (ob_join_network gatt_deliver x y)"
  unfolding ob_join_network_def set_current_ap_def ob_nvs_data_write_def
  by (intro keeps_intros keeps_exts keeps_modify keeps_trace_connect keeps_gatt_deliver write_frame_fields [OF assms])

lemma keeps_write:
  assumes "write_frame K"
  shows "keeps K (write_current_ap gatt_deliver buf offset flgs)"
  unfolding write_current_ap_def
  by (intro keeps_intros keeps_modify keeps_join assms write_frame_fields [OF assms])

text \<open>A join that returns has checked the lengths; a write that returns may have joined.\<close>

lemma join_lengths:
  assumes run: "ob_join_network deliver x y s = Inr ((), s')"
  shows "length x < WIFI_SSID_MAX_LEN (cfg s)" "length y < WIFI_PSK_MAX_LEN (cfg s)"
proof -
  show x: "length x < WIFI_SSID_MAX_LEN (cfg s)"
    by (rule ccontr) (use run in \<open>simp add: ob_join_network_def set_current_ap_def\<close>)
  show "length y < WIFI_PSK_MAX_LEN (cfg s)"
    by (rule ccontr) (use run x in \<open>simp add: ob_join_network_def set_current_ap_def\<close>)
qed

lemma write_returns:
  fixes s :: "'z gatt_scheme"
  assumes run: "write_current_ap deliver buf offset flgs s = Inr (r, s')"
  obtains (refused) "s' = s" | (unparsed) b where "s' = s\<lparr>tmp_write_buffer := b\<rparr>"
    | (joined) b x y where "ob_join_network deliver x y (s\<lparr>tmp_write_buffer := b\<rparr>) = Inr ((), s')"
proof (cases "WRITE_BUFFER_SIZE < offset + length buf")
  case True
  with run show thesis by (intro refused) (simp add: write_current_ap_def)
next
  case False
  define b where "b = (take offset (tmp_write_buffer s) @ buf @ drop (offset + length buf) (tmp_write_buffer s))
    [offset + length buf := NUL]"
  define t where "t = s\<lparr>tmp_write_buffer := b\<rparr>"
  have fits: "offset + length buf < WRITE_BUFFER_SIZE"
    by (rule ccontr) (use run False in \<open>simp add: write_current_ap_def\<close>)
  obtain result ssid passcode where p: "json_parse s (cstr b) = (result, ssid, passcode)" by (metis prod_cases3)
  have run': "(if result < 0 then ret (- ATT_ERR_VALUE_NOT_ALLOWED)
      else (case (ssid, passcode) of
          (Some x, Some y) \<Rightarrow> thn (ob_join_network deliver x y) (ret (int (length buf)))
        | _ \<Rightarrow> halted Uninitialised)) t = Inr (r, s')"
    using run False fits every_write_executes [of flgs] p
    by (simp add: write_current_ap_def b_def t_def)
  show thesis
  proof (cases "result < 0")
    case True
    with run' show thesis by (intro unparsed [of b]) (simp add: t_def)
  next
    case False
    with run' obtain x y where "thn (ob_join_network deliver x y) (ret (int (length buf))) t = Inr (r, s')"
      by (cases ssid; cases passcode) auto
    then have "ob_join_network deliver x y t = Inr ((), s')"
      by (cases "ob_join_network deliver x y t") auto
    then show thesis unfolding t_def by (rule joined)
  qed
qed

section \<open>What a session does to the store\<close>

text \<open>A network the platform has been asked to join, with a key, and has accepted.\<close>

definition accepts_network :: "'z kern_scheme \<Rightarrow> string \<Rightarrow> string \<Rightarrow> bool" where
  "accepts_network s x y \<longleftrightarrow>
     (\<exists>iface tr. iface \<noteq> 0 \<and> reply s tr (NetMgmt (NET_REQUEST_WIFI_CONNECT x y) iface) = Some 0)"

text \<open>The fields that fix the platform and the device, and the sizes of its two arrays.\<close>

definition gatt_base :: "'z gatt_scheme \<Rightarrow> 'z gatt_scheme \<Rightarrow> bool" where
  "gatt_base t s \<longleftrightarrow> reply s = reply t \<and> cfg s = cfg t \<and>
     length (gSSID s) = length (gSSID t) \<and> length (gPSK s) = length (gPSK t)"

lemma write_frame_base: "write_frame (gatt_base t)"
  by (simp add: write_frame_def gatt_frame_def quiet_frame_def gatt_base_def)

lemma gatt_frame_store: "gatt_frame (store_is m t)"
  using quiet_frame_store [of m t] by (simp add: gatt_frame_def store_is_def)

lemma step_base: "gatt_step enc s s' \<Longrightarrow> gatt_base t s \<Longrightarrow> gatt_base t s'"
  by (erule gatt_step_frame [OF _ write_frame_fields(1) [OF write_frame_base]])
    (auto dest: keeps_Inr [OF keeps_write [OF write_frame_base]])

definition stored_network :: "(string \<rightharpoonup> string) \<Rightarrow> string \<Rightarrow> string \<Rightarrow> (string \<rightharpoonup> string)" where
  "stored_network m x y = m(NVS_SETTINGS_ID_WIFI_SSID \<mapsto> x, NVS_SETTINGS_ID_WIFI_PSK \<mapsto> y)"

lemma stored_again: "stored_network (stored_network m x0 y0) x y = stored_network m x y"
  by (rule HOL.ext) (simp add: stored_network_def)

definition joinable :: "'z gatt_scheme \<Rightarrow> string \<Rightarrow> string \<Rightarrow> bool" where
  "joinable s x y \<longleftrightarrow> accepts_network s x y \<and>
     length x < WIFI_SSID_MAX_LEN (cfg s) \<and> length y < WIFI_PSK_MAX_LEN (cfg s)"

lemma join_stores:
  fixes s :: "'z gatt_scheme"
  assumes run: "ob_join_network gatt_deliver x y s = Inr ((), s')"
    and arrays: "length (gSSID s) = WIFI_SSID_MAX_LEN (cfg s)" "length (gPSK s) = WIFI_PSK_MAX_LEN (cfg s)"
    and saves: "\<And>tr k v. reply s tr (SettingsSaveOne k v) = Some 0"
  shows "store s' = store s \<or> joinable s x y \<and> store s' = stored_network (store s) x y"
proof -
  note len = join_lengths [OF run]
  obtain rc s1 where conn: "ob_wifi_connect gatt_deliver (join_ready x y s) = Inr (rc, s1)"
    and st: "store s' = (if rc = 0 then stored_network (store s) x y else store s)"
    using join_saves [OF len saves run] unfolding stored_network_def by blast
  show ?thesis
  proof (cases "rc = 0")
    case True
    with conn have "ob_wifi_connect gatt_deliver (join_ready x y s) = Inr (0, s1)" by simp
    from gatt_connect_success [OF this] have "accepts_network s x y"
      using join_ready_request [of x s y] len arrays by (simp add: accepts_network_def)
    with True st len show ?thesis by (simp add: joinable_def)
  qed (use st in simp)
qed

lemma step_stores:
  fixes s :: "'z gatt_scheme"
  assumes step: "gatt_step enc s s'"
    and arrays: "length (gSSID s) = WIFI_SSID_MAX_LEN (cfg s)" "length (gPSK s) = WIFI_PSK_MAX_LEN (cfg s)"
    and saves: "\<And>tr k v. reply s tr (SettingsSaveOne k v) = Some 0"
  shows "store s' = store s \<or> enc \<and> (\<exists>x y. joinable s x y \<and> store s' = stored_network (store s) x y)"
proof -
  have "store_is (store s) s s" by (simp add: store_is_def)
  with step gatt_frame_store show ?thesis
  proof (cases rule: gatt_step_frame)
    case same
    then show ?thesis by (simp add: store_isD)
  next
    case (written buf offset flgs r)
    from written(1) show ?thesis
    proof (cases rule: write_returns)
      case (joined b x y)
      let ?s = "s\<lparr>tmp_write_buffer := b\<rparr>"
      have "joinable ?s x y \<longleftrightarrow> joinable s x y" by (simp add: joinable_def accepts_network_def)
      moreover have "store s' = store ?s \<or> joinable ?s x y \<and> store s' = stored_network (store ?s) x y"
        by (rule join_stores [OF joined]) (use arrays saves in simp_all)
      ultimately show ?thesis using written(2) by auto
    qed simp_all
  qed
qed

lemma session_stores:
  fixes t :: "'z gatt_scheme"
  assumes "gatt_session enc t s"
    and arrays: "length (gSSID t) = WIFI_SSID_MAX_LEN (cfg t)" "length (gPSK t) = WIFI_PSK_MAX_LEN (cfg t)"
    and saves: "\<And>tr k v. reply t tr (SettingsSaveOne k v) = Some 0"
  shows "gatt_base t s \<and>
    (store s = store t \<or> enc \<and> (\<exists>x y. joinable t x y \<and> store s = stored_network (store t) x y))"
  using assms(1)
proof induction
  case start
  show ?case by (simp add: gatt_base_def)
next
  case (step s s')
  have base: "gatt_base t s'" using step_base step by blast
  have b: "reply s = reply t" "cfg s = cfg t" "length (gSSID s) = WIFI_SSID_MAX_LEN (cfg s)"
    "length (gPSK s) = WIFI_PSK_MAX_LEN (cfg s)"
    using step.IH arrays by (simp_all add: gatt_base_def)
  have same: "joinable s x y \<longleftrightarrow> joinable t x y" for x y using b by (simp add: joinable_def accepts_network_def)
  have "store s' = store s \<or> enc \<and> (\<exists>x y. joinable s x y \<and> store s' = stored_network (store s) x y)"
    by (rule step_stores [OF step.hyps(2) b(3,4)]) (simp add: saves b(1))
  then show ?case
  proof
    assume "store s' = store s"
    with step.IH base show ?thesis by simp
  next
    assume "enc \<and> (\<exists>x y. joinable s x y \<and> store s' = stored_network (store s) x y)"
    then obtain x y where new: "enc" "joinable t x y" "store s' = stored_network (store s) x y" unfolding same by blast
    have "store s = store t \<or> (\<exists>x0 y0. store s = stored_network (store t) x0 y0)" using step.IH by blast
    then have "stored_network (store s) x y = stored_network (store t) x y" by (elim disjE exE) (simp_all add: stored_again)
    then have "store s' = stored_network (store t) x y" unfolding new(3) .
    with new(1,2) base show ?thesis by (intro conjI disjI2 exI [of _ x] exI [of _ y])
  qed
qed

section \<open>The start-up after it\<close>

lemma gatt_frame_trace: "gatt_frame (\<lambda>s. c \<in> set (trace s))"
  by (simp add: gatt_frame_def quiet_frame_trace)

lemma gatt_boot_joins:
  fixes u :: "'z gatt_scheme"
  assumes boot: "booted (stored_network m x y) u" and cred: "x \<noteq> []" "y \<noteq> []"
      "length x \<le> WIFI_SSID_MAX_LEN (cfg u)" "length y \<le> WIFI_PSK_MAX_LEN (cfg u)"
    and iface: "\<And>tr. reply u tr (NetIfGet wifi_sta) = Some iface" "iface \<noteq> 0"
    and run: "ob_wifi_init gatt_deliver u = Inr (r, u')"
  shows "NetMgmt (NET_REQUEST_WIFI_CONNECT x y) iface \<in> set (trace u')"
proof -
  have "has_credentials x y u"
    by (rule booted_credentials [OF boot]) (use cred in \<open>simp_all add: stored_network_def\<close>)
  from init_connects_stored [OF run this iface keeps_gatt_deliver [OF gatt_frame_trace]] show ?thesis .
qed

lemma session_then_boot:
  fixes t :: "'z gatt_scheme" and u :: "'y gatt_scheme"
  assumes session: "gatt_session enc t s"
    and arrays: "length (gSSID t) = WIFI_SSID_MAX_LEN (cfg t)" "length (gPSK t) = WIFI_PSK_MAX_LEN (cfg t)"
    and saves: "\<And>tr k v. reply t tr (SettingsSaveOne k v) = Some 0"
    and changed: "store s \<noteq> store t"
    and boot: "booted (store s) u" "cfg u = cfg t"
    and iface: "\<And>tr. reply u tr (NetIfGet wifi_sta) = Some iface" "iface \<noteq> 0"
    and fine: "boots_fine u"
  shows "\<exists>x y r u'. accepts_network t x y \<and> store s = stored_network (store t) x y \<and>
    ob_wifi_init gatt_deliver u = Inr (r, u') \<and>
    (x \<noteq> [] \<and> y \<noteq> [] \<longrightarrow> NetMgmt (NET_REQUEST_WIFI_CONNECT x y) iface \<in> set (trace u'))"
proof -
  obtain r u' where run: "ob_wifi_init gatt_deliver u = Inr (r, u')"
    using boot_returns [OF fine] unfolding gatt_deliver_def .
  obtain x y where xy: "joinable t x y" "store s = stored_network (store t) x y"
    using session_stores [OF session arrays saves] changed by auto
  have "NetMgmt (NET_REQUEST_WIFI_CONNECT x y) iface \<in> set (trace u')" if "x \<noteq> []" "y \<noteq> []"
    by (rule gatt_boot_joins [OF boot(1) [unfolded xy(2)] that _ _ iface run])
      (use xy(1) boot(2) in \<open>simp_all add: joinable_def\<close>)
  with xy run show ?thesis by (auto simp: joinable_def)
qed

end
