(* ===== verification/Ob_Bluetooth.thy ===== *)
theory Ob_Bluetooth
  imports Ob_Gatt_Facts
begin

text \<open>
  src/ob_bluetooth.c: the advertising state machine, run by a delayable work item, and the
  callbacks of the Bluetooth stack. The machine is a step relation: a step is the work item
  running when it is queued, or the stack calling one of the callbacks, in any order.
\<close>

section \<open>State\<close>

datatype ble_state =
    BLE_DISCONNECTED
  | BLE_SCAN_START
  | BLE_SCAN_STOP
  | BLE_CONNECT_CREATE
  | BLE_CONNECT_CANCEL
  | BLE_ADV_START
  | BLE_ADV_STOP
  | BLE_CONNECTED
  | BLE_WAITING

text \<open>The operations of a mode; an absent one is a null pointer.\<close>

record obb_mode =
  obb_init_fn :: "fnptr option"
  obb_adv_start_fn :: "fnptr option"
  obb_adv_stop_fn :: "fnptr option"
  obb_scan_start_fn :: "fnptr option"
  obb_scan_stop_fn :: "fnptr option"
  obb_connect_fn :: "fnptr option"
  obb_connected_fn :: "fnptr option"
  obb_disconnect_fn :: "fnptr option"
  obb_disconnected_fn :: "fnptr option"

datatype obb_mode_type =
    OBB_init
  | OBB_adv_start
  | OBB_adv_stop
  | OBB_scan_start
  | OBB_scan_stop
  | OBB_connect
  | OBB_connected
  | OBB_disconnect
  | OBB_disconnected

text \<open>
  \<open>obb_mode_ble\<close> is defined outside this repository, so it is a field, absent in a build
  without it. \<open>ble_work\<close> is the delay the work item is queued with.
\<close>

record bluetooth = gatt +
  obb_mode_ble :: "obb_mode option"
  ble_state :: ble_state
  ble_work :: "nat option"

definition obb_mode_gatt :: obb_mode where
  "obb_mode_gatt = \<lparr>obb_init_fn = Some ''gatt_init'', obb_adv_start_fn = Some ''gatt_adv_start'',
     obb_adv_stop_fn = Some ''gatt_adv_stop'', obb_scan_start_fn = None, obb_scan_stop_fn = None,
     obb_connect_fn = None, obb_connected_fn = Some ''gatt_connected'', obb_disconnect_fn = None,
     obb_disconnected_fn = None\<rparr>"

text \<open>The array, with the null pointer that ends it.\<close>

definition obb_modes :: "'z bluetooth_scheme \<Rightarrow> obb_mode option list" where
  "obb_modes s = (case obb_mode_ble s of None \<Rightarrow> [] | Some m \<Rightarrow> [Some m]) @
     (if CONFIG_ONBOARDING_BLUETOOTH_GATT (cfg s) then [Some obb_mode_gatt] else []) @ [None]"

definition OBB_MAX :: nat where "OBB_MAX = 4"

section \<open>Calling the modes\<close>

definition obb_fn :: "obb_mode_type \<Rightarrow> obb_mode \<Rightarrow> fnptr option" where
  "obb_fn type cb =
     (case type of
        OBB_init \<Rightarrow> obb_init_fn cb
      | OBB_adv_start \<Rightarrow> obb_adv_start_fn cb
      | OBB_adv_stop \<Rightarrow> obb_adv_stop_fn cb
      | OBB_scan_start \<Rightarrow> obb_scan_start_fn cb
      | OBB_scan_stop \<Rightarrow> obb_scan_stop_fn cb
      | OBB_connect \<Rightarrow> obb_connect_fn cb
      | OBB_connected \<Rightarrow> obb_connected_fn cb
      | OBB_disconnect \<Rightarrow> obb_disconnect_fn cb
      | OBB_disconnected \<Rightarrow> obb_disconnected_fn cb)"

definition run_mode :: "fnptr \<Rightarrow> ('z gatt_scheme, int) prog" where
  "run_mode f =
     (if f = ''gatt_init'' then gatt_init
      else if f = ''gatt_adv_start'' then gatt_adv_start
      else if f = ''gatt_adv_stop'' then gatt_adv_stop
      else if f = ''gatt_connected'' then gatt_connected
      else ext (CallPtr f))"

fun foreach_loop :: "nat \<Rightarrow> obb_mode option list \<Rightarrow> obb_mode_type \<Rightarrow> ('z gatt_scheme, unit) prog" where
  "foreach_loop 0 modes type = ret ()"
| "foreach_loop (Suc n) [] type = halted OutOfBounds"
| "foreach_loop (Suc n) (None # modes) type = ret ()"
| "foreach_loop (Suc n) (Some cb # modes) type =
     thn (case obb_fn type cb of None \<Rightarrow> ret () | Some f \<Rightarrow> bnd (run_mode f) (\<lambda>_. ret ()))
       (foreach_loop n modes type)"

definition foreach_obb :: "obb_mode_type \<Rightarrow> ('z bluetooth_scheme, unit) prog" where
  "foreach_obb type = bnd (gets obb_modes) (\<lambda>modes. foreach_loop OBB_MAX modes type)"

section \<open>The state machine\<close>

definition k_work_reschedule :: "nat \<Rightarrow> ('z bluetooth_scheme, unit) prog" where
  "k_work_reschedule delay =
     thn (ext0 (KWorkReschedule ''ble_work'' delay)) (modify (\<lambda>s. s\<lparr>ble_work := Some delay\<rparr>))"

definition go_to :: "ble_state \<Rightarrow> nat \<Rightarrow> ('z bluetooth_scheme, unit) prog" where
  "go_to st delay = thn (modify (\<lambda>s. s\<lparr>ble_state := st\<rparr>)) (k_work_reschedule delay)"

definition ble_state_machine :: "('z bluetooth_scheme, unit) prog" where
  "ble_state_machine =
     bnd (gets ble_state) (\<lambda>st.
     case st of
       BLE_DISCONNECTED \<Rightarrow> foreach_obb OBB_disconnected
     | BLE_SCAN_START \<Rightarrow> thn (foreach_obb OBB_scan_start) (go_to BLE_SCAN_STOP SCAN_TIMEOUT)
     | BLE_CONNECT_CREATE \<Rightarrow>
         thn (foreach_obb OBB_disconnect) (thn (foreach_obb OBB_disconnected) (go_to BLE_ADV_START 0))
     | BLE_SCAN_STOP \<Rightarrow> thn (foreach_obb OBB_scan_stop) (go_to BLE_ADV_START 0)
     | BLE_ADV_START \<Rightarrow> thn (foreach_obb OBB_adv_start) (go_to BLE_WAITING 0)
     | BLE_ADV_STOP \<Rightarrow> thn (foreach_obb OBB_adv_stop) (go_to BLE_ADV_START 0)
     | BLE_CONNECTED \<Rightarrow> foreach_obb OBB_connected
     | BLE_CONNECT_CANCEL \<Rightarrow> ret ()
     | BLE_WAITING \<Rightarrow> ret ())"

section \<open>Callbacks of the stack\<close>

text \<open>
  Several only write the address of the peer to the log. \<open>printk\<close> is kept as the first line
  of its format.
\<close>

definition security_changed :: "int \<Rightarrow> int \<Rightarrow> ('z bluetooth_scheme, unit) prog" where
  "security_changed level err = ext0 BtAddrLeToStr"

definition le_param_req :: "('z bluetooth_scheme, bool) prog" where
  "le_param_req = ret True"

definition le_param_updated :: "int \<Rightarrow> int \<Rightarrow> int \<Rightarrow> ('z bluetooth_scheme, unit) prog" where
  "le_param_updated interval latency timeout =
     bnd (ext BtConnGetInfo) (\<lambda>rc.
     if rc \<noteq> 0 then ext0 (PrintkLine ''****************************** Could not parse connection info'')
     else thn (ext0 BtAddrLeToStr)
       (ext0 (PrintkLine ''************************** Connection parameters updated!'')))"

definition bt_connected :: "int \<Rightarrow> ('z bluetooth_scheme, unit) prog" where
  "bt_connected err = (if err \<noteq> 0 then ret () else ext0 BtConnGetInfo)"

definition bt_disconnected :: "int \<Rightarrow> ('z bluetooth_scheme, unit) prog" where
  "bt_disconnected reason = go_to BLE_ADV_START 0"

definition recycled :: "('z bluetooth_scheme, unit) prog" where
  "recycled = ret ()"

definition identity_resolved_cb :: "('z bluetooth_scheme, unit) prog" where
  "identity_resolved_cb = thn (ext0 BtAddrLeToStr) (ext0 BtAddrLeToStr)"

definition conn_callbacks :: callbacks where
  "conn_callbacks = [(''connected'', Some ''connected''), (''disconnected'', Some ''disconnected''),
     (''security_changed'', Some ''security_changed''), (''le_param_req'', Some ''le_param_req''),
     (''le_param_updated'', Some ''le_param_updated''), (''recycled'', Some ''recycled''),
     (''identity_resolved'', Some ''identity_resolved_cb'')]"

definition auth_cancel :: "('z bluetooth_scheme, unit) prog" where
  "auth_cancel = ext0 BtAddrLeToStr"

definition auth_pairing_confirm_cb :: "('z bluetooth_scheme, unit) prog" where
  "auth_pairing_confirm_cb = ret ()"

definition conn_auth_callbacks :: callbacks where
  "conn_auth_callbacks = [(''passkey_display'', None), (''passkey_confirm'', None),
     (''cancel'', Some ''auth_cancel''), (''pairing_confirm'', Some ''auth_pairing_confirm_cb'')]"

definition pairing_complete :: "bool \<Rightarrow> ('z bluetooth_scheme, unit) prog" where
  "pairing_complete bonded = ret ()"

definition pairing_failed :: "int \<Rightarrow> ('z bluetooth_scheme, unit) prog" where
  "pairing_failed reason = ext0 BtConnDisconnect"

definition auth_cb_info :: callbacks where
  "auth_cb_info = [(''pairing_complete'', Some ''pairing_complete''), (''pairing_failed'', Some ''pairing_failed'')]"

definition bt_enable_callback :: "int \<Rightarrow> ('z bluetooth_scheme, unit) prog" where
  "bt_enable_callback rc =
     (if rc \<noteq> 0 then ret ()
      else thn (foreach_obb OBB_init)
        (thn (ext0 (BtConnCbRegister conn_callbacks))
        (thn (ext0 (BtConnAuthCbRegister conn_auth_callbacks))
        (thn (ext0 (BtConnAuthInfoCbRegister auth_cb_info)) (ext0 SettingsLoad)))))"

definition bluetooth_init :: "('z bluetooth_scheme, int) prog" where
  "bluetooth_init =
     bnd (gets cfg) (\<lambda>c.
     if CONFIG_ONBOARDING_BLUETOOTH c then
       thn (cond (CONFIG_ONBOARDING_WIFI c) (set_scan_done_callback (Some ''scan_complete'')))
       (bnd (ext BtEnable) (\<lambda>rc.
        if rc \<noteq> 0 then ret rc
        else thn (ext0 (KWorkInit ''ble_state_machine'')) (thn (go_to BLE_ADV_START 0) (ret rc))))
     else ret (- EINVAL))"

section \<open>Steps\<close>

text \<open>
  The callbacks by the name they are registered under, with the arguments the stack may give
  them, and the tables that have been registered so far.
\<close>

definition run_bt_cb :: "fnptr \<Rightarrow> int \<Rightarrow> int \<Rightarrow> int \<Rightarrow> ('z bluetooth_scheme, unit) prog" where
  "run_bt_cb f a b c =
     (if f = ''connected'' then bt_connected a
      else if f = ''disconnected'' then bt_disconnected a
      else if f = ''security_changed'' then security_changed a b
      else if f = ''le_param_req'' then bnd le_param_req (\<lambda>_. ret ())
      else if f = ''le_param_updated'' then le_param_updated a b c
      else if f = ''recycled'' then recycled
      else if f = ''identity_resolved_cb'' then identity_resolved_cb
      else if f = ''auth_cancel'' then auth_cancel
      else if f = ''auth_pairing_confirm_cb'' then auth_pairing_confirm_cb
      else if f = ''pairing_complete'' then pairing_complete (a \<noteq> 0)
      else if f = ''pairing_failed'' then pairing_failed a
      else halted NullCall)"

definition callbacks_of :: "call \<Rightarrow> fnptr list" where
  "callbacks_of c = (case c of
     Bt (ConnCbRegister t) \<Rightarrow> List.map_filter snd t
   | Bt (ConnAuthCbRegister t) \<Rightarrow> List.map_filter snd t
   | Bt (ConnAuthInfoCbRegister t) \<Rightarrow> List.map_filter snd t
   | _ \<Rightarrow> [])"

definition registered :: "'z kern_scheme \<Rightarrow> fnptr list" where
  "registered s = concat (map callbacks_of (trace s))"

inductive ble_step :: "'z bluetooth_scheme \<Rightarrow> 'z bluetooth_scheme \<Rightarrow> bool" where
  work: "ble_work s \<noteq> None \<Longrightarrow> ble_state_machine (s\<lparr>ble_work := None\<rparr>) = Inr ((), s') \<Longrightarrow> ble_step s s'"
| enabled: "bt_enable_callback rc s = Inr ((), s') \<Longrightarrow> ble_step s s'"
| stack: "f \<in> set (registered s) \<Longrightarrow> run_bt_cb f a b c s = Inr ((), s') \<Longrightarrow> ble_step s s'"

inductive ble_reach :: "'z bluetooth_scheme \<Rightarrow> 'z bluetooth_scheme \<Rightarrow> bool" for s0 where
  init: "bluetooth_init s0 = Inr (0, s) \<Longrightarrow> ble_reach s0 s"
| step: "ble_reach s0 s \<Longrightarrow> ble_step s s' \<Longrightarrow> ble_reach s0 s'"

section \<open>Facts\<close>

text \<open>A property no mode touches.\<close>

definition mode_frame :: "('z gatt_scheme \<Rightarrow> bool) \<Rightarrow> bool" where
  "mode_frame I \<longleftrightarrow> (\<forall>s c. I s \<longrightarrow> I (s\<lparr>trace := trace s @ [c]\<rparr>))"

lemma keeps_run_mode: "mode_frame I \<Longrightarrow> keeps I (run_mode f)"
  unfolding run_mode_def gatt_init_def gatt_adv_start_def gatt_adv_stop_def gatt_connected_def
  by (intro keeps_intros keeps_ext keeps_ext0) (simp_all add: mode_frame_def)

lemma keeps_foreach_loop: "mode_frame I \<Longrightarrow> keeps I (foreach_loop n modes type)"
  by (induction n modes type rule: foreach_loop.induct)
    (auto intro!: keeps_intros keeps_run_mode)

lemma keeps_foreach: "mode_frame I \<Longrightarrow> keeps I (foreach_obb type)"
  unfolding foreach_obb_def by (intro keeps_intros keeps_foreach_loop)

text \<open>
  The states the machine can be in, and when its work item is queued: while it has to start
  advertising, it will run.
\<close>

definition ble_ok :: "'z bluetooth_scheme \<Rightarrow> bool" where
  "ble_ok s \<longleftrightarrow> ble_state s = BLE_ADV_START \<and> ble_work s = Some 0 \<or>
     ble_state s = BLE_WAITING \<and> (ble_work s = None \<or> ble_work s = Some 0)"

lemma go_to_Inr: "go_to st d s = Inr (u, s') \<Longrightarrow> ble_state s' = st \<and> ble_work s' = Some d"
  by (auto simp: go_to_def k_work_reschedule_def ext0_apply split: option.splits)

lemma ble_frame: "mode_frame (\<lambda>t. ble_state t = st \<and> ble_work t = w)"
  by (simp add: mode_frame_def)

lemma waiting_does_nothing: "ble_state s = BLE_WAITING \<Longrightarrow> ble_state_machine s = Inr ((), s)"
  by (simp add: ble_state_machine_def)

lemma run_bt_cb_ok:
  assumes run: "run_bt_cb f a b c s = Inr ((), s')" and ok: "ble_ok s"
  shows "ble_ok s'"
proof (cases "f = ''disconnected''")
  case True
  with run have "go_to BLE_ADV_START 0 s = Inr ((), s')" by (simp add: run_bt_cb_def bt_disconnected_def)
  from go_to_Inr [OF this] show ?thesis by (simp add: ble_ok_def)
next
  case False
  then have "keeps ble_ok (run_bt_cb f a b c)"
    unfolding run_bt_cb_def bt_connected_def security_changed_def le_param_req_def le_param_updated_def
      recycled_def identity_resolved_cb_def auth_cancel_def auth_pairing_confirm_cb_def pairing_complete_def
      pairing_failed_def
    by (simp only: if_False) (intro keeps_intros keeps_ext keeps_ext0, simp_all add: ble_ok_def)
  from keeps_Inr [OF this ok run] show ?thesis .
qed

lemma ble_step_ok:
  assumes "ble_step s s'" and "ble_ok s"
  shows "ble_ok s'"
  using assms(1)
proof (cases rule: ble_step.cases)
  case work
  consider "ble_state s = BLE_ADV_START" | "ble_state s = BLE_WAITING"
    using assms(2) by (auto simp: ble_ok_def)
  then show ?thesis
  proof cases
    case 1
    with work(2) have "thn (foreach_obb OBB_adv_start) (go_to BLE_WAITING 0) (s\<lparr>ble_work := None\<rparr>) = Inr ((), s')"
      by (simp add: ble_state_machine_def)
    then obtain u t where "go_to BLE_WAITING 0 t = Inr (u, s')" unfolding thn_Inr by auto
    from go_to_Inr [OF this] show ?thesis by (simp add: ble_ok_def)
  next
    case 2
    with work(2) show ?thesis by (auto simp: waiting_does_nothing ble_ok_def)
  qed
next
  case (enabled rc)
  have "keeps ble_ok (bt_enable_callback rc)"
    unfolding bt_enable_callback_def
    by (intro keeps_intros keeps_ext0 keeps_foreach) (auto simp: ble_ok_def mode_frame_def)
  from keeps_Inr [OF this assms(2) enabled] show ?thesis .
next
  case (stack f a b c)
  from run_bt_cb_ok [OF stack(2) assms(2)] show ?thesis .
qed

lemma ble_init_ok:
  assumes "bluetooth_init s0 = Inr (0, s)"
  shows "ble_ok s"
  using assms by (auto simp: bluetooth_init_def EINVAL_def ble_ok_def ext0_apply split: sum.splits if_splits option.splits
      dest!: go_to_Inr)

lemma ble_reach_ok: "ble_reach s0 s \<Longrightarrow> ble_ok s"
  by (induction rule: ble_reach.induct) (auto intro: ble_init_ok ble_step_ok)

text \<open>The call that starts advertising with the tables of the source.\<close>

abbreviation adv_start :: "'z kern_scheme \<Rightarrow> call" where
  "adv_start s \<equiv> BtLeAdvStart advertisement (sd (cfg s))"

text \<open>Advertising starts: the work item of a machine that has to start it.\<close>

lemma foreach_adv_start:
  assumes "obb_mode_ble s = None" and "CONFIG_ONBOARDING_BLUETOOTH_GATT (cfg s)"
    and "reply s (trace s) (adv_start s) = Some r"
  shows "foreach_obb OBB_adv_start s = Inr ((), s\<lparr>trace := trace s @ [adv_start s]\<rparr>)"
  using assms
  by (simp add: foreach_obb_def obb_modes_def OBB_MAX_def numeral_eq_Suc obb_fn_def obb_mode_gatt_def run_mode_def
      gatt_adv_start_def)

lemma advertising_starts:
  assumes "ble_state s = BLE_ADV_START" and "obb_mode_ble s = None" and "CONFIG_ONBOARDING_BLUETOOTH_GATT (cfg s)"
    and "responsive s"
  shows "\<exists>s'. ble_state_machine (s\<lparr>ble_work := None\<rparr>) = Inr ((), s') \<and> ble_state s' = BLE_WAITING \<and>
    ble_work s' = Some 0 \<and> trace s' = trace s @ [adv_start s, KWorkReschedule ''ble_work'' 0]"
proof -
  let ?s = "s\<lparr>ble_work := None\<rparr>"
  obtain r where "reply ?s (trace ?s) (adv_start s) = Some r" using assms(4) by (auto elim: repliesE)
  then have run: "foreach_obb OBB_adv_start ?s = Inr ((), ?s\<lparr>trace := trace ?s @ [adv_start s]\<rparr>)"
    using foreach_adv_start [of ?s r] assms(2,3) by simp
  obtain q where "reply s (trace s @ [adv_start s]) (KWorkReschedule ''ble_work'' 0) = Some q"
    using assms(4) by (auto elim: repliesE)
  with run assms(1) show ?thesis
    by (simp add: ble_state_machine_def go_to_def k_work_reschedule_def ext0_apply)
qed

lemma disconnect_queues:
  assumes "responsive s"
  shows "bt_disconnected reason s = Inr ((), s\<lparr>ble_state := BLE_ADV_START, ble_work := Some 0,
    trace := trace s @ [KWorkReschedule ''ble_work'' 0]\<rparr>)"
proof -
  obtain q where "reply s (trace s) (KWorkReschedule ''ble_work'' 0) = Some q"
    using assms by (auto elim: repliesE)
  then show ?thesis by (simp add: bt_disconnected_def go_to_def k_work_reschedule_def ext0_apply)
qed

lemma disconnected_registered:
  assumes "BtConnCbRegister conn_callbacks \<in> set (trace s)"
  shows "''disconnected'' \<in> set (registered s)"
  using assms by (force simp: registered_def callbacks_of_def conn_callbacks_def map_filter_simps)

lemma restarts_after_disconnect:
  assumes "obb_mode_ble s = None" and "CONFIG_ONBOARDING_BLUETOOTH_GATT (cfg s)" and "responsive s"
    and "BtConnCbRegister conn_callbacks \<in> set (trace s)"
  shows "\<exists>s1 s2. bt_disconnected reason s = Inr ((), s1) \<and> ble_step s s1 \<and> ble_step s1 s2 \<and>
    trace s2 = trace s1 @ [adv_start s, KWorkReschedule ''ble_work'' 0] \<and> ble_state s2 = BLE_WAITING"
proof -
  let ?s1 = "s\<lparr>ble_state := BLE_ADV_START, ble_work := Some 0, trace := trace s @ [KWorkReschedule ''ble_work'' 0]\<rparr>"
  have s1: "bt_disconnected reason s = Inr ((), ?s1)" by (rule disconnect_queues [OF assms(3)])
  obtain s2 where s2: "ble_state_machine (?s1\<lparr>ble_work := None\<rparr>) = Inr ((), s2)" "ble_state s2 = BLE_WAITING"
    "trace s2 = trace ?s1 @ [adv_start s, KWorkReschedule ''ble_work'' 0]"
    using advertising_starts [of ?s1] assms by auto
  have "ble_step ?s1 s2" by (rule ble_step.work [OF _ s2(1)]) simp
  moreover have "ble_step s ?s1"
    by (rule ble_step.stack [OF disconnected_registered [OF assms(4)], of reason])
      (simp add: run_bt_cb_def s1)
  ultimately show ?thesis using s1 s2 by blast
qed

text \<open>
  A refused advertisement is not noticed: the machine waits all the same, and when its work item
  runs again it does nothing.
\<close>

lemma refusal_is_final:
  assumes "ble_state s = BLE_ADV_START" and "obb_mode_ble s = None" and "CONFIG_ONBOARDING_BLUETOOTH_GATT (cfg s)"
    and "responsive s"
  shows "\<exists>s1. ble_state_machine (s\<lparr>ble_work := None\<rparr>) = Inr ((), s1) \<and>
    trace s1 = trace s @ [adv_start s, KWorkReschedule ''ble_work'' 0] \<and>
    ble_state_machine (s1\<lparr>ble_work := None\<rparr>) = Inr ((), s1\<lparr>ble_work := None\<rparr>)"
proof -
  obtain s1 where "ble_state_machine (s\<lparr>ble_work := None\<rparr>) = Inr ((), s1)" "ble_state s1 = BLE_WAITING"
    "trace s1 = trace s @ [adv_start s, KWorkReschedule ''ble_work'' 0]"
    using advertising_starts [OF assms] by blast
  then show ?thesis by (simp add: waiting_does_nothing)
qed

end
