(* ===== verification/Ob_Shell.thy ===== *)
theory Ob_Shell
  imports Ob_Provision
begin

text \<open>
  src/ob_shell.c: the shell commands. A handler gets its arguments as the list \<open>argv\<close>, whose
  first element is the name of the command; \<open>argc\<close> is the length of the list. What a handler
  prints is the call \<open>ShellPrintLine\<close>; messages to the log are left out, except where making
  one reads past the end of an array. The table of the commands, which the shell of the platform
  looks a line up in, is \<open>sub_ob\<close>.
\<close>

section \<open>Build options of this file\<close>

text \<open>The keys of the provider Golioth are not declared under src/.\<close>

record shell_build =
  CONFIG_ONBOARDING_NVS :: bool
  CONFIG_ONBOARDING_REBOOT :: bool
  CONFIG_ONBOARDING_OTA_UPDATEHUB :: bool
  CONFIG_ONBOARDING_OTA_GOLIOTH :: bool
  CONFIG_GOLIOTH_AUTH_METHOD_PSK :: bool
  CONFIG_GOLIOTH_PSK_MAX_LEN :: nat
  CONFIG_GOLIOTH_PSK_ID_MAX_LEN :: nat
  NVS_SETTINGS_ID_OTA_PSK :: string
  NVS_SETTINGS_ID_OTA_PSK_ID :: string

section \<open>Web server, access point, interface\<close>

definition ob_web_start :: "string list \<Rightarrow> ('z portal_scheme, int) prog" where
  "ob_web_start argv = thn (start_web_server portal_deliver) (ret 0)"

definition ob_web_stop :: "string list \<Rightarrow> ('z portal_scheme, int) prog" where
  "ob_web_stop argv = thn (bnd stop_web_server (\<lambda>_. ret ())) (ret 0)"

definition ob_ap_enable :: "string list \<Rightarrow> ('z portal_scheme, int) prog" where
  "ob_ap_enable argv =
     thn (if length argv > 1 then ob_wifi_ap_enable else ob_wifi_ap_enable) (ret 0)"

definition ob_ap_disable :: "string list \<Rightarrow> ('z portal_scheme, int) prog" where
  "ob_ap_disable argv = thn ob_wifi_ap_disable (ret 0)"

text \<open>\<open>strncpy\<close> leaves an address of 16 characters or more without a NUL, and the message prints it.\<close>

definition ap_address_handler :: "string list \<Rightarrow> ('z portal_scheme, int) prog" where
  "ap_address_handler argv =
     thn (cond (length argv > 1)
       (thn (require (length (argv ! 1) < WIFI_AP_ADDRESS_SIZE) Unterminated)
            (modify (\<lambda>s. s\<lparr>wifi_ap_address := argv ! 1\<rparr>))))
     (ret 0)"

definition setup_iface :: "string list \<Rightarrow> ('z portal_scheme, int) prog" where
  "setup_iface argv =
     bnd (ext (NetIfGet if_default)) (\<lambda>iface.
     if length argv < 2 then ret (- 1)
     else bnd (ext_data (NetAddrPton (argv ! 1))) (\<lambda>(bad, addr4).
       if bad \<noteq> 0 then ret (- EINVAL)
       else bnd (ext (NetIfAddrAdd iface addr4)) (\<lambda>ifaddr.
         if ifaddr = 0 then ret (- EINVAL) else ret 0)))"

definition ob_dhcp_start :: "string list \<Rightarrow> ('z portal_scheme, int) prog" where
  "ob_dhcp_start argv =
     bnd (ext (NetIfGet if_default)) (\<lambda>iface.
     thn (cond (iface \<noteq> 0) (ext0 (NetDhcpStart iface))) (ret 0))"

definition ob_dhcp_stop :: "string list \<Rightarrow> ('z portal_scheme, int) prog" where
  "ob_dhcp_stop argv =
     bnd (ext (NetIfGet if_default)) (\<lambda>iface.
     thn (cond (iface \<noteq> 0) (ext0 (NetDhcpStop iface))) (ret 0))"

definition wifi_name_handler :: "string list \<Rightarrow> ('z portal_scheme, int) prog" where
  "wifi_name_handler argv =
     (if length argv > 1 then ext (NetHostnameSet (argv ! 1)) else ret 0)"

section \<open>Settings\<close>

text \<open>
  The four settings handlers have one text, with a key, a label, the length given to
  \<open>ob_nvs_data_read\<close> and the size of the array on the stack. The read puts at most \<open>len\<close>
  bytes in the array; the result is the size of the stored value, and indexes the array.
\<close>

definition print_setting :: "string \<Rightarrow> string \<Rightarrow> nat \<Rightarrow> nat \<Rightarrow> ('z portal_scheme, int) prog" where
  "print_setting key label len cap =
     bnd (ob_nvs_data_read key len) (\<lambda>(rc, v).
     thn (require (length (take len v) \<le> cap) OutOfBounds)
     (if rc \<le> 0 then ret (- 1)
      else
        thn (require (nat rc < cap) OutOfBounds)
        (thn (require (nat rc \<le> length (take len v)) Uninitialised)
        (thn (ext0 (ShellPrintLine (label @ '': '' @ cstr (take (nat rc) v @ [NUL]) @ [LF])))
             (ret rc)))))"

definition setting_handler ::
  "string \<Rightarrow> string \<Rightarrow> nat \<Rightarrow> nat \<Rightarrow> string list \<Rightarrow> ('z portal_scheme, int) prog" where
  "setting_handler key label len cap argv =
     thn (bnd ob_nvs_data_init (\<lambda>_. ret ()))
     (if length argv < 2 then print_setting key label len cap
      else ob_nvs_data_write key (argv ! 1) (length (argv ! 1)))"

definition ssid_handler :: "string list \<Rightarrow> ('z portal_scheme, int) prog" where
  "ssid_handler argv = bnd (gets (\<lambda>s. WIFI_SSID_MAX_LEN (cfg s))) (\<lambda>n.
     setting_handler NVS_SETTINGS_ID_WIFI_SSID ''SSID'' n (n + 1) argv)"

definition psk_handler :: "string list \<Rightarrow> ('z portal_scheme, int) prog" where
  "psk_handler argv = bnd (gets (\<lambda>s. WIFI_PSK_MAX_LEN (cfg s))) (\<lambda>n.
     setting_handler NVS_SETTINGS_ID_WIFI_PSK ''PSK'' n (n + 1) argv)"

definition golioth_psk_handler :: "shell_build \<Rightarrow> string list \<Rightarrow> ('z portal_scheme, int) prog" where
  "golioth_psk_handler b argv =
     setting_handler (NVS_SETTINGS_ID_OTA_PSK b) ''PSK'' (CONFIG_GOLIOTH_PSK_MAX_LEN b)
       (CONFIG_GOLIOTH_PSK_MAX_LEN b + 1) argv"

text \<open>The array has the length of an id, and the read is given the length of a key.\<close>

definition golioth_psk_id_handler :: "shell_build \<Rightarrow> string list \<Rightarrow> ('z portal_scheme, int) prog" where
  "golioth_psk_id_handler b argv =
     setting_handler (NVS_SETTINGS_ID_OTA_PSK_ID b) ''PSK_ID'' (CONFIG_GOLIOTH_PSK_MAX_LEN b)
       (CONFIG_GOLIOTH_PSK_ID_MAX_LEN b + 1) argv"

section \<open>Updates, restart, factory reset\<close>

definition updatehub_confirm_handler :: "string list \<Rightarrow> ('z portal_scheme, int) prog" where
  "updatehub_confirm_handler argv = ext (CallPtr ''updatehub_confirm'')"

definition updatehub_probe_handler :: "string list \<Rightarrow> ('z portal_scheme, int) prog" where
  "updatehub_probe_handler argv = ext (CallPtr ''updatehub_probe'')"

definition updatehub_update_handler :: "string list \<Rightarrow> ('z portal_scheme, int) prog" where
  "updatehub_update_handler argv = ext (CallPtr ''updatehub_update'')"

definition cmd_reboot :: "string list \<Rightarrow> ('z portal_scheme, int) prog" where
  "cmd_reboot argv = thn (ob_reboot portal_deliver) (ret 0)"

definition cmd_factory_reset :: "string list \<Rightarrow> ('z portal_scheme, int) prog" where
  "cmd_factory_reset argv = thn ob_nvs_data_factory_reset (ret 0)"

section \<open>The table of the commands\<close>

text \<open>A command: its path below \<open>ob\<close>, its handler, its mandatory and optional arguments.\<close>

type_synonym shell_cmd = "string list \<times> fnptr \<times> nat \<times> nat"

abbreviation under :: "string \<Rightarrow> (string \<times> fnptr \<times> nat \<times> nat) list \<Rightarrow> shell_cmd list" where
  "under p cs \<equiv> map (\<lambda>(n, h). ([p, n], h)) cs"

abbreviation ifdef :: "bool \<Rightarrow> 'a list \<Rightarrow> 'a list" where
  "ifdef b xs \<equiv> (if b then xs else [])"

definition sub_ob_web_cmds :: "(string \<times> fnptr \<times> nat \<times> nat) list" where
  "sub_ob_web_cmds = [(''start'', ''ob_web_start'', 0, 0), (''stop'', ''ob_web_stop'', 0, 0)]"

definition sub_ob_ap_cmds :: "(string \<times> fnptr \<times> nat \<times> nat) list" where
  "sub_ob_ap_cmds = [(''enable'', ''ob_ap_enable'', 0, 1), (''disable'', ''ob_ap_disable'', 0, 0),
     (''address'', ''ap_address_handler'', 1, 1)]"

definition sub_ob_dhcp_cmds :: "(string \<times> fnptr \<times> nat \<times> nat) list" where
  "sub_ob_dhcp_cmds = [(''start'', ''ob_dhcp_start'', 0, 0), (''stop'', ''ob_dhcp_stop'', 0, 0)]"

definition sub_ob_wifi_cmds :: "config \<Rightarrow> shell_build \<Rightarrow> (string \<times> fnptr \<times> nat \<times> nat) list" where
  "sub_ob_wifi_cmds c b =
     ifdef (CONFIG_ONBOARDING_NVS b) [(''ssid'', ''ssid_handler'', 1, 1), (''psk'', ''psk_handler'', 1, 1)] @
     ifdef (CONFIG_ONBOARDING_WIFI c) [(''address'', ''setup_iface'', 2, 0)] @
     ifdef (CONFIG_NET_HOSTNAME_DYNAMIC c) [(''name'', ''wifi_name_handler'', 1, 1)]"

definition sub_ob_ota_updatehub :: "(string \<times> fnptr \<times> nat \<times> nat) list" where
  "sub_ob_ota_updatehub = [(''confirm'', ''updatehub_confirm_handler'', 0, 0),
     (''probe'', ''updatehub_probe_handler'', 0, 0), (''update'', ''updatehub_update_handler'', 0, 0)]"

definition sub_ob_ota_golioth :: "shell_build \<Rightarrow> (string \<times> fnptr \<times> nat \<times> nat) list" where
  "sub_ob_ota_golioth b = ifdef (CONFIG_GOLIOTH_AUTH_METHOD_PSK b)
     [(''psk'', ''golioth_psk_handler'', 1, 1), (''psk_id'', ''golioth_psk_id_handler'', 1, 1)]"

definition sub_ob :: "config \<Rightarrow> shell_build \<Rightarrow> shell_cmd list" where
  "sub_ob c b =
     under ''wifi'' (sub_ob_wifi_cmds c b) @
     ifdef (CONFIG_ONBOARDING_WIFI_AP c)
       (under ''ap'' sub_ob_ap_cmds @
        ifdef (CONFIG_NET_DHCPV4_SERVER c) (under ''dhcp'' sub_ob_dhcp_cmds)) @
     ifdef (CONFIG_ONBOARDING_WEB_SERVER c) (under ''web'' sub_ob_web_cmds) @
     ifdef (CONFIG_ONBOARDING_OTA_UPDATEHUB b) (under ''updatehub'' sub_ob_ota_updatehub) @
     ifdef (CONFIG_ONBOARDING_OTA_GOLIOTH b) (under ''golioth'' (sub_ob_ota_golioth b)) @
     ifdef (CONFIG_ONBOARDING_REBOOT b) [([''reboot''], ''cmd_reboot'', 0, 0)] @
     [([''factory_reset''], ''cmd_factory_reset'', 0, 0)]"

text \<open>The function a name in the table stands for.\<close>

definition run_handler :: "shell_build \<Rightarrow> fnptr \<Rightarrow> string list \<Rightarrow> ('z portal_scheme, int) prog" where
  "run_handler b f argv =
     (if f = ''ob_web_start'' then ob_web_start argv
      else if f = ''ob_web_stop'' then ob_web_stop argv
      else if f = ''ob_ap_enable'' then ob_ap_enable argv
      else if f = ''ob_ap_disable'' then ob_ap_disable argv
      else if f = ''ap_address_handler'' then ap_address_handler argv
      else if f = ''ob_dhcp_start'' then ob_dhcp_start argv
      else if f = ''ob_dhcp_stop'' then ob_dhcp_stop argv
      else if f = ''ssid_handler'' then ssid_handler argv
      else if f = ''psk_handler'' then psk_handler argv
      else if f = ''setup_iface'' then setup_iface argv
      else if f = ''wifi_name_handler'' then wifi_name_handler argv
      else if f = ''updatehub_confirm_handler'' then updatehub_confirm_handler argv
      else if f = ''updatehub_probe_handler'' then updatehub_probe_handler argv
      else if f = ''updatehub_update_handler'' then updatehub_update_handler argv
      else if f = ''golioth_psk_handler'' then golioth_psk_handler b argv
      else if f = ''golioth_psk_id_handler'' then golioth_psk_id_handler b argv
      else if f = ''cmd_reboot'' then cmd_reboot argv
      else cmd_factory_reset argv)"

text \<open>The command a path names.\<close>

definition find_cmd :: "shell_cmd list \<Rightarrow> string list \<Rightarrow> shell_cmd option" where
  "find_cmd cs line = List.find (\<lambda>cmd. take (length (fst cmd)) line = fst cmd) cs"

section \<open>What the settings commands do\<close>

definition shell_env_ok :: "'z nvs_scheme \<Rightarrow> bool" where
  "shell_env_ok s \<longleftrightarrow> nvs_env_ok s \<and> responsive s"

lemma nvs_init_env:
  assumes "nvs_env_ok s"
  shows "\<exists>s'. ob_nvs_data_init s = Inr (0, s') \<and> store s' = store s \<and> reply s' = reply s \<and>
    nvs_env_ok s' \<and> cfg s' = cfg s"
proof -
  from assms obtain r where "reply s (trace s) SettingsSubsysInit = Some r"
    by (auto simp: nvs_env_ok_def)
  with assms show ?thesis
    by (auto simp: ob_nvs_data_init_def nvs_env_ok_def ext0_apply store_step_def)
qed

lemma print_setting_present:
  assumes ok: "shell_env_ok s" and st: "store s k = Some v" and v: "v \<noteq> []" "nul_free v" "length v \<le> n" "n < cap"
  shows "print_setting k l n cap s = Inr (int (length v),
    s\<lparr>trace := trace s @ [SettingsLoadOne k n, ShellPrintLine (l @ '': '' @ v @ [LF])]\<rparr>)"
proof -
  have e: "nvs_env_ok s" and r: "responsive s" using ok by (simp_all add: shell_env_ok_def)
  note rd = nvs_read_present [OF e st v(3)]
  have "\<exists>x. reply s (trace s @ [SettingsLoadOne k n]) (ShellPrintLine (l @ '': '' @ v @ [LF])) = Some x"
    using r by (auto simp: replies_def)
  then show ?thesis using v by (auto simp: print_setting_def rd ext0_apply)
qed

lemma print_setting_absent:
  assumes "nvs_env_ok s" and "store s k = None" and "n \<le> cap"
  shows "\<exists>s'. print_setting k l n cap s = Inr (- 1, s') \<and> store s' = store s"
proof -
  obtain rc b where "ob_nvs_data_read k n s = Inr ((rc, b), s\<lparr>trace := trace s @ [SettingsLoadOne k n]\<rparr>)" "rc < 0"
    using nvs_read_absent [OF assms(1,2)] by blast
  with assms(3) show ?thesis by (simp add: print_setting_def store_step_def)
qed


lemma setting_write:
  assumes ok: "shell_env_ok s"
  shows "\<exists>rc s'. setting_handler k l n cap [c, v] s = Inr (rc, s') \<and> shell_env_ok s' \<and> cfg s' = cfg s \<and>
    reply s' = reply s \<and> ((\<forall>tr. reply s tr (SettingsSaveOne k v) = Some 0) \<longrightarrow> rc = 0) \<and>
    (rc = 0 \<and> store s' = (store s)(k \<mapsto> v) \<or> rc < 0 \<and> store s' = store s)"
proof -
  have "nvs_env_ok s" using ok by (simp add: shell_env_ok_def)
  from nvs_init_env [OF this] obtain s1 where s1: "ob_nvs_data_init s = Inr (0, s1)" "store s1 = store s"
    "reply s1 = reply s" "nvs_env_ok s1" "cfg s1 = cfg s" by blast
  obtain rc s2 where w: "ob_nvs_data_write k v (length v) s1 = Inr (rc, s2)" "nvs_env_ok s2"
    "rc = 0 \<and> store s2 = (store s1)(k \<mapsto> take (length v) v) \<or> rc < 0 \<and> store s2 = store s1"
    using nvs_write_law [OF s1(4), of k v "length v"] by blast
  have "reply s2 = reply s1 \<and> cfg s2 = cfg s1 \<and> ((\<forall>tr. reply s tr (SettingsSaveOne k v) = Some 0) \<longrightarrow> rc = 0)"
    using w(1) s1(3) by (auto simp: ob_nvs_data_write_def ext_apply split: option.splits)
  then show ?thesis
    using ok s1 w by (intro exI [of _ rc] exI [of _ s2]) (simp add: setting_handler_def shell_env_ok_def)
qed

lemma setting_read:
  assumes ok: "shell_env_ok s" and st: "store s k = Some v" and v: "v \<noteq> []" "nul_free v" "length v \<le> n" "n < cap"
  shows "\<exists>pre s'. setting_handler k l n cap [c] s = Inr (int (length v), s') \<and> store s' = store s \<and>
    trace s' = pre @ [ShellPrintLine (l @ '': '' @ v @ [LF])]"
proof -
  have "nvs_env_ok s" using ok by (simp add: shell_env_ok_def)
  from nvs_init_env [OF this] obtain s1 where s1: "ob_nvs_data_init s = Inr (0, s1)" "store s1 = store s"
    "reply s1 = reply s" "nvs_env_ok s1" by blast
  have "shell_env_ok s1" and "store s1 k = Some v" using ok s1 st by (simp_all add: shell_env_ok_def)
  from print_setting_present [OF this v, of l] s1 show ?thesis
    by (simp add: setting_handler_def store_step_def store_at_snoc [of _ _ "trace s1 @ [_]" _, simplified])
qed

text \<open>A setting handler writes no key but its own.\<close>

lemma setting_other_key:
  assumes "j \<noteq> k"
  shows "store (final (setting_handler k l n cap argv s)) j = store s j"
proof -
  have "keeps (\<lambda>t. reply t = reply s \<and> flash0 t = flash0 s \<and> store t j = store s j)
      (setting_handler k l n cap argv)"
    unfolding setting_handler_def print_setting_def nvs_defs
    by (intro keeps_intros keeps_exts keeps_modify) (use assms in \<open>auto simp: store_step_def\<close>)
  from keepsD [OF this] show ?thesis by auto
qed

section \<open>The table\<close>

definition all_cmds :: "shell_cmd list" where
  "all_cmds =
     under ''wifi'' [(''ssid'', ''ssid_handler'', 1, 1), (''psk'', ''psk_handler'', 1, 1),
       (''address'', ''setup_iface'', 2, 0), (''name'', ''wifi_name_handler'', 1, 1)] @
     under ''ap'' sub_ob_ap_cmds @ under ''dhcp'' sub_ob_dhcp_cmds @ under ''web'' sub_ob_web_cmds @
     under ''updatehub'' sub_ob_ota_updatehub @
     under ''golioth'' [(''psk'', ''golioth_psk_handler'', 1, 1), (''psk_id'', ''golioth_psk_id_handler'', 1, 1)] @
     [([''reboot''], ''cmd_reboot'', 0, 0), ([''factory_reset''], ''cmd_factory_reset'', 0, 0)]"

lemmas table_defs = sub_ob_web_cmds_def sub_ob_ap_cmds_def sub_ob_dhcp_cmds_def sub_ob_wifi_cmds_def
  sub_ob_ota_updatehub_def sub_ob_ota_golioth_def

lemma ifdef_simps:
  "x \<in> set (ifdef b xs) \<longleftrightarrow> b \<and> x \<in> set xs"
  "map f (ifdef b ys) = ifdef b (map f ys)"
  by simp_all

lemma sub_ob_all: "e \<in> set (sub_ob c b) \<Longrightarrow> e \<in> set all_cmds"
  unfolding sub_ob_def all_cmds_def sub_ob_wifi_cmds_def sub_ob_ota_golioth_def map_append set_append Un_iff
    ifdef_simps by (elim disjE conjE; simp; (elim disjE; simp)?)

lemma all_cmds_distinct: "distinct (map fst all_cmds)"
  unfolding all_cmds_def table_defs by simp

lemma all_cmds_shape:
  "d \<in> set all_cmds \<Longrightarrow> length (fst d) = 2 \<and> hd (fst d) \<notin> {''reboot'', ''factory_reset''} \<or>
     fst d \<in> {[''reboot''], [''factory_reset'']}"
  unfolding all_cmds_def table_defs by auto

lemma all_cmds_prefix_free:
  assumes "d \<in> set all_cmds" and "e \<in> set all_cmds" and p: "prefix (fst d) (fst e)"
  shows "d = e"
proof -
  have "length (fst d) \<le> 1 \<Longrightarrow> hd (fst d) = hd (fst e)" and "fst d \<noteq> []" and "fst e \<noteq> []"
    using p all_cmds_shape [OF assms(1)] all_cmds_shape [OF assms(2)] by (auto simp: prefix_def)
  then have "length (fst d) = length (fst e)"
    using all_cmds_shape [OF assms(1)] all_cmds_shape [OF assms(2)] prefix_length_le [OF p] by auto
  with p have "fst d = fst e" by (metis append_eq_conv_conj prefix_def take_all_iff order_refl)
  with assms(1,2) all_cmds_distinct show ?thesis by (auto simp: distinct_map inj_on_def)
qed

text \<open>Every command of the table is found by its path, whatever its arguments.\<close>

lemma find_cmd_path:
  assumes "e \<in> set (sub_ob c b)"
  shows "find_cmd (sub_ob c b) (fst e @ args) = Some e"
proof -
  have "\<exists>d \<in> set (sub_ob c b). take (length (fst d)) (fst e @ args) = fst d"
    using assms by (intro bexI [of _ e]) simp_all
  then have "find_cmd (sub_ob c b) (fst e @ args) \<noteq> None"
    unfolding find_cmd_def find_None_iff by blast
  then obtain d where d: "find_cmd (sub_ob c b) (fst e @ args) = Some d" by blast
  then have p: "d \<in> set (sub_ob c b)" "take (length (fst d)) (fst e @ args) = fst d"
    unfolding find_cmd_def by (auto simp: find_Some_iff)
  from p(2) have "prefix (fst d) (fst e @ args)" by (metis take_is_prefix)
  then have "prefix (fst d) (fst e) \<or> prefix (fst e) (fst d)"
    by (rule prefix_same_cases) simp
  with assms p(1) sub_ob_all all_cmds_prefix_free have "d = e" by blast
  with d show ?thesis by simp
qed

section \<open>The credentials from the shell\<close>

lemma ssid_command:
  assumes "CONFIG_ONBOARDING_NVS b"
  shows "find_cmd (sub_ob c b) ([''wifi'', ''ssid''] @ args) = Some ([''wifi'', ''ssid''], ''ssid_handler'', 1, 1)"
    and "find_cmd (sub_ob c b) ([''wifi'', ''psk''] @ args) = Some ([''wifi'', ''psk''], ''psk_handler'', 1, 1)"
proof -
  have "([''wifi'', ''ssid''], ''ssid_handler'', 1, 1) \<in> set (sub_ob c b)"
    "([''wifi'', ''psk''], ''psk_handler'', 1, 1) \<in> set (sub_ob c b)"
    using assms by (simp_all add: sub_ob_def sub_ob_wifi_cmds_def)
  from this [THEN find_cmd_path, of args]
  show "find_cmd (sub_ob c b) ([''wifi'', ''ssid''] @ args) = Some ([''wifi'', ''ssid''], ''ssid_handler'', 1, 1)"
    and "find_cmd (sub_ob c b) ([''wifi'', ''psk''] @ args) = Some ([''wifi'', ''psk''], ''psk_handler'', 1, 1)"
    by simp_all
qed

lemma shell_ssid_saves:
  assumes "shell_env_ok s"
  shows "\<exists>rc s'. ssid_handler [c, v] s = Inr (rc, s') \<and> shell_env_ok s' \<and> cfg s' = cfg s \<and>
    reply s' = reply s \<and> ((\<forall>tr. reply s tr (SettingsSaveOne NVS_SETTINGS_ID_WIFI_SSID v) = Some 0) \<longrightarrow> rc = 0) \<and>
    (rc = 0 \<and> store s' = (store s)(NVS_SETTINGS_ID_WIFI_SSID \<mapsto> v) \<or> rc < 0 \<and> store s' = store s)"
    and "\<exists>rc s'. psk_handler [c, v] s = Inr (rc, s') \<and> shell_env_ok s' \<and> cfg s' = cfg s \<and>
    reply s' = reply s \<and> ((\<forall>tr. reply s tr (SettingsSaveOne NVS_SETTINGS_ID_WIFI_PSK v) = Some 0) \<longrightarrow> rc = 0) \<and>
    (rc = 0 \<and> store s' = (store s)(NVS_SETTINGS_ID_WIFI_PSK \<mapsto> v) \<or> rc < 0 \<and> store s' = store s)"
  using setting_write [OF assms]
  by (simp_all add: ssid_handler_def psk_handler_def)

lemma shell_ssid_prints:
  assumes "shell_env_ok s"
    and "store s NVS_SETTINGS_ID_WIFI_SSID = Some x" "x \<noteq> []" "nul_free x" "length x \<le> WIFI_SSID_MAX_LEN (cfg s)"
  shows "\<exists>pre s'. ssid_handler [c] s = Inr (int (length x), s') \<and> store s' = store s \<and>
    trace s' = pre @ [ShellPrintLine (''SSID: '' @ x @ [LF])]"
  using setting_read [OF assms, of "Suc (WIFI_SSID_MAX_LEN (cfg s))" "''SSID''"]
  by (simp add: ssid_handler_def)

text \<open>A value in the store that is longer than the array: its size is used as the index of the NUL.\<close>

lemma ssid_handler_overruns:
  assumes "shell_env_ok s" and "store s NVS_SETTINGS_ID_WIFI_SSID = Some x" and "WIFI_SSID_MAX_LEN (cfg s) < length x"
  shows "\<exists>s'. ssid_handler [c] s = Inl (OutOfBounds, s')"
proof -
  let ?n = "WIFI_SSID_MAX_LEN (cfg s)"
  have ok: "nvs_env_ok s" using assms(1) by (simp add: shell_env_ok_def)
  obtain s1 where s1: "ob_nvs_data_init s = Inr (0, s1)" "store s1 = store s" "nvs_env_ok s1"
    using nvs_init_env [OF ok] by blast
  have "settings_ok s1" and "store s1 NVS_SETTINGS_ID_WIFI_SSID = Some x"
    using s1 assms(2) by (simp_all add: nvs_env_ok_def)
  from settings_load(1) [OF this] s1 assms(3) show ?thesis
    by (auto simp: ssid_handler_def setting_handler_def print_setting_def ob_nvs_data_read_def ext_data_apply)
qed

text \<open>What is typed at the shell is what the next start-up asks to join.\<close>

lemma shell_joins:
  assumes env: "shell_env_ok s"
    and one: "ssid_handler [c, x] s = Inr (0, s1)"
    and two: "psk_handler [c', y] s1 = Inr (0, s2)"
    and cred: "x \<noteq> []" "y \<noteq> []" "length x \<le> WIFI_SSID_MAX_LEN (cfg t)" "length y \<le> WIFI_PSK_MAX_LEN (cfg t)"
    and next_boot: "booted (store s2) t"
    and iface: "\<And>tr. reply t tr (NetIfGet wifi_sta) = Some iface" "iface \<noteq> 0"
    and fine: "boots_fine t"
  shows "\<exists>r t'. ob_wifi_init portal_deliver t = Inr (r, t') \<and>
    NetMgmt (NET_REQUEST_WIFI_CONNECT x y) iface \<in> set (trace t')"
proof -
  from shell_ssid_saves(1) [OF env, of c x] one
  have s1: "shell_env_ok s1" "store s1 = (store s)(NVS_SETTINGS_ID_WIFI_SSID \<mapsto> x)" by auto
  from shell_ssid_saves(2) [OF s1(1), of c' y] two
  have st: "store s2 = (store s)(NVS_SETTINGS_ID_WIFI_SSID \<mapsto> x, NVS_SETTINGS_ID_WIFI_PSK \<mapsto> y)"
    using s1(2) by auto
  have "has_credentials x y t"
    using booted_credentials [OF next_boot [unfolded st], of x y] cred by simp
  from boot_asks_for_stored [OF fine this iface] show ?thesis .
qed

end
