(* ===== verification/Ob_Gatt_Device.thy ===== *)
theory Ob_Gatt_Device
  imports Ob_Device Ob_Gatt_Session Ob_Bluetooth Ob_Shell
begin

text \<open>
  The device of \<open>Ob_Device\<close> with Bluetooth: a JSON library small enough to compute with, a
  scan that finds two networks, and the state machine that advertises.
\<close>

section \<open>A JSON library\<close>

text \<open>Objects of strings without quotes and escapes, booleans and numbers.\<close>

definition json_quote :: "string \<Rightarrow> string" where
  "json_quote x = DQ # x @ [DQ]"

fun json_value_text :: "json_value \<Rightarrow> string" where
  "json_value_text (JString x) = json_quote x"
| "json_value_text (JBool b) = (if b then ''true'' else ''false'')"
| "json_value_text (JNumber n) = dec_int n"

definition demo_encode :: json_encoder where
  "demo_encode d obj room = ''{'' @ with_commas (map (\<lambda>(k, tok). json_quote k @ '':'' @
     (case obj k of None \<Rightarrow> [] | Some v \<Rightarrow> json_value_text v)) d) @ ''}''"

fun split_quotes :: "string \<Rightarrow> string \<Rightarrow> string list" where
  "split_quotes acc [] = [rev acc]"
| "split_quotes acc (c # cs) = (if c = DQ then rev acc # split_quotes [] cs else split_quotes (c # acc) cs)"

fun field_after :: "string \<Rightarrow> string list \<Rightarrow> string option" where
  "field_after k (a # b # c # xs) = (if a = k then Some c else field_after k (b # c # xs))"
| "field_after k xs = None"

definition demo_parse :: json_parser where
  "demo_parse b d = (3, \<lambda>k. if k \<in> fst ` set d then map_option JString (field_after k (split_quotes [] b)) else None)"

text \<open>The entry of the list for a network, and a request to join one.\<close>

definition entry_json :: "string \<Rightarrow> string \<Rightarrow> string \<Rightarrow> string" where
  "entry_json x secure strength = ''{'' @ json_quote ''ssid'' @ '':'' @ json_quote x @ '','' @ json_quote ''secure'' @
     '':'' @ secure @ '','' @ json_quote ''strength'' @ '':'' @ strength @ ''}''"

definition join_json :: "string \<Rightarrow> string \<Rightarrow> string" where
  "join_json x y = ''{'' @ json_quote ''ssid'' @ '':'' @ json_quote x @ '','' @ json_quote ''passcode'' @ '':'' @
     json_quote y @ ''}''"

lemma demo_entry:
  "encode_entry demo_encode x secure strength room =
     entry_json x (if secure then ''true'' else ''false'') (dec_int strength)"
  by (simp add: encode_entry_def demo_encode_def ob_ap_list_entry_def entry_json_def
      secure_ap_list_entry_json_descr_def open_ap_list_entry_json_descr_def)

lemma demo_request: "parse_set_ap demo_parse (join_json ''home'' ''secret12'') = (3, Some ''home'', Some ''secret12'')"
  by (simp add: parse_set_ap_def demo_parse_def join_json_def json_quote_def set_ap_json_descr_def string_field_def)

lemma demo_request_fits:
  "length (join_json ''home'' ''secret12'') < WRITE_BUFFER_SIZE" "nul_free (join_json ''home'' ''secret12'')"
  by (simp_all add: join_json_def json_quote_def WRITE_BUFFER_SIZE_def)

definition gatt_of :: "portal \<Rightarrow> gatt" where
  "gatt_of p = portal.extend p (gatt.fields demo_parse demo_encode [] 0 0 ''[]'' []
     (replicate WRITE_BUFFER_SIZE NUL) 0 0)"

lemma gatt_of_split: "gatt_of p = \<lparr>cfg = cfg p, reply = reply p, data = data p, arrivals = arrivals p, listing = listing p,
   flash0 = flash0 p, trace = trace p, brk = brk p, nvs_data_inited = nvs_data_inited p, mMirrorCallback = mMirrorCallback p,
   certs_initialized = certs_initialized p, ota_poll_interval = ota_poll_interval p, ota_vtable = ota_vtable p,
   ssid_heap = ssid_heap p, ssid_head = ssid_head p, ssid_tail = ssid_tail p, wifi_inited = wifi_inited p,
   wifi_connect_status_succeded = wifi_connect_status_succeded p, mHasAp = mHasAp p, gSSID = gSSID p,
   gSSID_len = gSSID_len p, gPSK = gPSK p, gPSK_len = gPSK_len p, wifi_ap_ssid = wifi_ap_ssid p, wifi_ap_psk = wifi_ap_psk p,
   wifi_ap_address = wifi_ap_address p, done_callback = done_callback p, address_add_callback = address_add_callback p,
   rx = rx p, tx = tx p, wire = wire p, web_pages = web_pages p, web_server_inited = web_server_inited p,
   mWebServerRunning = mWebServerRunning p, web_connected = web_connected p, want_to_quit = want_to_quit p,
   tcp4_listen_sock = tcp4_listen_sock p, tcp6_listen_sock = tcp6_listen_sock p, tcp4_accepted = tcp4_accepted p,
   tcp6_accepted = tcp6_accepted p, tcp4_handler_tid = tcp4_handler_tid p, tcp6_handler_tid = tcp6_handler_tid p,
   content_wifi_body_ssid = content_wifi_body_ssid p, wifi_setup_attrib = wifi_setup_attrib p, json_obj_parse = demo_parse,
   json_obj_encode_buf = demo_encode, notified = [], ssid_list = 0, ap_list_count = 0,
   ap_list_data = ''[]'', current_ap_data = [], tmp_write_buffer = replicate WRITE_BUFFER_SIZE NUL,
   most_recent_scan_time = 0, work_handler_conn_pointer = 0\<rparr>"
  by (cases p) (simp add: gatt_of_def portal.defs gatt.defs)

lemma gatt_of_fields [simp]:
  "cfg (gatt_of p) = cfg p" "reply (gatt_of p) = reply p" "trace (gatt_of p) = trace p" "flash0 (gatt_of p) = flash0 p"
  "arrivals (gatt_of p) = arrivals p" "brk (gatt_of p) = brk p" "gSSID (gatt_of p) = gSSID p" "gPSK (gatt_of p) = gPSK p"
  "ssid_heap (gatt_of p) = ssid_heap p" "ssid_head (gatt_of p) = ssid_head p" "ssid_tail (gatt_of p) = ssid_tail p"
  "wifi_inited (gatt_of p) = wifi_inited p" "done_callback (gatt_of p) = done_callback p"
  "json_obj_parse (gatt_of p) = demo_parse" "json_obj_encode_buf (gatt_of p) = demo_encode" "notified (gatt_of p) = []"
  "ap_list_count (gatt_of p) = 0" "tmp_write_buffer (gatt_of p) = replicate WRITE_BUFFER_SIZE NUL"
  by (simp_all add: gatt_of_split)

lemma gatt_of_list [simp]: "list_models (gatt_of p) l = list_models p l"
  by (simp add: list_models_def ssid_models_def ssid_rep_def)

lemma gatt_of_nvs [simp]: "nvs_env_ok (gatt_of p) = nvs_env_ok p"
  by (simp add: nvs_env_ok_def gatt_of_split)

section \<open>Reading the list\<close>

definition found :: "(string \<times> nat \<times> 8 word \<times> bool) list" where
  "found = [(''home'', 4, 206, True), (''guest'', 5, 190, False), (''home'', 4, 180, True)]"

definition read_list :: gatt where
  "read_list = gatt_of (plain_device\<lparr>wifi_inited := True, done_callback := Some ''scan_complete'',
     reply := (\<lambda>tr c. if c = BtGattGetMtu then Some 8 else mem_reply [] device_reply tr c),
     arrivals := (\<lambda>tr c. if c = KSemTake scan_semaphore (Some SCAN_TIMEOUT)
       then map scan_event found @ [WIFI_SCAN_DONE] else [])\<rparr>)"

lemma plain_list [simp]: "list_models plain_device []"
  by (simp add: plain_device_def)

lemma read_list_facts:
  "list_models read_list []" "has_memory (reply read_list)" "wifi_inited read_list"
  "done_callback read_list = Some ''scan_complete''" "CONFIG_ONBOARDING_WIFI (cfg read_list)"
  "ap_list_count read_list = 0"
  "arrivals read_list tr (KSemTake scan_semaphore (Some SCAN_TIMEOUT)) = map scan_event found @ [WIFI_SCAN_DONE]"
  "takes_chunks (reply read_list)" "reply read_list tr BtGattGetMtu = Some 8" "notified read_list = []"
  "json_obj_encode_buf read_list = demo_encode" "json_law (json_entry read_list)"
proof -
  show "list_models read_list []"
    using plain_list by (auto simp: read_list_def list_models_def ssid_models_def ssid_rep_def replies_def plain_device_def)
qed (simp_all add: read_list_def plain_device_def device_cfg_def has_memory_def takes_chunks_def mem_reply_def device_reply_def
    json_law_def demo_entry)

lemma dec_strengths: "dec_int 80 = ''80''" "dec_int 64 = ''64''"
  by code_simp+

lemma found_text:
  "ap_list_text (encode_entry demo_encode) (fold ap_add_result (map scan_entry found) []) =
   ''['' @ entry_json ''home'' ''true'' ''80'' @ '','' @ entry_json ''guest'' ''false'' ''64'' @ '']''"
  by (simp add: found_def scan_entry_def ap_add_def ap_listed_def ap_new_def strncmp_eq_def ap_list_text_def
      ap_entry_def entries_text_def entry_text_def demo_entry MAX_AP_LIST_LENGTH_def scan_strength_def dec_strengths)

lemma found_length:
  "length (entry_json ''home'' ''true'' ''80'') = 43" "length (entry_json ''guest'' ''false'' ''64'') = 45"
  by (simp_all add: entry_json_def json_quote_def)

text \<open>A list with one network, at the end of a scan.\<close>

definition listed :: gatt where
  "listed = gatt_of (one_network\<lparr>done_callback := Some ''scan_complete''\<rparr>)"

lemma listed_facts:
  "ssid_rep listed [1]" "[1 :: nat] \<noteq> []" "done_callback listed = Some ''scan_complete''" "responsive listed"
  using one_network_facts(1,3) by (simp_all add: listed_def ssid_rep_def)

section \<open>Writing a network\<close>

definition writing :: gatt where
  "writing = gatt_of (plain_device\<lparr>wifi_inited := True,
     arrivals := (\<lambda>tr c. if c = KSemTake wifi_connect_sem None then [IPV4_DHCP_BOUND 0] else [])\<rparr>)"

lemma writing_facts:
  "length (tmp_write_buffer writing) = WRITE_BUFFER_SIZE"
  "json_parse writing (join_json ''home'' ''secret12'') = (3, Some ''home'', Some ''secret12'')"
  "length (gSSID writing) = WIFI_SSID_MAX_LEN (cfg writing)" "length (gPSK writing) = WIFI_PSK_MAX_LEN (cfg writing)"
  "length ''home'' < WIFI_SSID_MAX_LEN (cfg writing)" "length ''secret12'' < WIFI_PSK_MAX_LEN (cfg writing)"
  "reply writing tr (SettingsSaveOne k v) = Some 0" "store writing = Map.empty" "cfg writing = device_cfg"
  by (simp_all add: writing_def demo_request plain_device_def device_cfg_def)

lemma writing_joins:
  assumes buf: "length buf < WRITE_BUFFER_SIZE" "nul_free buf" and parsed: "json_parse writing buf = (3, Some x, Some y)"
    and len: "length x < 32" "length y < 64"
  shows "\<exists>r s'. write_current_ap gatt_deliver buf 0 2 writing = Inr (r, s') \<and> store s' \<noteq> store writing"
proof -
  note w = write_joins [OF buf writing_facts(1) parsed, of gatt_deliver 2]
  show ?thesis
    using len by (simp add: w del: One_nat_def)
      (simp add: writing_def gatt_of_split plain_device_def device_def device_cfg_def ob_join_network_def
      set_current_ap_def ob_wifi_connect_def connect_loop_first connect_request_def ext_apply ext0_apply ext_wait_def
      gatt_deliver_def web_deliver_def wifi_deliver_def ipv4_mgmt_event_handler_def ob_web_event_handler_def
      mem_reply_def device_reply_def ob_nvs_data_write_def store_at_def store_step_def)
qed

text \<open>A session of one write; the device that starts on the store it leaves.\<close>

lemma writing_session:
  assumes "write_current_ap gatt_deliver buf 0 2 writing = Inr (r, s')"
  shows "gatt_session True writing s'"
proof -
  let ?ch = "\<lparr>ch_uuid = BT_UUID_CUSTOM_SET_AP_VAL,
        ch_props = BT_GATT_CHRC_WRITE OR BT_GATT_CHRC_READ OR BT_GATT_CHRC_NOTIFY,
        ch_perm = BT_GATT_PERM_READ_ENCRYPT OR BT_GATT_PERM_WRITE_ENCRYPT,
        ch_read = Some ''read_current_ap'', ch_write = Some ''write_current_ap'',
        ch_user_data = ''current_ap_data''\<rparr>"
  have "gatt_step True writing s'"
  proof (rule gatt_step.peer_write [of ?ch "''write_current_ap''"])
    show "run_write ''write_current_ap'' buf 0 2 writing = Inr (r, s')" using assms by (simp add: run_write_def)
  qed (simp_all add: table_simps)
  then show ?thesis by (rule gatt_session.step [OF gatt_session.start])
qed

lemma writing_done:
  "\<exists>s. gatt_session True writing s \<and> store s \<noteq> store writing \<and>
     store s = [NVS_SETTINGS_ID_WIFI_SSID \<mapsto> ''home'', NVS_SETTINGS_ID_WIFI_PSK \<mapsto> ''secret12'']"
proof -
  obtain r s where s: "write_current_ap gatt_deliver (join_json ''home'' ''secret12'') 0 2 writing = Inr (r, s)"
    "store s \<noteq> store writing" using writing_joins [OF demo_request_fits writing_facts(2)] by auto
  from write_saves_accepted [OF demo_request_fits writing_facts(1,2) _ writing_facts(3-7) s(1)] s(2) writing_facts(8)
  have "store s = [NVS_SETTINGS_ID_WIFI_SSID \<mapsto> ''home'', NVS_SETTINGS_ID_WIFI_PSK \<mapsto> ''secret12'']" by auto
  with s(2) writing_session [OF s(1)] show ?thesis by blast
qed

lemma stored_network_Some:
  "[NVS_SETTINGS_ID_WIFI_SSID \<mapsto> x, NVS_SETTINGS_ID_WIFI_PSK \<mapsto> y] = stored_network Map.empty x' y' \<longleftrightarrow>
     x' = x \<and> y' = y"
proof
  assume eq: "[NVS_SETTINGS_ID_WIFI_SSID \<mapsto> x, NVS_SETTINGS_ID_WIFI_PSK \<mapsto> y] = stored_network Map.empty x' y'"
  from fun_cong [OF eq, of NVS_SETTINGS_ID_WIFI_SSID] fun_cong [OF eq, of NVS_SETTINGS_ID_WIFI_PSK]
  show "x' = x \<and> y' = y" by (simp add: stored_network_def)
qed (simp add: stored_network_def)

lemma gatt_restart_fine: "boots_fine (gatt_of after_post)"
  using restart_fine [of "''home''" "''secret12''"] by (simp add: boots_fine_def after_post_def)

lemma gatt_restart_booted:
  "booted [NVS_SETTINGS_ID_WIFI_SSID \<mapsto> ''home'', NVS_SETTINGS_ID_WIFI_PSK \<mapsto> ''secret12''] (gatt_of after_post)"
  by (simp add: booted_def after_post_def restart_on_def device_cfg_def)

section \<open>The shell\<close>

lemma plain_shell_env: "shell_env_ok plain_device"
  by (simp add: shell_env_ok_def plain_device_def)

lemma shell_run:
  "\<exists>s1 s2. ssid_handler [''ssid'', ''home''] plain_device = Inr (0, s1) \<and>
     psk_handler [''psk'', ''secret12''] s1 = Inr (0, s2) \<and> booted (store s2) after_post"
proof -
  obtain rc s1 where s1: "ssid_handler [''ssid'', ''home''] plain_device = Inr (rc, s1)" "shell_env_ok s1"
    "reply s1 = reply plain_device" "(\<forall>tr. reply plain_device tr (SettingsSaveOne NVS_SETTINGS_ID_WIFI_SSID ''home'') = Some 0) \<longrightarrow> rc = 0"
    "rc = 0 \<and> store s1 = (store plain_device)(NVS_SETTINGS_ID_WIFI_SSID \<mapsto> ''home'') \<or> rc < 0 \<and> store s1 = store plain_device"
    using shell_ssid_saves(1) [OF plain_shell_env, of "''ssid''" "''home''"] by blast
  then have r1: "rc = 0" "store s1 = [NVS_SETTINGS_ID_WIFI_SSID \<mapsto> ''home'']" by (auto simp: plain_device_def)
  obtain rc' s2 where s2: "psk_handler [''psk'', ''secret12''] s1 = Inr (rc', s2)"
    "(\<forall>tr. reply s1 tr (SettingsSaveOne NVS_SETTINGS_ID_WIFI_PSK ''secret12'') = Some 0) \<longrightarrow> rc' = 0"
    "rc' = 0 \<and> store s2 = (store s1)(NVS_SETTINGS_ID_WIFI_PSK \<mapsto> ''secret12'') \<or> rc' < 0 \<and> store s2 = store s1"
    using shell_ssid_saves(2) [OF s1(2), of "''psk''" "''secret12''"] by blast
  have "reply s1 tr (SettingsSaveOne k v) = Some 0" for tr k v
    using s1(3) by (simp add: plain_device_def)
  with s2 r1 have "rc' = 0" "store s2 = map_of [(NVS_SETTINGS_ID_WIFI_PSK, ''secret12''), (NVS_SETTINGS_ID_WIFI_SSID, ''home'')]"
    by auto
  with s1(1) r1(1) s2(1) show ?thesis by (auto simp: booted_def after_post_def restart_on_def device_cfg_def)
qed

section \<open>Advertising\<close>

definition ble_of :: "portal \<Rightarrow> bluetooth" where
  "ble_of p = gatt.extend (gatt_of p) (bluetooth.fields None BLE_DISCONNECTED None)"

lemma ble_of_fields [simp]:
  "cfg (ble_of p) = cfg p" "reply (ble_of p) = reply p" "trace (ble_of p) = trace p"
  "obb_mode_ble (ble_of p) = None" "ble_state (ble_of p) = BLE_DISCONNECTED" "ble_work (ble_of p) = None"
  by (cases p; simp add: ble_of_def gatt_of_split gatt.defs bluetooth.defs)+

text \<open>Bluetooth is started, and comes up.\<close>

lemma bluetooth_runs:
  "\<exists>s. ble_reach (ble_of plain_device) s \<and> responsive s \<and> BtConnCbRegister conn_callbacks \<in> set (trace s)"
proof -
  have "\<exists>s s'. bluetooth_init (ble_of plain_device) = Inr (0, s) \<and> bt_enable_callback 0 s = Inr ((), s') \<and>
      reply s' = reply plain_device \<and> BtConnCbRegister conn_callbacks \<in> set (trace s')"
    by (simp add: bluetooth_init_def bt_enable_callback_def set_scan_done_callback_def ext_apply ext0_apply go_to_def
        k_work_reschedule_def foreach_obb_def obb_modes_def OBB_MAX_def numeral_eq_Suc obb_fn_def obb_mode_gatt_def
        run_mode_def gatt_init_def plain_device_def device_cfg_def mem_reply_def device_reply_def)
  then obtain s s' where s: "bluetooth_init (ble_of plain_device) = Inr (0, s)" "bt_enable_callback 0 s = Inr ((), s')"
    "reply s' = reply plain_device" "BtConnCbRegister conn_callbacks \<in> set (trace s')" by blast
  from ble_reach.step [OF ble_reach.init [OF s(1)] ble_step.enabled [OF s(2)]] s(3,4) show ?thesis
    by (auto simp: plain_device_ap(1))
qed

text \<open>A peer leaves a device whose callbacks are registered.\<close>

definition left_alone :: bluetooth where
  "left_alone = ble_of (plain_device\<lparr>trace := [BtConnCbRegister conn_callbacks]\<rparr>)"

lemma left_alone_facts:
  "obb_mode_ble left_alone = None" "CONFIG_ONBOARDING_BLUETOOTH_GATT (cfg left_alone)" "responsive left_alone"
  "BtConnCbRegister conn_callbacks \<in> set (trace left_alone)"
  by (simp_all add: left_alone_def plain_device_def device_cfg_def)

lemma left_alone_adv:
  "trace left_alone = [BtConnCbRegister conn_callbacks]" "sd (cfg left_alone) = [BT_DATA_NAME_COMPLETE ''onboarding'']"
  "advertisement = [BT_DATA_FLAGS 6, BT_DATA_UUID128_ALL (0x8993c412, 0xb941, 0x4d54, 0x8d09, 0xc70b1d50b7a1)]"
  by (simp_all add: left_alone_def plain_device_def device_cfg_def sd_def advertisement_def BT_LE_AD_GENERAL_def
      BT_LE_AD_NO_BREDR_def BT_UUID_CUSTOM_ONBOARDING_VAL_def)

end
