(* ===== verification/Spec2Isabelle.thy ===== *)
theory Spec2Isabelle
  imports Ob_Gatt_Device
begin

text \<open>
  The onboarding module, a Zephyr library in C that brings a device onto a wifi network: a
  verification of its sources, src/src and src/include.

  \<^bold>\<open>The program.\<close> A device without credentials opens an access point (ob_wifi.c) and serves a captive
  portal: a web server (ob_web_server.c) with a setup page (ob_captive_portal.c) that shows the
  networks of a scan and takes a name and a key. They go to the non-volatile store
  (ob_nvs_data.c), the device restarts (ob_reboot.c) and at its next start joins the network.
  The same can be done over Bluetooth (ob_bluetooth.c, ob_bluetooth_gatt.c) and from a shell
  (ob_shell.c). Updates over the air (ob_ota.c) and certificates (ob_certs.c) complete it.

  \<^bold>\<open>How it is modelled.\<close> A C function is a program over a state: it returns a result and a state, or
  halts in a state (\<open>Ob_Prelude\<close>). A halt is undefined behaviour the code runs into (a
  write outside an array, a null pointer, freed memory, an unterminated string, an overflow of
  an int) or a call that never comes back; so no theorem hides one. The state is a chain of
  records, one per source file, each extending the one before: kern, nvs, certs, ota, ssids,
  wifi, the sockets, the pages, web, portal, gatt, bluetooth. Calls out of the source (Zephyr,
  the OTA providers, the application, the JSON library) are values of a datatype; each is
  appended to a trace, and its result comes from an environment that is an arbitrary function
  of the trace (\<open>Ob_Kernel\<close>). What a property relies on is a named hypothesis on that
  environment: \<open>responsive\<close> (calls return), \<open>boots_fine\<close> (a start-up whose calls return, with
  strings of the build that fit and no event of a scan), \<open>settings_ok\<close> and \<open>nvs_env_ok\<close> (the documented
  behaviour of the settings subsystem), \<open>has_memory\<close>, \<open>sock_law\<close> and \<open>sock_live\<close> (a socket
  takes at most, or at least one of, the bytes it is given), \<open>takes_chunks\<close> and \<open>json_law\<close>
  for Bluetooth. A call that waits lets the events the environment delivers be handled first.
  The build options are a record, so every #ifdef is a condition.

  \<^bold>\<open>The theories.\<close>
  \<^item> \<open>Ob_Prelude\<close>: programs, invariants carried through them (\<open>keeps\<close>), sequences of operations
    (\<open>reach\<close>). \<open>Ob_CString\<close>: C strings, strncpy, strncmp, numbers as text.
  \<^item> \<open>Ob_Nvs\<close> (ob_nvs_data.c): the store; its interface is the locale \<open>nvs_store\<close>, interpreted on
    the code's operations. \<open>Ob_Certs\<close> (ob_certs.c), \<open>Ob_Ota\<close> (ob_ota.c).
  \<^item> \<open>Ob_Ssid\<close> (the list of networks of ob_wifi.c): a linked list in a heap and the abstract list
    it refines, with the locale \<open>scan_list\<close>. \<open>Ob_Wifi\<close>, \<open>Ob_Wifi_Facts\<close> (the rest of ob_wifi.c):
    event handlers, connecting, scanning, the start-up.
  \<^item> \<open>Ob_Sock\<close> (sendall, with the locale of a byte stream), \<open>Ob_Pages\<close> (page registry, menu, header),
    \<open>Ob_Request\<close> (the request scanner), \<open>Ob_Web\<close>, \<open>Ob_Web_Facts\<close> (connections, listeners, start
    and stop), \<open>Ob_Post\<close> (the form parser): ob_web_server.c.
  \<^item> \<open>Ob_Portal\<close>, \<open>Ob_Portal_Facts\<close> (ob_captive_portal.c, ob_reboot.c): the setup page and what a
    post leaves in the store. \<open>Ob_Provision\<close>: the server and the portal together, from the bytes of
    a connection to the store. \<open>Ob_Server\<close>: the listeners and handlers of ob_web_server.c, and
    the stop of the listeners, as threads, a step relation on the tables of connections; what the
    server asks of a page is the locale \<open>page_contract\<close>, interpreted on the portal's pages.
    \<open>Ob_Pool\<close>: the abstract pool of connections it refines, and the account of accepted and closed
    ones. \<open>Ob_Setup\<close>: the setup page from the scan to the socket, and the page and the form under
    two handlers.
  \<^item> \<open>Ob_Boot\<close>: the start-up of ob_wifi.c returns (\<open>returns\<close> of \<open>Ob_Prelude\<close> is the total
    counterpart of \<open>keeps\<close>). \<open>Ob_Site\<close>: the locale \<open>server_invariant\<close>, what every thread of the
    server keeps, interpreted on the setup page, the tables, a registered page, and the platform.
    \<open>Ob_Life\<close>: the life of a device from power-up, the functions the application, the work queue
    and the event handlers run, in any order and between the steps of the server, as one step
    relation; its invariant, and the theorems on provisioning that rest on it. At power-up
    (\<open>powered_up\<close>) every variable has the value its declaration gives it, the settings store any.
  \<^item> \<open>Ob_Gatt\<close>, \<open>Ob_Gatt_Facts\<close> (ob_bluetooth_gatt.c): the list of networks sent by notification, the
    write that joins a network; \<open>Ob_Gatt_Session\<close>: the requests a peer can make through the
    service table, with its permissions, as a step relation, and the start-up after them.
    \<open>Ob_Bluetooth\<close> (ob_bluetooth.c): the advertising state machine and the callbacks of the stack as
    a step relation. \<open>Ob_Shell\<close> (ob_shell.c): the command handlers and their table.
  \<^item> \<open>Ob_Device\<close>, \<open>Ob_Gatt_Device\<close>: a concrete platform and device states, on which every
    hypothesis of the theorems below is shown to hold.

  \<^bold>\<open>What the theorems show.\<close> The first section follows a user's input through all components, from
  a device that powers up to the network the next start-up joins: the only hypotheses are on the
  platform, the build and the bytes that are sent. The others are about one part each: Bluetooth, the shell, the scanner of requests, the list of
  networks, sending and pages, the wifi, the store, updates and the server's listeners. Several
  state a defect of the code exactly: when it happens and what the program does then.

  \<^bold>\<open>Bounds and fuel.\<close> The recursions over the linked list get Suc brk steps, more than the heap has
  nodes. sendall and the listener loops run over a script of answers, one per call; when it is
  used up the call does not come back. The notification loop gets a number of rounds and says
  whether it ended; two rounds for each character are enough for a stack that accepts a chunk
  at the second attempt. int is checked at 32 bits where the code computes on input; the GATT
  chunk size is a 16-bit word and the scan times are 32-bit words.

  \<^bold>\<open>Not modelled.\<close> Messages to the log, except where making one is undefined. The numeric values of
  addresses, ports, priorities and stack sizes. A handler is interleaved with others between its
  parts (reading, serving, closing), not within one, and a listener is aborted between two
  accepts, not within one. The build of the portal with the Golioth provider names an
  undeclared constant and has no model. ob_log.c only registers the log module. The stacks,
  semaphores, work items and callbacks that macros of the platform declare are names in the calls
  that use them.
\<close>

section \<open>From power-up to the network\<close>












text \<open>
  C7. ob_ws_process_post reads a form back: from the text/plain encoding of a list of fields, each
  for an attribute of the page, it leaves in every attribute the value of the last field of that
  name, and in an attribute without a field what it held before.
\<close>

theorem posted_form_is_parsed:
  assumes "load_wp p s = Inr (wp, s)" "content_length wp = int (length (form_text fs))"
    and "rx s c = map RxByte (form_text fs) @ es"
    and "attrs_ok ap" "\<forall>f \<in> set fs. good_field ap f" "distinct (map pa_name ap)"
  shows "\<exists>ap'. ob_ws_process_post c ap p s = Inr ((0, ap'), s\<lparr>rx := (rx s)(c := es)\<rparr>) \<and>
    map pa_name ap' = map pa_name ap \<and>
    (\<forall>i < length ap. attr_value (ap' ! i) =
       (case map_of (rev fs) (pa_name (ap ! i)) of None \<Rightarrow> attr_value (ap ! i) | Some v \<Rightarrow> v))"
  using process_post_form [OF assms(1-5)] form_values [OF assms(6) good_fields_nul_free [OF assms(5)]]
  by simp

theorem posted_form_is_parsed_witness:
  "\<exists>ap'. ob_ws_process_post 5 wifi_setup_attrib_init 1 posting = Inr ((0, ap'), posting\<lparr>rx := (rx posting)(5 := [])\<rparr>) \<and>
    attr_value (ap' ! 0) = ''home'' \<and> attr_value (ap' ! 1) = ''secret12''"
proof -
  have "\<forall>f \<in> set [(''ssid'', ''home''), (''password'', ''secret12'')]. good_field wifi_setup_attrib_init f"
    by (simp add: good_field_def wifi_setup_attrib_init_def VALUE_BUFFER_SIZE_def)
  moreover have "length wifi_setup_attrib_init = 2" "distinct (map pa_name wifi_setup_attrib_init)"
    "pa_name (wifi_setup_attrib_init ! 0) = ''ssid''" "pa_name (wifi_setup_attrib_init ! 1) = ''password''"
    by (simp_all add: wifi_setup_attrib_init_def)
  ultimately show ?thesis
    using posted_form_is_parsed [OF posting_facts(1-3) [unfolded setup_form_def] attrib_init_ok] by fastforce
qed







text \<open>
  C11. A connection handler that returns has closed the connection it was started for, as its last
  call, and has given the slot back, whatever it was asked, whatever the page did, and however the
  socket behaved.
\<close>

theorem handler_gives_its_slot_back:
  assumes "client_conn_handler portal_page lf cf slot s = Inr (u, s')" and "slot < length (accepted lf s)"
  shows "accepted lf s' ! slot = - 1 \<and> (\<exists>pre. trace s' = pre @ [ZsockClose (accepted lf s ! slot)])"
  by (rule portal_handler_frees_slot [OF assms])

theorem handler_gives_its_slot_back_witness:
  "\<exists>u s'. client_conn_handler portal_page AF_INET AF_INET 0 (device [] [] (\<lambda>_. [RxClosed]) (\<lambda>_. [])) = Inr (u, s') \<and>
     accepted AF_INET s' ! 0 = - 1 \<and> (\<exists>pre. trace s' = pre @ [ZsockClose 5])"
proof -
  obtain u s' where "client_conn_handler portal_page AF_INET AF_INET 0 (device [] [] (\<lambda>_. [RxClosed]) (\<lambda>_. [])) = Inr (u, s')"
    using closed_connection_returns by blast
  with handler_gives_its_slot_back [OF this] show ?thesis by simp
qed

text \<open>
  C12. However the steps of the listeners and of the handlers they start follow each other, from a
  server without connections and while no socket fails under a handler that reads: each handler
  has a slot of its own, which holds the connection it serves until it has closed it, and every
  slot in use has its handler.
\<close>

theorem connections_keep_their_slots:
  assumes "srv_reach portal_page False s0 (s, ths)"
    and "peers_known (cfg s0) (data s0)" and "\<And>f. \<forall>v \<in> set (accepted f s0). v < 0"
  shows "distinct (map slot_of ths) \<and>
    (\<forall>(lf, cf, i, ph) \<in> set ths. i < length (accepted lf s) \<and> 0 \<le> accepted lf s ! i \<and> client_is ph (accepted lf s ! i)) \<and>
    (\<forall>f i. i < length (accepted f s) \<longrightarrow> 0 \<le> accepted f s ! i \<longrightarrow> (f, i) \<in> slot_of ` set ths)"
  using pg.srv_reach_ok [OF assms(2,3,1)] by (simp add: srv_ok_def thread_ok_def)

theorem connections_keep_their_slots_witness:
  "\<exists>s ths. srv_reach portal_page False idle_server (s, ths) \<and> ths \<noteq> [] \<and> distinct (map slot_of ths) \<and>
     0 \<le> accepted AF_INET s ! 0"
proof -
  obtain s cf where run: "srv_reach portal_page False idle_server (s, [(AF_INET, cf, 0, Reading)])"
    using srv_reach.step [OF srv_reach.start] idle_accepts by blast
  from connections_keep_their_slots [OF run server_peers(1)] run show ?thesis by fastforce
qed

text \<open>
  C13. A handler whose socket fails while it reads has freed its slot and still runs: when no
  lower slot is free, the next accept of its listener gives the slot, and with it the thread and
  its stack, to a second connection, and two handlers run on one slot.
\<close>

theorem failed_socket_shares_its_slot:
  assumes "srv_ok (s, xs @ (lf, cf, i, Reading) # ys)" and "peers_known (cfg s) (data s)"
    and "conn_read lf i s = Inr ((c, r, True), s1)" and "\<forall>j < i. 0 \<le> accepted lf s ! j"
    and "reply s1 (trace s1) (ZsockAccept (listen_sock lf s1)) = Some client" "0 \<le> client"
    and "process_tcp lf s1 = Inr (r', s2)" "listener_alive lf s"
  shows "\<exists>mid cf'. mid = xs @ (lf, cf, i, Serving c r) # ys \<and>
    srv_step portal_page True (s, xs @ (lf, cf, i, Reading) # ys) (s1, mid) \<and>
    srv_step portal_page True (s1, mid) (s2, mid @ [(lf, cf', i, Reading)]) \<and>
    \<not> srv_ok (s2, mid @ [(lf, cf', i, Reading)])"
  by (rule failed_socket_shares_slot [OF assms])

theorem failed_socket_shares_its_slot_witness:
  "\<exists>s1 (s2 :: portal) r cf. srv_step portal_page True (s1, [(AF_INET, AF_INET, 0, Serving 5 r)])
     (s2, [(AF_INET, AF_INET, 0, Serving 5 r), (AF_INET, cf, 0, Reading)])"
proof -
  obtain r s1 where read: "conn_read AF_INET 0 failing_server = Inr ((5, r, True), s1)"
    and s1: "reply s1 = mem_reply [] device_reply"
    using failing_reads by auto
  obtain r' s2 where "process_tcp AF_INET s1 = Inr (r', s2)"
    using process_tcp_returns [of s1 AF_INET] s1 by auto
  from failed_socket_shares_its_slot [OF failing_ok server_peers(2) read _ _ _ this failing_listens] s1 show ?thesis
    by (simp del: One_nat_def) blast
qed

text \<open>
  C14. The server with its tables, threads and listeners refines a pool of at most
  CONFIG_HTTP_NUM_HANDLERS open connections for each listener: every step of every interleaving,
  while no socket fails under a handler that reads, opens one connection where there is room,
  closes one that is open, or leaves the pool as it is; there are always as many handlers as open
  connections; and once stop_web_server has aborted a listener, its pool only shrinks.
\<close>

theorem server_refines_pool:
  assumes "srv_reach portal_page False s0 (s, ths)" and "srv_step portal_page False (s, ths) (s', ths')"
    and "peers_known (cfg s0) (data s0)" and "\<And>f. \<forall>v \<in> set (accepted f s0). v < 0"
  shows "pool_step (capacity s0) (open_conns s) (open_conns s') \<and>
    (\<forall>f. size (open_conns s' f) = length (filter (\<lambda>th. fst th = f) ths') \<and> size (open_conns s' f) \<le> capacity s0 f) \<and>
    (\<forall>f. KThreadAbort (listener_thread f) \<in> set (trace s) \<longrightarrow> open_conns s' f \<subseteq># open_conns s f)"
proof -
  have inv: "srv_inv (cfg s0) (data s0) (s, ths)" "capacity s = capacity s0"
    using pg.srv_reach_inv [OF assms(3,4,1)] by simp_all
  have "srv_ok (s', ths')" "capacity s' = capacity s0"
    using pg.srv_reach_inv [OF assms(3,4) srv_reach.step [OF assms(1,2)]] by (simp_all add: srv_inv_def)
  moreover have "pool_step (capacity s) (open_conns s) (open_conns s')"
    using pg.srv_step_pool [OF assms(3,2) inv(1)] by blast
  moreover have "open_conns s' f \<subseteq># open_conns s f" if "KThreadAbort (listener_thread f) \<in> set (trace s)" for f
    by (rule pg.srv_step_stopped [OF assms(3,2) inv(1)]) (simp add: listener_alive_def that)
  ultimately show ?thesis using handlers_counted [of s' ths'] open_conns_bound [of s'] inv(2) by simp
qed

theorem server_refines_pool_witness:
  "\<exists>s cf. srv_step portal_page False (idle_server, []) (s, [(AF_INET, cf, 0, Reading)]) \<and>
     pool_step (capacity idle_server) (open_conns idle_server) (open_conns s) \<and> size (open_conns s AF_INET) = 1"
proof -
  obtain s cf where "srv_step portal_page False (idle_server, []) (s, [(AF_INET, cf, 0, Reading)])"
    using idle_accepts by blast
  from server_refines_pool [OF srv_reach.start this server_peers(1)] this show ?thesis by auto
qed

text \<open>
  C15. No connection is lost or closed twice, however the listeners and handlers interleave while
  no socket fails under a handler that reads: the connections accept has returned so far, as a
  multiset, are those that have been closed and those that are still open in the two tables.
\<close>

theorem no_connection_leaks:
  assumes "srv_reach portal_page False s0 (s, ths)" and "taken s0 = closed s0"
    and "peers_known (cfg s0) (data s0)" and "\<And>f. \<forall>v \<in> set (accepted f s0). v < 0"
  shows "taken s = closed s + (open_conns s AF_INET + open_conns s AF_INET6)"
  using pg.srv_reach_inv [OF assms(3,4,1)] assms(2) by (simp add: balanced_def)

theorem no_connection_leaks_witness:
  "\<exists>s ths. srv_reach portal_page False idle_server (s, ths) \<and> ths \<noteq> [] \<and>
     taken s = closed s + (open_conns s AF_INET + open_conns s AF_INET6)"
proof -
  obtain s cf where "srv_step portal_page False (idle_server, []) (s, [(AF_INET, cf, 0, Reading)])"
    using idle_accepts by blast
  from srv_reach.step [OF srv_reach.start this] have run: "srv_reach portal_page False idle_server (s, [(AF_INET, cf, 0, Reading)])" .
  from no_connection_leaks [OF this idle_books server_peers(1)] run show ?thesis by fastforce
qed



section \<open>Bluetooth\<close>



text \<open>
  C18. The other order of the same two threads: if the handler of the end of a scan runs on before
  the waiting work item, it frees the list it has just handed over, and the work item reads freed
  memory, whatever networks were found.
\<close>

theorem freed_list_is_read:
  assumes "ssid_rep s as" "as \<noteq> []" "done_callback s = Some ''scan_complete''" "responsive s"
  shows "\<exists>s'. thn (gatt_deliver WIFI_SCAN_DONE) ob_update_ap_list s = Inl (UseAfterFree, s')"
  by (rule handler_first [OF assms])

theorem freed_list_is_read_witness:
  "\<exists>s'. thn (gatt_deliver WIFI_SCAN_DONE) ob_update_ap_list listed = Inl (UseAfterFree, s')"
  by (rule freed_list_is_read [OF listed_facts])

text \<open>
  C19. Whatever the Bluetooth stack answers and however many rounds the loop is given, what the
  peer has been notified of when it stops is a prefix of the text, in order and without gaps, and
  no notification is longer than the chunk size.
\<close>

theorem notifications_are_a_prefix:
  assumes "notify_loop n k txt s = Inr (b, s')"
  shows "(\<exists>p. prefix p txt \<and> notified s' = notified s @ p) \<and> (small_notes k s \<longrightarrow> small_notes k s')"
  using notify_loop_prefix [OF assms] keeps_Inr [OF keeps_small_notes _ assms] by blast

theorem notifications_are_a_prefix_witness:
  "\<exists>s'. notify_loop 6 2 ''abc'' read_list = Inr (True, s') \<and> (\<exists>p. prefix p ''abc'' \<and> notified s' = p) \<and> small_notes 2 s'"
proof -
  obtain s' where run: "notify_loop 6 2 ''abc'' read_list = Inr (True, s')"
    using notify_loop_all [of read_list 2 "''abc''" 6] read_list_facts(1,8) by (auto simp: list_models_def)
  have "small_notes 2 read_list" by (simp add: small_notes_def read_list_def plain_device_def)
  with notifications_are_a_prefix [OF run] run read_list_facts(10) show ?thesis by auto
qed





text \<open>
  C22. In every state reached from a successful start of Bluetooth by runs of its work item,
  connections, disconnections, failed pairings and other callbacks of the stack, in any order, the
  state machine is about to start advertising or waiting, and when it is about to start, its work
  item is queued to run at once.
\<close>

theorem advertising_is_never_forgotten:
  assumes "ble_reach s0 s"
  shows "(ble_state s = BLE_ADV_START \<or> ble_state s = BLE_WAITING) \<and>
    (ble_state s = BLE_ADV_START \<longrightarrow> ble_work s = Some 0)"
  using ble_reach_ok [OF assms] by (auto simp: ble_ok_def)

theorem advertising_is_never_forgotten_witness:
  "\<exists>s s'. ble_reach (ble_of plain_device) s \<and> bt_disconnected 19 s = Inr ((), s') \<and>
    ble_reach (ble_of plain_device) s' \<and> ble_state s' = BLE_ADV_START \<and> ble_work s' = Some 0"
proof -
  obtain s where s: "ble_reach (ble_of plain_device) s" "responsive s" "BtConnCbRegister conn_callbacks \<in> set (trace s)"
    using bluetooth_runs by blast
  let ?s' = "s\<lparr>ble_state := BLE_ADV_START, ble_work := Some 0, trace := trace s @ [KWorkReschedule ''ble_work'' 0]\<rparr>"
  have run: "bt_disconnected 19 s = Inr ((), ?s')" by (rule disconnect_queues [OF s(2)])
  have "ble_step s ?s'"
    by (rule ble_step.stack [OF disconnected_registered [OF s(3)], of 19]) (simp add: run_bt_cb_def run)
  then have r: "ble_reach (ble_of plain_device) ?s'" by (rule ble_reach.step [OF s(1)])
  from advertising_is_never_forgotten [OF r] s(1) run r show ?thesis by auto
qed



section \<open>The shell\<close>





section \<open>The types of the request scanner\<close>


section \<open>The list of networks and its page\<close>

text \<open>
  C27. The linked list of access points refines an abstract list: a scan that starts on any well-
  formed list and receives any sequence of results ends with a well-formed list without two
  entries of one name, and when memory suffices its contents are what adding the results one by
  one to the empty abstract list gives.
\<close>

theorem scan_builds_the_list:
  assumes "list_models s l" and "wifi_inited s"
  shows "\<exists>s' l'. thn ob_wifi_scan (each (map scan_event rs) (wifi_deliver portal_cb)) s = Inr ((), s') \<and>
    list_models s' l' \<and> names_distinct l' \<and>
    (has_memory (reply s) \<longrightarrow> l' = fold ap_add_result (map scan_entry rs) [])"
  by (rule scan_collects [OF assms])

theorem scan_builds_the_list_witness:
  "\<exists>s' l'. thn ob_wifi_scan (each (map scan_event [(''home'', 4, 206, True), (''home'', 4, 190, True)])
       (wifi_deliver portal_cb)) scanning = Inr ((), s') \<and> list_models s' l' \<and> names_distinct l' \<and>
     l' = [\<lparr>ap_name = ''home'', ap_len = 4, ap_strength = 80, ap_secure = True\<rparr>]"
  using scan_builds_the_list [OF scanning_facts(1,2),
      of "[(''home'', 4, 206, True), (''home'', 4, 190, True)]"] scanning_facts(3)
  by (simp add: scan_entry_def ap_add_def ap_listed_def ap_new_def scan_strength_def Let_def)



text \<open>
  C29. Whenever the setup page can be shown to one client, two clients that ask for it at once can
  crash the device: the second, served while the first has its networks and has not sent them,
  frees the buffer they share, and the first reads freed memory.
\<close>

theorem two_setup_pages_crash:
  assumes "scan_finds s l" and "page_sendable s b (networks_text l)"
  shows "\<exists>s1 s2. display_scan portal_deliver s = Inr ((), s1) \<and>
    display_wifi_setup_page portal_deliver b s1 = Inr (0, s2) \<and> display_send a s2 = Inl (UseAfterFree, s2)"
  by (rule two_pages_read_freed [OF assms])

theorem two_setup_pages_crash_witness:
  "\<exists>s1 s2. display_scan portal_deliver showing = Inr ((), s1) \<and>
    display_wifi_setup_page portal_deliver 6 s1 = Inr (0, s2) \<and> display_send 5 s2 = Inl (UseAfterFree, s2)"
  by (rule two_setup_pages_crash [OF showing_facts(1,2)])

text \<open>
  C30. Two clients that post the form at once can leave a network with the key of another: when
  the first handler has saved its name and the second has read its form before the first saves its
  key, the device that starts on that store asks to join the network of the first with the key of
  the second.
\<close>

theorem two_forms_are_mixed:
  assumes "i < length (web_pages s)" "a \<noteq> b" "setup_attribs_ok s"
    and "rx s a = map RxByte (setup_form x1 y1) @ es1" "rx s b = map RxByte (setup_form x2 y2) @ es2"
    and "good_credential (WIFI_SSID_MAX_LEN (cfg t)) x1" "form_value n2 x2"
    and "form_value m1 y1" "good_credential (WIFI_PSK_MAX_LEN (cfg t)) y2"
    and "\<And>tr k v. reply s tr (SettingsSaveOne k v) = Some 0"
    and "booted (store (final (two_forms a b (length (web_pages s) - i) (int (length (setup_form x1 y1)))
      (int (length (setup_form x2 y2))) s))) t"
    and "\<And>tr. reply t tr (NetIfGet wifi_sta) = Some iface" "iface \<noteq> 0"
    and "boots_fine t"
  shows "\<exists>r t'. ob_wifi_init portal_deliver t = Inr (r, t') \<and>
    NetMgmt (NET_REQUEST_WIFI_CONNECT x1 y2) iface \<in> set (trace t')"
  by (rule mixed_forms_join [OF assms])

theorem two_forms_are_mixed_witness:
  "\<exists>r t'. ob_wifi_init portal_deliver mixed_device = Inr (r, t') \<and>
     NetMgmt (NET_REQUEST_WIFI_CONNECT ''home'' ''espresso'') 1 \<in> set (trace t')"
  by (rule two_forms_are_mixed [OF two_posts_facts(1) _ two_posts_facts(2-4) _ cafe_values(1) home_values(2) _
        two_posts_facts(5) mixed_booted _ _ mixed_fine]) (simp_all add: mixed_cfg good_home good_cafe mixed_device_def)

text \<open>
  C31. client_scan_done computes the size of its buffer from the names of the list, and what it
  then formats into it, for any non-empty list of networks whose names fit the wifi's limit, stays
  inside it with room for the terminator, inside the stack buffer of each option too; the page's
  semaphore is then given.
\<close>

theorem network_list_fits_its_buffer:
  assumes "ssid_rep s as" "names_fit s as" "as \<noteq> []" and "responsive s" "has_memory (reply s)"
  shows "\<exists>s'. client_scan_done (ssid_head s) s = Inr ((), s') \<and>
    content_wifi_body_ssid s' = Body (options_size (heap_names s as)) (concat (map option_text (heap_names s as))) \<and>
    length (concat (map option_text (heap_names s as))) < options_size (heap_names s as) \<and>
    trace s' = trace s @ [Malloc (options_size (heap_names s as)), KSemGive scan_done_sem]"
  by (rule client_scan_done_text [OF assms])

theorem network_list_fits_its_buffer_witness:
  "\<exists>s'. client_scan_done 1 one_network = Inr ((), s') \<and>
    content_wifi_body_ssid s' = Body 35 (option_text ''home'')"
proof -
  obtain s' where "client_scan_done (ssid_head one_network) one_network = Inr ((), s')"
    "content_wifi_body_ssid s' = Body (options_size (heap_names one_network [1]))
       (concat (map option_text (heap_names one_network [1])))"
    using network_list_fits_its_buffer [OF one_network_facts(1,2) _ one_network_facts(3,4)] by auto
  then show ?thesis by (simp add: one_network_facts(5,6) options_size_def del: One_nat_def)
qed

section \<open>Sending, menu and pages\<close>

text \<open>
  C32. sendall, on any socket that takes at most what it is given: when it returns, what has gone
  out is a prefix of the buffer, the whole buffer if the result is 0, and no other result is
  positive.
\<close>

theorem sendall_never_garbles:
  assumes "sock_law s c" and "sendall c b s = Inr (r, s')"
  shows "r \<le> 0 \<and> sock_law s' c \<and> (\<exists>p. prefix p b \<and> wire s' c = wire s c @ p \<and> (r = 0 \<longrightarrow> p = b))"
  by (rule bs.snd_prefix [OF assms])

theorem sendall_never_garbles_witness:
  "\<exists>s'. sendall 5 ''abc'' two_sends = Inr (- 104, s') \<and> (\<exists>p. prefix p ''abc'' \<and> wire s' 5 = p)"
proof -
  obtain s' where run: "sendall 5 ''abc'' two_sends = Inr (- 104, s')" using two_sends_fail by blast
  with sendall_never_garbles [OF two_sends_law run] show ?thesis by (simp add: two_sends_wire)
qed

text \<open>
  C33. On a socket that takes at least a byte for as many calls as the buffer has bytes, sendall
  ends, returns 0, and the whole buffer has gone out, in chunks none of which is longer than 1024
  bytes.
\<close>

theorem sendall_delivers:
  assumes "sock_law s c" and "sock_live s c (length b)"
  shows "\<exists>s' cs. sendall c b s = Inr (0, s') \<and> wire s' c = wire s c @ b \<and>
    trace s' = trace s @ map (ZsockSend c) cs \<and> (\<forall>x \<in> set cs. length x \<le> 1024)"
proof -
  obtain s' where "sendall c b s = Inr (0, s')" "wire s' c = wire s c @ b"
    using bs.snd_whole [of s c b 0] assms by auto
  with sendall_loop_chunks [of "length (tx s c)" c b s] show ?thesis
    by (simp add: sendall_def SENDALL_MAX_LEN_def)
qed

theorem sendall_delivers_witness:
  "\<exists>s' cs. sendall 5 ''abc'' (getting ''/'') = Inr (0, s') \<and> wire s' 5 = ''abc'' \<and>
    trace s' = map (ZsockSend 5) cs \<and> (\<forall>x \<in> set cs. length x \<le> 1024)"
  using sendall_delivers [of "getting ''/''" 5 "''abc''"] by simp

text \<open>
  C34. A menu create_menu hands out is the complete one, with the entry of every page in the order
  of the list, and fits its buffer; the pages are left as they are.
\<close>

theorem menu_is_whole:
  assumes "\<forall>wp \<in> set (web_pages s). page_ok wp" and "create_menu s = Inr (Some m, s')"
  shows "s' = s \<and> m = menu_text (web_pages s) \<and> length m < WEB_MENU_LEN"
  by (rule create_menu_Some [OF assms])

theorem menu_is_whole_witness:
  "\<exists>m. create_menu (getting ''/'') = Inr (Some m, getting ''/'') \<and> m = menu_text [app_page, setup_page] \<and>
    length m < WEB_MENU_LEN"
proof -
  obtain m where run: "create_menu (getting ''/'') = Inr (Some m, getting ''/'')"
    using create_menu_fits [of "getting ''/''"] getting_page_fits by simp
  with menu_is_whole [OF _ run] getting_page_fits(1) show ?thesis by simp
qed

text \<open>
  C35. The size test of create_menu is too small by two characters for each page and eight more:
  whenever the count it makes is accepted but the menu does not fit 256 bytes, it writes past its
  buffer.
\<close>

theorem menu_overruns_its_buffer:
  assumes "\<forall>wp \<in> set (web_pages s). page_ok wp" and "menu_counted (web_pages s) \<le> WEB_MENU_LEN"
    and "WEB_MENU_LEN \<le> menu_counted (web_pages s) + 2 * length (web_pages s) + 8"
  shows "create_menu s = Inl (OutOfBounds, s)"
  using create_menu_overflow [OF assms(1,2)] assms(3) by (simp add: length_menu_text)

theorem menu_overruns_its_buffer_witness:
  "create_menu crowded = Inl (OutOfBounds, crowded)"
  by (rule menu_overruns_its_buffer)
    (simp_all add: crowded_def menu_counted_def counted_def length_menu_start WEB_MENU_LEN_def
      WIFI_SETUP_PAGE_PATH_def WIFI_SETUP_TITLE_def)

section \<open>The wifi\<close>



text \<open>
  C37. The access point takes the configured name followed by the last three bytes of the MAC
  address in hexadecimal, when that fits the array; when the configured name fits but leaves less
  than seven characters, strcat writes past the array.
\<close>

theorem access_point_name:
  assumes "responsive s" and "reply s (trace s) (NetIfGet wifi_sap) = Some iface" "iface \<noteq> 0"
    and "data s (trace s @ [NetIfGet wifi_sap]) (NetIfGetLinkAddr iface) = m" "length m = 6"
    and "length (CONFIG_ONBOARDING_WIFI_AP_ADDRESS (cfg s)) < WIFI_AP_ADDRESS_SIZE"
    and "length (CONFIG_ONBOARDING_WIFI_AP_PSK (cfg s)) < WIFI_PSK_MAX_LEN (cfg s)"
    and "length (CONFIG_ONBOARDING_WIFI_AP_SSID (cfg s)) < WIFI_SSID_MAX_LEN (cfg s)"
  shows "if length (CONFIG_ONBOARDING_WIFI_AP_SSID (cfg s)) + 6 < WIFI_SSID_MAX_LEN (cfg s)
    then \<exists>s'. wifi_init_ap s = Inr ((), s') \<and>
      wifi_ap_ssid s' = CONFIG_ONBOARDING_WIFI_AP_SSID (cfg s) @ mac_suffix (map of_char m) \<and>
      wifi_ap_psk s' = CONFIG_ONBOARDING_WIFI_AP_PSK (cfg s)
    else \<exists>s'. wifi_init_ap s = Inl (OutOfBounds, s')"
  by (rule wifi_init_ap_name [OF assms])

theorem access_point_name_witness:
  "\<exists>s'. wifi_init_ap plain_device = Inr ((), s') \<and> wifi_ap_ssid s' = ''OB_646566''"
proof -
  have suffix: "mac_suffix (map of_char ''abcdef'') = ''646566''"
    by (simp add: mac_suffix_def hex2_def hex_char_def char_of_def bit_0)
  have cfg: "cfg plain_device = device_cfg" by (simp add: plain_device_def)
  show ?thesis
    using access_point_name [OF plain_device_ap(1,2) _ plain_device_ap(3)] suffix
    by (simp add: cfg device_cfg_def WIFI_AP_ADDRESS_SIZE_def) blast
qed

section \<open>The store\<close>

text \<open>
  C38. The shell command factory_reset, on a store whose deletes succeed, leaves it empty; and the
  device that starts on that store, with no network compiled in, comes to the end of its start-up,
  has asked to join no network, and has scheduled its access point.
\<close>

theorem reset_device_joins_nothing:
  fixes t :: "'z portal_scheme"
  assumes "settings_ok s" and "\<And>tr k. reply s tr (SettingsDelete k) = Some 0"
    and "booted (store (final (cmd_factory_reset argv s))) t" "boots_fine t"
    and "\<not> CONFIG_ONBOARDING_PRECONFIG_WIFI (cfg t)"
  shows "(\<exists>s'. cmd_factory_reset argv s = Inr (0, s') \<and> store s' = Map.empty) \<and>
    (\<exists>t'. ob_wifi_init portal_deliver t = Inr (0, t') \<and> connects t' = 0 \<and>
      (CONFIG_ONBOARDING_WIFI_AP (cfg t) \<longrightarrow> KWorkSchedule ''start_ap_work'' 500 \<in> set (trace t')))"
proof -
  obtain s' where s': "ob_nvs_data_factory_reset s = Inr ((), s')" "store s' = Map.empty"
    using reset_erases [OF assms(1,2)] by blast
  then have cmd: "cmd_factory_reset argv s = Inr (0, s')" by (simp add: cmd_factory_reset_def)
  have "booted (store (final (ob_nvs_data_factory_reset s))) t" using assms(3) s' cmd by simp
  from reset_then_boot [OF assms(1,2) this assms(4,5)] cmd s'(2) show ?thesis by blast
qed

theorem reset_device_joins_nothing_witness:
  "\<exists>t'. ob_wifi_init portal_deliver plain_device = Inr (0, t') \<and> connects t' = 0 \<and>
     KWorkSchedule ''start_ap_work'' 500 \<in> set (trace t')"
proof -
  have "booted (store (final (cmd_factory_reset [] two_settings))) plain_device"
    using reset_erases [OF two_settings_facts(1,2)] plain_booted(1) by (auto simp: cmd_factory_reset_def)
  from reset_device_joins_nothing [OF two_settings_facts(1,2) this plain_fine plain_booted(2)] show ?thesis
    by (simp add: plain_device_def device_cfg_def)
qed

section \<open>Updates\<close>

text \<open>
  C39. ota_do_update returns true only when the provider's update function was called twice, first
  with a result other than OK and then with OK, and the restart - the provider's if it has one,
  the platform's otherwise - is its last call.
\<close>

theorem update_before_restart:
  assumes "ota_do_update s = Inr (True, s')"
  shows "\<exists>t f r x. ota_vtable s = Some t \<and> ob_ota_update t = Some f \<and>
    reply s (trace s) (CallPtr f) = Some x \<and> x \<noteq> 0 \<and>
    reply s (trace s @ [CallPtr f]) (CallPtr f) = Some 0 \<and>
    trace s' = trace s @ [CallPtr f, CallPtr f, r] \<and>
    r = (case ob_ota_reboot t of None \<Rightarrow> SysReboot | Some g \<Rightarrow> CallPtr g)"
  by (rule ota_do_update_true [OF assms])

theorem update_before_restart_witness:
  "\<exists>s'. ota_do_update updating = Inr (True, s') \<and> trace s' = [CallPtr ''update'', CallPtr ''update'', CallPtr ''restart'']"
proof -
  obtain s' where run: "ota_do_update updating = Inr (True, s')" using updating_returns by blast
  from update_before_restart [OF run] run show ?thesis
    by (auto simp: updating_def plain_device_def provider_def)
qed

section \<open>Requests at the limits\<close>

text \<open>
  C40. A request whose path has 32 characters or more writes past the filename array of the
  handler, while the path is still being read.
\<close>

theorem long_path_overruns_its_buffer:
  assumes "pt \<noteq> UNKNOWN" and "SP \<notin> set path" "CR \<notin> set path" "LF \<notin> set path" "32 \<le> length path"
  shows "\<exists>es'. scan_request (map RxByte (method_text pt @ path @ [SP]) @ es) req_init = ScanHalt OutOfBounds es'"
  by (rule long_path_overflows [OF assms])

theorem long_path_overruns_its_buffer_witness:
  "\<exists>es'. scan_request (map RxByte (method_text GET @ replicate 32 CHR ''a'' @ [SP]) @ []) req_init = ScanHalt OutOfBounds es'"
  by (rule long_path_overruns_its_buffer) simp_all

end
